(* ===== verification/Loomic_Prelude.thy ===== *)
theory Loomic_Prelude
  imports Main "HOL-Library.Word" "HOL-Library.Monad_Syntax"
begin

text \<open>
  Shared vocabulary of the development: the machine integers of the C++ server as words
  (\<open>int64_t\<close> and \<open>uint64_t\<close> are both \<open>64 word\<close>, read with \<open>sint\<close> or \<open>uint\<close>, so that a
  \<open>static_cast\<close> between them is the identity), byte vectors as lists, the object
  representation that \<open>memcpy\<close> reads and writes on a little-endian host, and the parts of the
  C++ standard library that several components use (\<open>std::to_string\<close>, \<open>std::from_chars\<close>,
  \<open>std::string::find\<close>).  The lemmas declared \<open>[simp]\<close> here, and the collections
  \<open>wire_simps\<close> and \<open>world_simps\<close>, carry the proofs of the component theories.
\<close>

unbundle bit_operations_syntax

named_theorems wire_simps \<open>lengths and round trips of encoded values\<close>
named_theorems handler_intros \<open>the handlers that only have permitted effects\<close>
named_theorems handler_elims \<open>how a handler came to its response\<close>
named_theorems world_simps \<open>effect of one operation on one part of the server state\<close>

section \<open>Machine integers and byte vectors\<close>

type_synonym u8 = "8 word"
type_synonym u16 = "16 word"
type_synonym u32 = "32 word"
type_synonym u64 = "64 word"
type_synonym i64 = "64 word"
type_synonym bytes = "u8 list"

text \<open>\<open>le_bytes n w\<close> are the first \<open>n\<close> bytes of the object representation of \<open>w\<close>.\<close>

fun le_bytes :: "nat \<Rightarrow> 'a::len word \<Rightarrow> bytes" where
  "le_bytes 0 w = []"
| "le_bytes (Suc n) w = ucast w # le_bytes n (drop_bit 8 w)"

fun of_le_bytes :: "bytes \<Rightarrow> 'a::len word" where
  "of_le_bytes [] = 0"
| "of_le_bytes (b # bs) = ucast b OR push_bit 8 (of_le_bytes bs)"

section \<open>The standard library's number formatting and parsing\<close>

definition digit_char :: "nat \<Rightarrow> char" where
  "digit_char d = char_of (48 + d)"

definition is_digit :: "char \<Rightarrow> bool" where
  "is_digit c \<longleftrightarrow> 48 \<le> (of_char c :: nat) \<and> (of_char c :: nat) \<le> 57"

definition digit_val :: "char \<Rightarrow> nat" where
  "digit_val c = of_char c - 48"

fun string_of_nat :: "nat \<Rightarrow> string" where
  "string_of_nat n =
     (if n < 10 then [digit_char n] else string_of_nat (n div 10) @ [digit_char (n mod 10)])"

declare string_of_nat.simps [simp del]

text \<open>\<open>std::to_string\<close> of an unsigned and of a signed 64-bit value.\<close>

definition to_string_u64 :: "u64 \<Rightarrow> string" where
  "to_string_u64 w = string_of_nat (unat w)"

definition string_of_int :: "int \<Rightarrow> string" where
  "string_of_int k = (if k < 0 then CHR ''-'' # string_of_nat (nat (- k)) else string_of_nat (nat k))"

definition to_string_i64 :: "i64 \<Rightarrow> string" where
  "to_string_i64 w = string_of_int (sint w)"

definition digits_val :: "string \<Rightarrow> nat" where
  "digits_val ds = foldl (\<lambda>a c. 10 * a + digit_val c) 0 ds"

text \<open>
  \<open>std::from_chars\<close> in base 10: the longest prefix of digits is the number, trailing
  characters are ignored, no digit at all is \<open>invalid_argument\<close> and a number that does not
  fit is \<open>result_out_of_range\<close> (both are \<open>None\<close>: the callers only test \<open>ec\<close>).  No leading
  white space and no plus sign are accepted; the signed version accepts one minus sign.
\<close>

definition from_chars_unsigned :: "nat \<Rightarrow> string \<Rightarrow> nat option" where
  "from_chars_unsigned w s =
     (let ds = takeWhile is_digit s
      in if ds = [] then None
         else if digits_val ds < 2 ^ w then Some (digits_val ds) else None)"

definition from_chars_u64 :: "string \<Rightarrow> u64 option" where
  "from_chars_u64 s = map_option of_nat (from_chars_unsigned 64 s)"

definition from_chars_u32 :: "string \<Rightarrow> u32 option" where
  "from_chars_u32 s = map_option of_nat (from_chars_unsigned 32 s)"

definition from_chars_i64 :: "string \<Rightarrow> i64 option" where
  "from_chars_i64 s =
     (let (neg, r) = (case s of c # t \<Rightarrow> if c = CHR ''-'' then (True, t) else (False, s) | [] \<Rightarrow> (False, s));
          ds = takeWhile is_digit r
      in if ds = [] then None
         else if neg then (if digits_val ds \<le> 2 ^ 63 then Some (of_int (- int (digits_val ds))) else None)
         else if digits_val ds < 2 ^ 63 then Some (of_nat (digits_val ds)) else None)"

text \<open>
  \<open>std::stoll\<close> and \<open>std::stoi\<close>: leading white space and one sign are skipped, trailing characters are
  ignored; \<open>None\<close> is an exception (\<open>invalid_argument\<close> or \<open>out_of_range\<close>).
\<close>

definition is_space :: "char \<Rightarrow> bool" where
  "is_space c \<longleftrightarrow> (of_char c :: nat) = 32 \<or> 9 \<le> (of_char c :: nat) \<and> (of_char c :: nat) \<le> 13"

definition strto :: "int \<Rightarrow> int \<Rightarrow> string \<Rightarrow> int option" where
  "strto lo hi s =
     (let r = dropWhile is_space s;
          (neg, r) = (case r of c # t \<Rightarrow> if c = CHR ''-'' then (True, t)
                        else if c = CHR ''+'' then (False, t) else (False, r) | [] \<Rightarrow> (False, r));
          ds = takeWhile is_digit r;
          v = (if neg then - int (digits_val ds) else int (digits_val ds))
      in if ds = [] \<or> v < lo \<or> hi < v then None else Some v)"

definition stoll :: "string \<Rightarrow> i64 option" where
  "stoll s = map_option of_int (strto (- (2 ^ 63)) (2 ^ 63 - 1) s)"

definition stoi :: "string \<Rightarrow> int option" where
  "stoi s = strto (- (2 ^ 31)) (2 ^ 31 - 1) s"

text \<open>\<open>std::string(v.begin(), v.end())\<close> of a byte vector and back.\<close>

definition chars_of_bytes :: "bytes \<Rightarrow> string" where
  "chars_of_bytes bs = map (\<lambda>b. char_of (unat b)) bs"

definition bytes_of_chars :: "string \<Rightarrow> bytes" where
  "bytes_of_chars s = map (\<lambda>c. of_nat (of_char c)) s"

section \<open>Lemmas on byte encodings\<close>

lemma bytes_of_chars_of_bytes [simp, wire_simps]: "bytes_of_chars (chars_of_bytes bs) = bs"
proof -
  have "(of_nat (of_char (char_of (unat b) :: char)) :: u8) = b" for b :: u8
  proof -
    have "unat b < 256" using unsigned_less [of b, where 'a = nat] by (simp del: unsigned_less)
    then show ?thesis by (simp add: of_char_of)
  qed
  then show ?thesis by (simp add: bytes_of_chars_def chars_of_bytes_def comp_def)
qed

lemma chars_of_bytes_inject [simp]: "chars_of_bytes a = chars_of_bytes b \<longleftrightarrow> a = b"
  by (metis bytes_of_chars_of_bytes)

lemma chars_of_bytes_of_chars [simp, wire_simps]: "chars_of_bytes (bytes_of_chars s) = s"
proof -
  have "char_of (unat (of_nat (of_char c) :: u8)) = c" for c :: char
    by (simp add: unsigned_of_nat take_bit_nat_eq_self)
  then show ?thesis by (simp add: bytes_of_chars_def chars_of_bytes_def comp_def)
qed

lemma length_le_bytes [simp, wire_simps]: "length (le_bytes n w) = n"
  by (induction n arbitrary: w) auto

lemma of_le_bytes_le_bytes_take: "of_le_bytes (le_bytes n w) = take_bit (8 * n) w"
proof (induction n arbitrary: w)
  case 0
  then show ?case by simp
next
  case (Suc n)
  show ?case
    by (rule bit_word_eqI) (auto simp: Suc bit_simps)
qed

lemma of_le_bytes_le_bytes [simp, wire_simps]:
  "8 * n = LENGTH('a) \<Longrightarrow> of_le_bytes (le_bytes n w) = (w :: 'a::len word)"
  by (simp add: of_le_bytes_le_bytes_take)

lemma of_le_bytes_le_bytes_all [simp, wire_simps]:
  "of_le_bytes (le_bytes 8 (a :: 64 word)) = a"
  "of_le_bytes (le_bytes 4 (b :: 32 word)) = b"
  "of_le_bytes (le_bytes (Suc 0) (c :: 8 word)) = c"
  by simp_all

lemma bit_of_le_bytes:
  "bit (of_le_bytes bs :: 'a::len word) k \<longleftrightarrow>
     k < LENGTH('a) \<and> k div 8 < length bs \<and> bit (bs ! (k div 8)) (k mod 8)"
proof (induction bs arbitrary: k)
  case Nil
  then show ?case by simp
next
  case (Cons b bs)
  show ?case
  proof (cases "k < 8")
    case True
    then show ?thesis by (auto simp: bit_simps)
  next
    case False
    then obtain j where j: "k = 8 + j" by (metis le_Suc_ex not_less)
    have "(8 + j) div 8 = Suc (j div 8)" by simp
    moreover have "\<not> bit b (8 + j)" by (simp add: impossible_bit)
    ultimately show ?thesis by (auto simp: j Cons bit_simps)
  qed
qed

lemma nth_le_bytes: "i < n \<Longrightarrow> le_bytes n w ! i = ucast (drop_bit (8 * i) w)"
proof (induction n arbitrary: w i)
  case 0
  then show ?case by simp
next
  case (Suc n)
  then show ?case
    by (cases i) (simp_all add: drop_bit_drop_bit add.commute)
qed

lemma le_bytes_of_le_bytes [wire_simps]:
  assumes "length bs = n" "8 * n \<le> LENGTH('a)"
  shows "le_bytes n (of_le_bytes bs :: 'a::len word) = bs"
proof (rule nth_equalityI)
  fix i assume "i < length (le_bytes n (of_le_bytes bs :: 'a word))"
  then have i: "i < n" by simp
  have "bit (ucast (drop_bit (8 * i) (of_le_bytes bs :: 'a word)) :: u8) k = bit (bs ! i) k"
    if k: "k < 8" for k
  proof -
    from k have "(8 * i + k) div 8 = i" "(8 * i + k) mod 8 = k" by simp_all
    moreover from i k assms have "8 * i + k < LENGTH('a)" by linarith
    ultimately show ?thesis
      using i k assms by (simp add: bit_of_le_bytes bit_simps)
  qed
  then show "le_bytes n (of_le_bytes bs :: 'a word) ! i = bs ! i"
    using i by (auto simp: nth_le_bytes intro: bit_word_eqI)
qed (use assms in simp)

lemma le_bytes_inject:
  "8 * n = LENGTH('a) \<Longrightarrow> le_bytes n v = le_bytes n w \<longleftrightarrow> v = (w :: 'a::len word)"
  by (metis of_le_bytes_le_bytes)

lemma unat_less_64 [simp]: "unat (w :: 64 word) < 18446744073709551616"
  using unsigned_less [of w] by (simp del: unsigned_less)

lemma unat_less_32 [simp]: "unat (w :: 32 word) < 4294967296"
  using unsigned_less [of w] by (simp del: unsigned_less)

lemma int_unat_less: "unat (w :: 'a::len word) < n \<Longrightarrow> uint w < int n"
  using of_nat_less_iff [where 'a = int, of "unat w" n] by simp

lemma sint_small_gen:
  assumes "unat (w :: 'a::len word) < 2 ^ (LENGTH('a) - Suc 0)"
  shows "sint w = int (unat w)"
proof -
  have "uint w < 2 ^ (LENGTH('a) - Suc 0)" using int_unat_less [OF assms] by simp
  moreover have "- (2 ^ (LENGTH('a) - Suc 0)) \<le> uint w" by (rule order_trans [OF _ unsigned_greater_eq]) simp
  ultimately have "signed_take_bit (LENGTH('a) - Suc 0) (uint w) = uint w"
    by (simp add: signed_take_bit_int_eq_self)
  then show ?thesis by (simp add: sint_uint)
qed

lemma sint_small: "unat (w :: 64 word) < 2 ^ 63 \<Longrightarrow> sint w = int (unat w)"
  using sint_small_gen [of w] by simp

lemma sint_small_32: "unat (w :: 32 word) < 2 ^ 31 \<Longrightarrow> sint w = int (unat w)"
  using sint_small_gen [of w] by simp

lemma not_bit_nat_less: "(n :: nat) < 2 ^ k \<Longrightarrow> k \<le> j \<Longrightarrow> \<not> bit n j"
  by (metis bit_take_bit_iff leD take_bit_nat_eq_self)

lemma push_bit_or_nat: "a < 2 ^ n \<Longrightarrow> push_bit n b OR a = b * 2 ^ n + (a :: nat)"
proof -
  assume "a < 2 ^ n"
  then have "\<not> bit a j" if "n \<le> j" for j
    using that by (rule not_bit_nat_less)
  then have "push_bit n b AND a = 0"
    by (auto simp: bit_eq_iff bit_simps)
  then show ?thesis
    by (simp add: disjunctive_add_eq_or [symmetric] push_bit_eq_mult)
qed

section \<open>Lemmas on decimal numbers\<close>

lemma digit_val_digit_char [simp]: "d < 10 \<Longrightarrow> digit_val (digit_char d) = d"
  by (simp add: digit_val_def digit_char_def)

lemma is_digit_digit_char [simp]: "d < 10 \<Longrightarrow> is_digit (digit_char d)"
  by (simp add: is_digit_def digit_char_def)

lemma string_of_nat_nonempty [simp]: "string_of_nat n \<noteq> []"
  by (subst string_of_nat.simps) simp

lemma string_of_nat_digits: "\<forall>c \<in> set (string_of_nat n). is_digit c"
proof (induction n rule: string_of_nat.induct)
  case (1 n)
  then show ?case by (subst string_of_nat.simps) auto
qed

lemma digits_val_snoc [simp]: "digits_val (ds @ [c]) = 10 * digits_val ds + digit_val c"
  by (simp add: digits_val_def)

lemma digits_val_string_of_nat [simp]: "digits_val (string_of_nat n) = n"
proof (induction n rule: string_of_nat.induct)
  case (1 n)
  show ?case
  proof (cases "n < 10")
    case True
    then show ?thesis by (subst string_of_nat.simps) (simp add: digits_val_def)
  next
    case False
    with 1 show ?thesis by (subst string_of_nat.simps) simp
  qed
qed

lemma takeWhile_string_of_nat:
  "\<not> is_digit c \<Longrightarrow> takeWhile is_digit (string_of_nat n @ c # s) = string_of_nat n"
  "takeWhile is_digit (string_of_nat n) = string_of_nat n"
  using string_of_nat_digits [of n] by (auto simp: takeWhile_append2 takeWhile_eq_all_conv)

lemma string_of_nat_inject [simp]: "string_of_nat m = string_of_nat n \<longleftrightarrow> m = n"
  by (metis digits_val_string_of_nat)

lemma to_string_u64_inject [simp]: "to_string_u64 v = to_string_u64 w \<longleftrightarrow> v = w"
  by (simp add: to_string_u64_def word_unat_eq_iff)

lemma to_string_u64_nonempty [simp]: "to_string_u64 v \<noteq> []"
  by (simp add: to_string_u64_def)

lemma from_chars_to_string_u64 [simp, wire_simps]: "from_chars_u64 (to_string_u64 w) = Some w"
  by (simp add: from_chars_u64_def from_chars_unsigned_def to_string_u64_def
      takeWhile_string_of_nat Let_def unat_less_64)

lemma from_chars_u64_trailing:
  "\<not> is_digit c \<Longrightarrow> from_chars_u64 (to_string_u64 w @ c # s) = Some w"
  by (simp add: from_chars_u64_def from_chars_unsigned_def to_string_u64_def
      takeWhile_string_of_nat Let_def unat_less_64)

lemma from_chars_u64_Nil [simp]: "from_chars_u64 [] = None"
  by (simp add: from_chars_u64_def from_chars_unsigned_def)

lemma not_digit_minus [simp]: "\<not> is_digit CHR ''-''"
  by (simp add: is_digit_def)

lemma string_of_nat_hd_digit: "string_of_nat n = c # t \<Longrightarrow> is_digit c"
  using string_of_nat_digits [of n] by simp

lemma sint_range_64: "- (2 ^ 63) \<le> sint (w :: 64 word)" "sint (w :: 64 word) < 2 ^ 63"
  using sint_ge [of w] sint_lt [of w] by simp_all

lemma from_chars_to_string_i64 [simp, wire_simps]: "from_chars_i64 (to_string_i64 w) = Some w"
proof (cases "sint w < 0")
  case True
  then have "nat (- sint w) \<le> 2 ^ 63" using sint_range_64 [of w] by simp
  then show ?thesis
    using True by (simp add: from_chars_i64_def to_string_i64_def string_of_int_def
        takeWhile_string_of_nat Let_def)
next
  case False
  obtain c t where ct: "string_of_nat (nat (sint w)) = c # t"
    by (meson neq_Nil_conv string_of_nat_nonempty)
  then have "c \<noteq> CHR ''-''" using string_of_nat_hd_digit [OF ct] by (metis not_digit_minus)
  then have "from_chars_i64 (c # t) = (if digits_val (c # t) < 2 ^ 63 then Some (of_nat (digits_val (c # t))) else None)"
    using takeWhile_string_of_nat(2) [of "nat (sint w)"] ct
    by (simp add: from_chars_i64_def Let_def)
  moreover have "nat (sint w) < 2 ^ 63" using sint_range_64 [of w] by (simp add: nat_less_iff)
  moreover have "(of_nat (nat (sint w)) :: i64) = w" using False by simp
  ultimately show ?thesis
    using False digits_val_string_of_nat [of "nat (sint w)"] ct
    by (simp add: to_string_i64_def string_of_int_def)
qed

end
