(* ===== verification/Snowflake.thy ===== *)
theory Snowflake
  imports Loomic_Prelude
begin

text \<open>
  \<open>src/server/src/auth/SnowflakeGen.cpp\<close>: the 64-bit identifier generator.  The mutex makes a
  call of \<open>next\<close> atomic, so a call is a function of the generator and of the readings of
  \<open>system_clock\<close>.  The environment's successive readings (milliseconds since the Unix epoch) are a
  sequence \<open>clk\<close>; \<open>k\<close> is the index of the next reading.  The spin loop may never end (a clock
  that stands still), so it is a \<open>partial_function (option)\<close> and \<open>None\<close> is "does not return".
\<close>

type_synonym clock = "nat \<Rightarrow> i64"

record SnowflakeGen =
  sf_machine_id :: u16
  sf_last_ms :: i64
  sf_sequence :: i64

definition EPOCH_MS :: i64 where
  "EPOCH_MS = 1704067200000"

definition SnowflakeGen_init :: "u16 \<Rightarrow> SnowflakeGen" where
  "SnowflakeGen_init machine_id =
     \<lparr>sf_machine_id = machine_id AND 0x3FF, sf_last_ms = 0, sf_sequence = 0\<rparr>"

definition snowflake_id :: "i64 \<Rightarrow> u16 \<Rightarrow> i64 \<Rightarrow> i64" where
  "snowflake_id now_ms machine_id sequence =
     (push_bit 22 now_ms OR push_bit 12 (ucast machine_id)) OR sequence"

partial_function (option) spin :: "clock \<Rightarrow> i64 \<Rightarrow> i64 \<Rightarrow> nat \<Rightarrow> (i64 \<times> nat) option" where
  "spin clk last_ms now_ms k =
     (if now_ms = last_ms then spin clk last_ms (clk k - EPOCH_MS) (Suc k)
      else Some (now_ms, k))"

definition SnowflakeGen_next ::
  "clock \<Rightarrow> SnowflakeGen \<Rightarrow> nat \<Rightarrow> (i64 \<times> SnowflakeGen \<times> nat) option" where
  "SnowflakeGen_next clk g k =
     (let now_ms = clk k - EPOCH_MS
      in if now_ms = sf_last_ms g then
           (let sequence = sf_sequence g + 1
            in if 0xFFF <s sequence then
                 (case spin clk (sf_last_ms g) now_ms (Suc k) of
                    None \<Rightarrow> None
                  | Some (now_ms', k') \<Rightarrow>
                      Some (snowflake_id now_ms' (sf_machine_id g) 0, g\<lparr>sf_sequence := 0\<rparr>, k'))
               else Some (snowflake_id now_ms (sf_machine_id g) sequence,
                          g\<lparr>sf_sequence := sequence\<rparr>, Suc k))
         else Some (snowflake_id now_ms (sf_machine_id g) 0,
                    g\<lparr>sf_sequence := 0, sf_last_ms := now_ms\<rparr>, Suc k))"

text \<open>\<open>n\<close> calls in a row, with the identifiers they return.\<close>

fun issue :: "nat \<Rightarrow> clock \<Rightarrow> SnowflakeGen \<Rightarrow> nat \<Rightarrow> (i64 list \<times> SnowflakeGen \<times> nat) option" where
  "issue 0 clk g k = Some ([], g, k)"
| "issue (Suc n) clk g k =
     (case SnowflakeGen_next clk g k of
        None \<Rightarrow> None
      | Some (i, g', k') \<Rightarrow>
          (case issue n clk g' k' of
             None \<Rightarrow> None
           | Some (is, g'', k'') \<Rightarrow> Some (i # is, g'', k'')))"

definition gen_inv :: "SnowflakeGen \<Rightarrow> bool" where
  "gen_inv g \<longleftrightarrow> unat (sf_machine_id g) < 1024 \<and> unat (sf_sequence g) < 4096"

text \<open>
  The first \<open>N\<close> readings are good: they do not run backwards, they stay within the 41 bits of
  the timestamp field, and no 4096 consecutive readings fall into the same millisecond.
\<close>

definition clock_fine :: "clock \<Rightarrow> nat \<Rightarrow> bool" where
  "clock_fine clk N \<longleftrightarrow>
     (\<forall>j<N. unat (clk j - EPOCH_MS) < 2 ^ 41) \<and>
     (\<forall>j<N. 0 < j \<longrightarrow> unat (clk (j - 1) - EPOCH_MS) \<le> unat (clk j - EPOCH_MS)) \<and>
     (\<forall>j<N. 4095 \<le> j \<longrightarrow> clk (j - 4095) \<noteq> clk j)"

text \<open>What the generator remembers of the readings: \<open>sf_sequence\<close> counts readings at \<open>sf_last_ms\<close>.\<close>

definition gen_tracks :: "clock \<Rightarrow> nat \<Rightarrow> SnowflakeGen \<Rightarrow> nat \<Rightarrow> bool" where
  "gen_tracks clk N g k \<longleftrightarrow>
     gen_inv g \<and> unat (sf_last_ms g) < 2 ^ 41 \<and>
     (k < N \<longrightarrow> unat (sf_last_ms g) \<le> unat (clk k - EPOCH_MS)) \<and>
     unat (sf_sequence g) \<le> k \<and>
     (\<forall>j<unat (sf_sequence g). clk (k - 1 - j) - EPOCH_MS = sf_last_ms g)"

definition gen_id :: "SnowflakeGen \<Rightarrow> i64" where
  "gen_id g = snowflake_id (sf_last_ms g) (sf_machine_id g) (sf_sequence g)"

section \<open>Layout of an identifier\<close>

lemma unat_snowflake_id:
  assumes "unat now < 2 ^ 41" "unat m < 1024" "unat s < 4096"
  shows "unat (snowflake_id now m s) = unat now * 2 ^ 22 + unat m * 2 ^ 12 + unat s"
proof -
  let ?n = "unat now" and ?m = "unat m" and ?s = "unat s"
  have lo: "push_bit 12 ?m OR ?s = ?m * 2 ^ 12 + ?s"
    using assms(3) by (intro push_bit_or_nat) simp
  have hi: "push_bit 22 ?n OR (push_bit 12 ?m OR ?s) = ?n * 2 ^ 22 + (?m * 2 ^ 12 + ?s)"
    unfolding lo using assms by (intro push_bit_or_nat) simp
  have n': "unat (push_bit 22 now) = push_bit 22 ?n"
    using assms(1)
    by (subst unsigned_push_bit_eq) (simp add: take_bit_nat_eq_self push_bit_eq_mult)
  have m': "unat (push_bit 12 (ucast m :: i64)) = push_bit 12 ?m"
    using assms(2)
    by (subst unsigned_push_bit_eq) (simp add: unsigned_ucast_eq take_bit_nat_eq_self push_bit_eq_mult)
  show ?thesis
    by (simp only: snowflake_id_def unsigned_or_eq n' m' or.assoc hi)
qed

lemma snowflake_id_less:
  assumes "unat m < 1024" "unat now < 2 ^ 41" "unat now' < 2 ^ 41" "unat s < 4096" "unat s' < 4096"
    and "unat now < unat now' \<or> now = now' \<and> unat s < unat s'"
  shows "unat (snowflake_id now m s) < unat (snowflake_id now' m s')"
  using assms by (auto simp: unat_snowflake_id)

section \<open>The generator's invariant and its loop\<close>

lemma gen_inv_init: "gen_inv (SnowflakeGen_init m)"
proof -
  have "unat (m AND 0x3FF) \<le> unat (0x3FF :: u16)"
    by (rule word_and_le1 [THEN word_le_nat_alt [THEN iffD1]])
  then show ?thesis by (simp add: gen_inv_def SnowflakeGen_init_def)
qed

lemma spin_Some: "now \<noteq> lst \<Longrightarrow> spin clk lst now k = Some (now, k)"
  by (simp add: spin.simps)

lemma spin_stops:
  "clk (k + n) - EPOCH_MS \<noteq> lst \<Longrightarrow> \<exists>r. spin clk lst now k = Some r"
proof (induction n arbitrary: now k)
  case 0
  then show ?case by (subst spin.simps) (simp add: spin_Some)
next
  case (Suc n)
  from Suc.IH [of "Suc k" "clk k - EPOCH_MS"] Suc.prems show ?case
    by (subst spin.simps) simp
qed

lemma spin_result:
  assumes "spin clk lst now k = Some (now', k')"
  shows "now' \<noteq> lst \<and> k \<le> k' \<and> (now' = now \<and> k' = k \<or> k < k' \<and> now' = clk (k' - 1) - EPOCH_MS)"
proof (rule spin.raw_induct [where P = "\<lambda>clk lst now k r. case r of (now', k') \<Rightarrow>
    now' \<noteq> lst \<and> k \<le> k' \<and> (now' = now \<and> k' = k \<or> k < k' \<and> now' = clk (k' - 1) - EPOCH_MS)",
    OF _ assms, simplified split_conv])
  fix f :: "clock \<Rightarrow> i64 \<Rightarrow> i64 \<Rightarrow> nat \<Rightarrow> (i64 \<times> nat) option" and clk lst now k r
  assume IH: "\<And>clk lst now k r. f clk lst now k = Some r \<Longrightarrow> (case r of (now', k') \<Rightarrow>
      now' \<noteq> lst \<and> k \<le> k' \<and> (now' = now \<and> k' = k \<or> k < k' \<and> now' = clk (k' - 1) - EPOCH_MS))"
    and eq: "(if now = lst then f clk lst (clk k - EPOCH_MS) (Suc k) else Some (now, k)) = Some r"
  show "case r of (now', k') \<Rightarrow>
      now' \<noteq> lst \<and> k \<le> k' \<and> (now' = now \<and> k' = k \<or> k < k' \<and> now' = clk (k' - 1) - EPOCH_MS)"
    using eq IH [of clk lst "clk k - EPOCH_MS" "Suc k" r] by (auto split: if_splits prod.splits)
qed

lemma spin_frozen:
  assumes "\<forall>j\<ge>k. clk j - EPOCH_MS = lst"
  shows "spin clk lst lst k = None"
proof (cases "spin clk lst lst k")
  case (Some r)
  then obtain now' k' where "spin clk lst lst k = Some (now', k')" by (cases r) auto
  then have "now' \<noteq> lst" "k < k'" "now' = clk (k' - 1) - EPOCH_MS"
    using spin_result by blast+
  with assms show ?thesis by (cases k') auto
qed simp

lemma sequence_step:
  assumes "unat s < 4096"
  shows "(0xFFF :: i64) <s s + 1 \<longleftrightarrow> s = 0xFFF" "s \<noteq> 0xFFF \<Longrightarrow> unat (s + 1) = unat s + 1"
    "s \<noteq> 0xFFF \<Longrightarrow> unat s < 4095"
proof -
  have u: "unat (s + 1) = unat s + 1"
    using assms by (simp add: unat_plus_if')
  have "sint (s + 1) = int (unat s + 1)"
    using assms u by (simp add: sint_small)
  moreover have e: "s = 0xFFF \<longleftrightarrow> unat s = 4095"
    by (simp add: word_unat_eq_iff)
  moreover have "int (unat s + 1) > 0xFFF \<longleftrightarrow> unat s = 4095"
    using assms by linarith
  ultimately show "(0xFFF :: i64) <s s + 1 \<longleftrightarrow> s = 0xFFF"
    by (simp only: word_sless_alt) simp
  show "s \<noteq> 0xFFF \<Longrightarrow> unat (s + 1) = unat s + 1" by (rule u)
  show "s \<noteq> 0xFFF \<Longrightarrow> unat s < 4095" using assms e by linarith
qed

lemma gen_inv_next:
  assumes "gen_inv g" "SnowflakeGen_next clk g k = Some (i, g', k')"
  shows "gen_inv g' \<and> sf_machine_id g' = sf_machine_id g \<and> k < k'"
proof -
  from assms(1) have s: "unat (sf_sequence g) < 4096" by (simp add: gen_inv_def)
  from assms show ?thesis
    using sequence_step [OF s]
    by (auto simp: gen_inv_def SnowflakeGen_next_def Let_def dest: spin_result
        split: if_splits option.splits)
qed

text \<open>The call in the three cases of the code.\<close>

lemma next_new_ms:
  "clk k - EPOCH_MS \<noteq> sf_last_ms g \<Longrightarrow>
   SnowflakeGen_next clk g k =
     Some (snowflake_id (clk k - EPOCH_MS) (sf_machine_id g) 0,
           g\<lparr>sf_sequence := 0, sf_last_ms := clk k - EPOCH_MS\<rparr>, Suc k)"
  by (simp add: SnowflakeGen_next_def Let_def)

lemma next_same_ms:
  assumes "gen_inv g" "clk k - EPOCH_MS = sf_last_ms g" "sf_sequence g \<noteq> 0xFFF"
  shows "SnowflakeGen_next clk g k =
     Some (snowflake_id (clk k - EPOCH_MS) (sf_machine_id g) (sf_sequence g + 1),
           g\<lparr>sf_sequence := sf_sequence g + 1\<rparr>, Suc k)"
proof -
  from assms(1) have s: "unat (sf_sequence g) < 4096" by (simp add: gen_inv_def)
  show ?thesis
    using assms(2,3) sequence_step(1) [OF s] by (simp add: SnowflakeGen_next_def Let_def)
qed

lemma next_exhausted:
  assumes "gen_inv g" "clk k - EPOCH_MS = sf_last_ms g" "sf_sequence g = 0xFFF"
  shows "SnowflakeGen_next clk g k =
     map_option (\<lambda>(now, k'). (snowflake_id now (sf_machine_id g) 0, g\<lparr>sf_sequence := 0\<rparr>, k'))
       (spin clk (sf_last_ms g) (sf_last_ms g) (Suc k))"
proof -
  from assms(1) have s: "unat (sf_sequence g) < 4096" by (simp add: gen_inv_def)
  show ?thesis
    using assms(2,3) sequence_step(1) [OF s]
    by (simp add: SnowflakeGen_next_def Let_def split: option.splits prod.splits)
qed

lemmas next_cases = next_new_ms next_same_ms next_exhausted

text \<open>A clock that never stops: whatever it reads now, a later reading differs.\<close>

definition clock_moves :: "clock \<Rightarrow> bool" where
  "clock_moves clk \<longleftrightarrow> (\<forall>k t. \<exists>j\<ge>k. clk j \<noteq> t)"

lemma next_moving:
  assumes "gen_inv g" "clock_moves clk"
  shows "\<exists>i g' k'. SnowflakeGen_next clk g k = Some (i, g', k')"
proof (cases "clk k - EPOCH_MS = sf_last_ms g \<and> sf_sequence g = 0xFFF")
  case False
  then show ?thesis
    using next_new_ms [of clk k g] next_same_ms [OF assms(1), of clk k]
    by (cases "clk k - EPOCH_MS = sf_last_ms g") auto
next
  case True
  obtain j where j: "Suc k \<le> j" "clk j \<noteq> sf_last_ms g + EPOCH_MS"
    using assms(2) by (auto simp: clock_moves_def)
  then have "clk (Suc k + (j - Suc k)) - EPOCH_MS \<noteq> sf_last_ms g" by (auto simp: algebra_simps)
  then obtain r where "spin clk (sf_last_ms g) (sf_last_ms g) (Suc k) = Some r"
    using spin_stops by blast
  with True next_exhausted [OF assms(1), of clk k] show ?thesis by (cases r) simp
qed

lemma issue_step:
  assumes fine: "clock_fine clk N" and tr: "gen_tracks clk N g k" and k: "k < N"
  obtains i g' where "SnowflakeGen_next clk g k = Some (i, g', Suc k)" "gen_tracks clk N g' (Suc k)"
    "i = gen_id g'" "unat (gen_id g) < unat i" "sf_machine_id g' = sf_machine_id g"
proof (cases "clk k - EPOCH_MS = sf_last_ms g")
  case False
  let ?g = "g\<lparr>sf_sequence := 0, sf_last_ms := clk k - EPOCH_MS\<rparr>"
  from fine k have nxt: "Suc k < N \<Longrightarrow> unat (clk k - EPOCH_MS) \<le> unat (clk (Suc k) - EPOCH_MS)"
    by (auto simp: clock_fine_def dest!: spec [of _ "Suc k"])
  from fine tr k have inv: "gen_tracks clk N ?g (Suc k)"
    using nxt by (auto simp: gen_tracks_def gen_inv_def clock_fine_def)
  have "unat (sf_last_ms g) \<noteq> unat (clk k - EPOCH_MS)"
    using False by (metis word_unat_eq_iff)
  with fine tr k have "unat (gen_id g) < unat (gen_id ?g)"
    by (auto simp: gen_id_def gen_tracks_def gen_inv_def clock_fine_def intro!: snowflake_id_less)
  with inv show thesis
    by (intro that [of _ ?g]) (simp_all add: next_new_ms [of clk k g, OF False] gen_id_def)
next
  case True
  let ?s = "sf_sequence g" and ?g = "g\<lparr>sf_sequence := sf_sequence g + 1\<rparr>"
  from tr have gi: "gen_inv g" and s: "unat ?s < 4096" "unat ?s \<le> k"
    and hist: "\<forall>j<unat ?s. clk (k - 1 - j) - EPOCH_MS = sf_last_ms g"
    by (auto simp: gen_tracks_def gen_inv_def)
  have nf: "?s \<noteq> 0xFFF"
  proof
    assume f: "?s = 0xFFF"
    with s have "4095 \<le> k" by simp
    moreover have "clk (k - 4095) - EPOCH_MS = sf_last_ms g"
      using hist [rule_format, of 4094] f by simp
    ultimately have "clk (k - 4095) = clk k" using True by (simp add: algebra_simps)
    with fine k \<open>4095 \<le> k\<close> show False by (auto simp: clock_fine_def)
  qed
  note st = sequence_step(2,3) [OF s(1) nf]
  from fine k have nxt: "Suc k < N \<Longrightarrow> unat (clk k - EPOCH_MS) \<le> unat (clk (Suc k) - EPOCH_MS)"
    by (auto simp: clock_fine_def dest!: spec [of _ "Suc k"])
  have "clk (k - j) - EPOCH_MS = sf_last_ms g" if "j < Suc (unat ?s)" for j
    using hist True that by (cases j) auto
  with tr True st nxt have inv: "gen_tracks clk N ?g (Suc k)"
    by (auto simp: gen_tracks_def gen_inv_def)
  from tr st have "unat (gen_id g) < unat (gen_id ?g)"
    by (auto simp: gen_id_def gen_tracks_def gen_inv_def intro!: snowflake_id_less)
  with inv show thesis
    by (intro that [of _ ?g]) (simp_all add: next_same_ms [of g clk k, OF gi True nf] gen_id_def True)
qed

lemma issue_increasing:
  assumes "clock_fine clk N" "gen_tracks clk N g k" "k + n \<le> N"
  shows "\<exists>ids g'. issue n clk g k = Some (ids, g', k + n) \<and> length ids = n \<and>
           sorted_wrt (<) (map unat (gen_id g # ids))"
  using assms(2,3)
proof (induction n arbitrary: g k)
  case 0
  then show ?case by simp
next
  case (Suc n)
  then have "k < N" by simp
  from issue_step [OF assms(1) Suc.prems(1) this] obtain i g' where
    st: "SnowflakeGen_next clk g k = Some (i, g', Suc k)" "gen_tracks clk N g' (Suc k)"
    "i = gen_id g'" "unat (gen_id g) < unat i"
    by metis
  with Suc.IH [of g' "Suc k"] Suc.prems(2) obtain ids g'' where
    "issue n clk g' (Suc k) = Some (ids, g'', Suc k + n)" "length ids = n"
    "sorted_wrt (<) (map unat (gen_id g' # ids))"
    by auto
  with st show ?case by (auto simp: order.strict_trans)
qed

lemma gen_tracks_init: "gen_tracks clk N (SnowflakeGen_init m) 0"
  using gen_inv_init [of m] by (simp add: gen_tracks_def SnowflakeGen_init_def)

section \<open>Properties\<close>

text \<open>
  C1: the layout documented in \<open>SnowflakeGen.hpp\<close> (41 bits of milliseconds, 10 bits of machine,
  12 bits of sequence) is invertible: the three fields of an identifier are read back by shifts
  and masks, for every value that fits its field.
\<close>

theorem snowflake_layout:
  assumes "unat now < 2 ^ 41" "unat m < 1024" "unat s < 4096"
  shows "unat (snowflake_id now m s) div 2 ^ 22 = unat now \<and>
         unat (snowflake_id now m s) div 2 ^ 12 mod 2 ^ 10 = unat m \<and>
         unat (snowflake_id now m s) mod 2 ^ 12 = unat s \<and>
         0 \<le> sint (snowflake_id now m s)"
proof -
  let ?i = "unat (snowflake_id now m s)"
  have i: "?i = unat now * 2 ^ 22 + unat m * 2 ^ 12 + unat s"
    using assms by (rule unat_snowflake_id)
  have "?i < 2 ^ 63" using assms by (simp add: i)
  then have "0 \<le> sint (snowflake_id now m s)" by (simp only: sint_small of_nat_0_le_iff)
  moreover have "?i div 2 ^ 22 = unat now" using assms by (simp add: i)
  moreover have "?i div 2 ^ 12 mod 2 ^ 10 = unat m" "?i mod 2 ^ 12 = unat s"
  proof -
    define q where "q = unat m + unat now * 1024"
    have "?i = unat s + q * 4096" by (simp add: i q_def)
    with assms(3) have "?i div 2 ^ 12 = q" "?i mod 2 ^ 12 = unat s" by simp_all
    with assms(2) show "?i div 2 ^ 12 mod 2 ^ 10 = unat m" "?i mod 2 ^ 12 = unat s"
      by (simp_all add: q_def)
  qed
  ultimately show ?thesis by blast
qed

theorem snowflake_layout_witness:
  "unat (5 :: i64) < 2 ^ 41 \<and> unat (snowflake_id 5 1 7) div 2 ^ 22 = unat (5 :: i64)"
  using snowflake_layout [of 5 1 7] by simp



text \<open>
  C3: a call fails to return exactly when the sequence of the current millisecond is used up
  and the clock never shows another millisecond afterwards.
\<close>

theorem snowflake_returns:
  assumes "gen_inv g"
  shows "SnowflakeGen_next clk g k = None \<longleftrightarrow>
           sf_sequence g = 0xFFF \<and> (\<forall>j\<ge>k. clk j - EPOCH_MS = sf_last_ms g)"
proof (cases "clk k - EPOCH_MS = sf_last_ms g \<and> sf_sequence g = 0xFFF")
  case False
  then consider "clk k - EPOCH_MS \<noteq> sf_last_ms g" | "clk k - EPOCH_MS = sf_last_ms g" "sf_sequence g \<noteq> 0xFFF"
    by blast
  then show ?thesis
    by cases (auto simp: next_new_ms next_same_ms [OF assms])
next
  case True
  then have nx: "SnowflakeGen_next clk g k = None \<longleftrightarrow>
      spin clk (sf_last_ms g) (sf_last_ms g) (Suc k) = None"
    using next_exhausted [OF assms, of clk k] by auto
  have "spin clk (sf_last_ms g) (sf_last_ms g) (Suc k) = None \<longleftrightarrow>
      (\<forall>j\<ge>Suc k. clk j - EPOCH_MS = sf_last_ms g)"
  proof
    assume n: "spin clk (sf_last_ms g) (sf_last_ms g) (Suc k) = None"
    show "\<forall>j\<ge>Suc k. clk j - EPOCH_MS = sf_last_ms g"
      using spin_stops [of clk "Suc k" _ "sf_last_ms g" "sf_last_ms g"] n
      by (metis le_Suc_ex option.distinct(1))
  qed (rule spin_frozen)
  moreover have "(\<forall>j\<ge>k. clk j - EPOCH_MS = sf_last_ms g) \<longleftrightarrow>
      (\<forall>j\<ge>Suc k. clk j - EPOCH_MS = sf_last_ms g)"
    using True by (metis Suc_leD le_antisym not_less_eq_eq)
  ultimately show ?thesis using nx True by simp
qed

theorem snowflake_returns_witness:
  "gen_inv (SnowflakeGen_init 1) \<and> SnowflakeGen_next (\<lambda>_. EPOCH_MS) (SnowflakeGen_init 1) 0 \<noteq> None"
  using snowflake_returns [OF gen_inv_init, of "\<lambda>_. EPOCH_MS" 1 0] gen_inv_init [of 1]
  by (simp add: SnowflakeGen_init_def)

text \<open>
  C4: the sequence-exhausted branch leaves \<open>last_ms_\<close> at the old millisecond.  When it has spun
  to a new millisecond and the following call reads that same millisecond, the two calls return
  the same identifier, against "Returns the next unique ID" in \<open>SnowflakeGen.hpp\<close>.
\<close>

theorem snowflake_duplicate:
  assumes "gen_inv g" "clk k - EPOCH_MS = sf_last_ms g" "sf_sequence g = 0xFFF"
    and "SnowflakeGen_next clk g k = Some (i, g', k')"
    and "clk k' = clk (k' - 1)"
  shows "\<exists>g''. SnowflakeGen_next clk g' k' = Some (i, g'', Suc k')"
proof -
  from assms(4) next_exhausted [of g clk k, OF assms(1-3)] obtain now where
    sp: "spin clk (sf_last_ms g) (sf_last_ms g) (Suc k) = Some (now, k')"
    and i: "i = snowflake_id now (sf_machine_id g) 0" and g': "g' = g\<lparr>sf_sequence := 0\<rparr>"
    by auto
  from spin_result [OF sp] have "now \<noteq> sf_last_ms g" "now = clk (k' - 1) - EPOCH_MS" by auto
  then have "clk k' - EPOCH_MS \<noteq> sf_last_ms g'" "clk k' - EPOCH_MS = now"
    using assms(5) by (simp_all add: g')
  then show ?thesis
    using next_new_ms [of clk k' g'] by (simp add: i g')
qed

definition busy_gen :: SnowflakeGen where
  "busy_gen = \<lparr>sf_machine_id = 1, sf_last_ms = 5, sf_sequence = 0xFFF\<rparr>"

theorem snowflake_duplicate_witness:
  "\<exists>i g' g''. SnowflakeGen_next (\<lambda>j. EPOCH_MS + (if j = 0 then 5 else 6)) busy_gen 0 = Some (i, g', 2) \<and>
     SnowflakeGen_next (\<lambda>j. EPOCH_MS + (if j = 0 then 5 else 6)) g' 2 = Some (i, g'', 3)"
proof -
  let ?clk = "\<lambda>j::nat. EPOCH_MS + (if j = 0 then 5 else 6)"
  have inv: "gen_inv busy_gen" and now: "?clk 0 - EPOCH_MS = sf_last_ms busy_gen"
    and sq: "sf_sequence busy_gen = 0xFFF"
    by (simp_all add: gen_inv_def busy_gen_def)
  have "spin ?clk 5 5 1 = Some (6, 2)"
    by (subst spin.simps) (simp add: spin_Some)
  then have st: "SnowflakeGen_next ?clk busy_gen 0 =
      Some (snowflake_id 6 1 0, busy_gen\<lparr>sf_sequence := 0\<rparr>, 2)"
    using next_exhausted [of busy_gen ?clk 0, OF inv now sq] by (simp add: busy_gen_def)
  from snowflake_duplicate [of busy_gen ?clk 0, OF inv now sq st] st show ?thesis
    by (auto simp: numeral_3_eq_3 numeral_2_eq_2)
qed

end
