(* ===== verification/Frames.thy ===== *)
theory Frames
  imports Loomic_Prelude
begin

text \<open>
  \<open>src/server/include/LoomicServer/tcp/frame.hpp\<close> and \<open>src/server/src/tcp/frame.cpp\<close>: the 30-byte
  frame header of the TCP protocol, the delivery record (LMS2, with the legacy LMS1 and raw-frame
  forms still accepted) that sessions exchange and that waits in the Redis offline queue, and the
  chat frame a client receives.  \<open>memcpy\<close> of a packed struct or integer is its little-endian byte
  sequence.  The generated protobuf class \<open>loomic::ChatMessage\<close> is a parameter: the locale
  \<open>chat_codec\<close> says what the code relies on.  Vectors shorter than \<open>2 ^ 31\<close> bytes make the
  conversions to \<open>int\<close> of \<open>set_content\<close> the identity; longer ones are outside the model.
\<close>

section \<open>Data\<close>

text \<open>\<open>MsgType\<close> has the fixed underlying type \<open>uint8_t\<close>: every byte is a value of it.\<close>

definition MsgType_CHAT :: u8 where "MsgType_CHAT = 0x01"
definition MsgType_AUTH :: u8 where "MsgType_AUTH = 0x02"
definition MsgType_PING :: u8 where "MsgType_PING = 0x03"
definition MsgType_PONG :: u8 where "MsgType_PONG = 0x04"
definition MsgType_ERROR :: u8 where "MsgType_ERROR = 0x05"
definition MsgType_DELETE_NOTIFY :: u8 where "MsgType_DELETE_NOTIFY = 0x06"
definition MsgType_DELIVERED :: u8 where "MsgType_DELIVERED = 0x07"
definition MsgType_READ :: u8 where "MsgType_READ = 0x08"
definition MsgType_TYPING :: u8 where "MsgType_TYPING = 0x09"

lemmas MsgType_defs = MsgType_CHAT_def MsgType_AUTH_def MsgType_PING_def MsgType_PONG_def
  MsgType_ERROR_def MsgType_DELETE_NOTIFY_def MsgType_DELIVERED_def MsgType_READ_def MsgType_TYPING_def

definition kFlagIsGroup :: u8 where "kFlagIsGroup = 0x01"

record FrameHeader =
  fh_payload_len :: u32
  fh_msg_type :: u8
  fh_flags :: u8
  fh_msg_id :: u64
  fh_sender_id :: u64
  fh_recipient_id :: u64

definition FrameHeader_zero :: FrameHeader where
  "FrameHeader_zero = \<lparr>fh_payload_len = 0, fh_msg_type = 0, fh_flags = 0,
     fh_msg_id = 0, fh_sender_id = 0, fh_recipient_id = 0\<rparr>"

record OutboundMessage =
  om_conv_id :: u64
  om_msg_id :: u64
  om_sender_id :: u64
  om_recipient_id :: u64
  om_timestamp_ms :: i64
  om_msg_type :: u8
  om_flags :: u8
  om_content :: bytes

definition OutboundMessage_init :: OutboundMessage where
  "OutboundMessage_init = \<lparr>om_conv_id = 0, om_msg_id = 0, om_sender_id = 0, om_recipient_id = 0,
     om_timestamp_ms = 0, om_msg_type = MsgType_CHAT, om_flags = 0, om_content = []\<rparr>"

text \<open>The message of \<open>src/server/proto/chat.proto\<close>.\<close>

record ChatMessage =
  cm_msg_id :: u64
  cm_sender_id :: u64
  cm_recipient_id :: u64
  cm_content :: bytes
  cm_timestamp_ms :: i64
  cm_type :: u32

definition MessageType_CHAT :: u32 where "MessageType_CHAT = 0"

section \<open>Operations\<close>

definition header_bytes :: "FrameHeader \<Rightarrow> bytes" where
  "header_bytes h = le_bytes 4 (fh_payload_len h) @ le_bytes 1 (fh_msg_type h) @ le_bytes 1 (fh_flags h)
     @ le_bytes 8 (fh_msg_id h) @ le_bytes 8 (fh_sender_id h) @ le_bytes 8 (fh_recipient_id h)"

definition header_of_bytes :: "bytes \<Rightarrow> FrameHeader" where
  "header_of_bytes bs = \<lparr>fh_payload_len = of_le_bytes (take 4 bs),
     fh_msg_type = of_le_bytes (take 1 (drop 4 bs)), fh_flags = of_le_bytes (take 1 (drop 5 bs)),
     fh_msg_id = of_le_bytes (take 8 (drop 6 bs)), fh_sender_id = of_le_bytes (take 8 (drop 14 bs)),
     fh_recipient_id = of_le_bytes (take 8 (drop 22 bs))\<rparr>"

definition kDeliveryMagic :: bytes where
  "kDeliveryMagic = [0x4C, 0x4D, 0x53, 0x32]"

definition kDeliveryMagicV1 :: bytes where
  "kDeliveryMagicV1 = [0x4C, 0x4D, 0x53, 0x31]"

definition append_pod :: "nat \<Rightarrow> bytes \<Rightarrow> 'a::len word \<Rightarrow> bytes" where
  "append_pod sz out value = out @ le_bytes sz value"

definition read_pod :: "nat \<Rightarrow> bytes \<Rightarrow> nat \<Rightarrow> ('a::len word \<times> nat) option" where
  "read_pod sz data offset =
     (if offset + sz > length data then None
      else Some (of_le_bytes (take sz (drop offset data)), offset + sz))"

definition deserialize_legacy_frame ::
  "(bytes \<Rightarrow> int \<Rightarrow> ChatMessage option) \<Rightarrow> bytes \<Rightarrow> OutboundMessage option" where
  "deserialize_legacy_frame pb_parse payload =
     (if length payload < 30 then None
      else let header = header_of_bytes payload
           in if length payload \<noteq> 30 + unat (fh_payload_len header) then None
              else case pb_parse (drop 30 payload) (sint (fh_payload_len header)) of
                None \<Rightarrow> None
              | Some proto_msg \<Rightarrow> Some (OutboundMessage_init
                  \<lparr>om_conv_id := min (fh_sender_id header) (fh_recipient_id header),
                   om_msg_id := fh_msg_id header,
                   om_sender_id := fh_sender_id header,
                   om_recipient_id := fh_recipient_id header,
                   om_timestamp_ms := cm_timestamp_ms proto_msg,
                   om_msg_type := fh_msg_type header,
                   om_content := cm_content proto_msg\<rparr>))"

definition serialize_delivery :: "OutboundMessage \<Rightarrow> bytes" where
  "serialize_delivery message =
     (let out = kDeliveryMagic;
          out = append_pod 8 out (om_conv_id message);
          out = append_pod 8 out (om_msg_id message);
          out = append_pod 8 out (om_sender_id message);
          out = append_pod 8 out (om_recipient_id message);
          out = append_pod 8 out (om_timestamp_ms message);
          out = append_pod 1 out (om_msg_type message);
          out = append_pod 1 out (om_flags message);
          out = append_pod 4 out (of_nat (length (om_content message)) :: u32)
      in out @ om_content message)"

text \<open>The two branches of \<open>deserialize_delivery\<close> that follow a recognised magic.\<close>

definition deserialize_v2 :: "bytes \<Rightarrow> OutboundMessage option" where
  "deserialize_v2 payload = do {
     (conv_id, offset) \<leftarrow> read_pod 8 payload 4;
     (msg_id, offset) \<leftarrow> read_pod 8 payload offset;
     (sender_id, offset) \<leftarrow> read_pod 8 payload offset;
     (recipient_id, offset) \<leftarrow> read_pod 8 payload offset;
     (timestamp_ms, offset) \<leftarrow> read_pod 8 payload offset;
     (msg_type, offset) \<leftarrow> read_pod 1 payload offset;
     (flags, offset) \<leftarrow> read_pod 1 payload offset;
     (payload_len :: u32, offset) \<leftarrow> read_pod 4 payload offset;
     if offset + unat payload_len \<noteq> length payload then None
     else Some \<lparr>om_conv_id = conv_id, om_msg_id = msg_id, om_sender_id = sender_id,
       om_recipient_id = recipient_id, om_timestamp_ms = timestamp_ms, om_msg_type = msg_type,
       om_flags = flags, om_content = drop offset payload\<rparr> }"

definition deserialize_v1 :: "bytes \<Rightarrow> OutboundMessage option" where
  "deserialize_v1 payload = do {
     (conv_id, offset) \<leftarrow> read_pod 8 payload 4;
     (msg_id, offset) \<leftarrow> read_pod 8 payload offset;
     (sender_id, offset) \<leftarrow> read_pod 8 payload offset;
     (recipient_id, offset) \<leftarrow> read_pod 8 payload offset;
     (timestamp_ms, offset) \<leftarrow> read_pod 8 payload offset;
     (msg_type, offset) \<leftarrow> read_pod 1 payload offset;
     (payload_len :: u32, offset) \<leftarrow> read_pod 4 payload offset;
     if offset + unat payload_len \<noteq> length payload then None
     else Some \<lparr>om_conv_id = conv_id, om_msg_id = msg_id, om_sender_id = sender_id,
       om_recipient_id = recipient_id, om_timestamp_ms = timestamp_ms, om_msg_type = msg_type,
       om_flags = 0, om_content = drop offset payload\<rparr> }"

definition deserialize_delivery ::
  "(bytes \<Rightarrow> int \<Rightarrow> ChatMessage option) \<Rightarrow> bytes \<Rightarrow> OutboundMessage option" where
  "deserialize_delivery pb_parse payload =
     (if length payload < length kDeliveryMagic then deserialize_legacy_frame pb_parse payload
      else if take 4 payload = kDeliveryMagic then deserialize_v2 payload
      else if take 4 payload = kDeliveryMagicV1 then deserialize_v1 payload
      else deserialize_legacy_frame pb_parse payload)"

definition chat_message_of :: "OutboundMessage \<Rightarrow> ChatMessage" where
  "chat_message_of message = \<lparr>cm_msg_id = om_msg_id message, cm_sender_id = om_sender_id message,
     cm_recipient_id = om_recipient_id message, cm_content = om_content message,
     cm_timestamp_ms = om_timestamp_ms message, cm_type = MessageType_CHAT\<rparr>"

definition build_chat_frame :: "(ChatMessage \<Rightarrow> bytes) \<Rightarrow> OutboundMessage \<Rightarrow> bytes" where
  "build_chat_frame pb_serialize message =
     (let proto_bytes = pb_serialize (chat_message_of message);
          header = FrameHeader_zero
            \<lparr>fh_payload_len := of_nat (length proto_bytes),
             fh_msg_type := om_msg_type message,
             fh_flags := om_flags message,
             fh_msg_id := om_msg_id message,
             fh_sender_id := om_sender_id message,
             fh_recipient_id := om_recipient_id message\<rparr>
      in header_bytes header @ proto_bytes)"

text \<open>
  \<open>read_frame_header\<close> and \<open>read_frame_payload\<close> on the bytes that arrive before the peer closes:
  \<open>None\<close> is the \<open>eof\<close> exception of \<open>async_read\<close>; \<open>write_frame\<close> gives the bytes it sends.
\<close>

definition read_frame_header :: "bytes \<Rightarrow> (FrameHeader \<times> bytes) option" where
  "read_frame_header input =
     (if length input < 30 then None else Some (header_of_bytes (take 30 input), drop 30 input))"

definition read_frame_payload :: "u32 \<Rightarrow> bytes \<Rightarrow> (bytes \<times> bytes) option" where
  "read_frame_payload len input =
     (if unat len > 0
      then if length input < unat len then None
           else Some (take (unat len) input, drop (unat len) input)
      else Some ([], input))"

definition write_frame :: "FrameHeader \<Rightarrow> bytes \<Rightarrow> bytes" where
  "write_frame hdr payload = header_bytes hdr @ payload"

section \<open>The interface to the generated protobuf class\<close>

locale chat_codec =
  fixes pb_serialize :: "ChatMessage \<Rightarrow> bytes"
    and pb_parse :: "bytes \<Rightarrow> int \<Rightarrow> ChatMessage option"
  assumes parse_serialize: "pb_parse (pb_serialize m) (int (length (pb_serialize m))) = Some m"

section \<open>Lemmas\<close>

lemma length_header_bytes [simp, wire_simps]: "length (header_bytes h) = 30"
  by (simp add: header_bytes_def)

lemma header_of_header_bytes [simp, wire_simps]: "header_of_bytes (header_bytes h @ rest) = h"
  by (simp add: header_of_bytes_def header_bytes_def)

lemma header_of_header_bytes' [simp, wire_simps]: "header_of_bytes (header_bytes h) = h"
  using header_of_header_bytes [of h "[]"] by simp

lemma read_frame_header_append [simp]:
  "read_frame_header (header_bytes h @ rest) = Some (h, rest)"
  by (simp add: read_frame_header_def)

lemma read_frame_payload_append [simp]:
  "length p < 2 ^ 32 \<Longrightarrow> read_frame_payload (of_nat (length p)) (p @ rest) = Some (p, rest)"
  by (auto simp: read_frame_payload_def unsigned_of_nat take_bit_nat_eq_self)

lemma serialize_delivery_bytes:
  "serialize_delivery m = kDeliveryMagic @ le_bytes 8 (om_conv_id m) @ le_bytes 8 (om_msg_id m) @
     le_bytes 8 (om_sender_id m) @ le_bytes 8 (om_recipient_id m) @ le_bytes 8 (om_timestamp_ms m) @
     le_bytes 1 (om_msg_type m) @ le_bytes 1 (om_flags m) @
     le_bytes 4 (of_nat (length (om_content m)) :: u32) @ om_content m"
  by (simp add: serialize_delivery_def append_pod_def Let_def)

lemma length_serialize_delivery [wire_simps]:
  "length (serialize_delivery m) = 50 + length (om_content m)"
  by (simp add: serialize_delivery_bytes kDeliveryMagic_def)

lemma deserialize_v2_serialize:
  "deserialize_v2 (serialize_delivery m) = (if length (om_content m) < 2 ^ 32 then Some m else None)"
  by (auto simp: deserialize_v2_def serialize_delivery_bytes read_pod_def kDeliveryMagic_def
      unsigned_of_nat take_bit_nat_eq_self_iff)

lemma slice_drop: "k + n \<le> length p \<Longrightarrow> take n (drop k p) @ drop (n + k) p = drop k p"
  by (metis append_take_drop_id drop_drop)

lemma le_bytes_slice:
  "k + n \<le> length p \<Longrightarrow> 8 * n \<le> LENGTH('a) \<Longrightarrow>
   le_bytes n (of_le_bytes (take n (drop k p)) :: 'a::len word) = take n (drop k p)"
  by (rule le_bytes_of_le_bytes) simp_all

lemma deserialize_v2_inverse:
  assumes "take 4 p = kDeliveryMagic" "deserialize_v2 p = Some m"
  shows "p = serialize_delivery m \<and> length (om_content m) < 2 ^ 32"
proof -
  let ?len = "of_le_bytes (take 4 (drop 46 p)) :: u32"
  from assms(2) have l: "50 + unat ?len = length p"
    and m: "m = \<lparr>om_conv_id = of_le_bytes (take 8 (drop 4 p)), om_msg_id = of_le_bytes (take 8 (drop 12 p)),
      om_sender_id = of_le_bytes (take 8 (drop 20 p)), om_recipient_id = of_le_bytes (take 8 (drop 28 p)),
      om_timestamp_ms = of_le_bytes (take 8 (drop 36 p)), om_msg_type = of_le_bytes (take 1 (drop 44 p)),
      om_flags = of_le_bytes (take 1 (drop 45 p)), om_content = drop 50 p\<rparr>"
    by (auto simp: deserialize_v2_def read_pod_def split: if_splits)
  from l have ge: "50 \<le> length p" by linarith
  from l have "length (om_content m) = unat ?len" by (simp add: m)
  then have c: "(of_nat (length (om_content m)) :: u32) = ?len" "length (om_content m) < 2 ^ 32"
    by (simp_all add: unat_less_32)
  have "serialize_delivery m = take 4 p @ take 8 (drop 4 p) @ take 8 (drop 12 p) @ take 8 (drop 20 p) @
      take 8 (drop 28 p) @ take 8 (drop 36 p) @ take 1 (drop 44 p) @ take 1 (drop 45 p) @
      take 4 (drop 46 p) @ drop 50 p"
    unfolding serialize_delivery_bytes c(1) assms(1) [symmetric]
    using ge by (simp add: m le_bytes_slice del: le_bytes.simps One_nat_def)
  also have "\<dots> = p"
    using slice_drop [of 46 4 p] slice_drop [of 45 1 p] slice_drop [of 44 1 p] slice_drop [of 36 8 p]
      slice_drop [of 28 8 p] slice_drop [of 20 8 p] slice_drop [of 12 8 p] slice_drop [of 4 8 p] ge
    by (simp del: One_nat_def)
  finally show ?thesis using c(2) by simp
qed

lemma deserialize_delivery_serialize:
  "deserialize_delivery pb_parse (serialize_delivery m) =
     (if length (om_content m) < 2 ^ 32 then Some m else None)"
proof -
  have "take 4 (serialize_delivery m) = kDeliveryMagic"
    by (simp add: serialize_delivery_bytes kDeliveryMagic_def)
  moreover have "\<not> length (serialize_delivery m) < length kDeliveryMagic"
    by (simp add: length_serialize_delivery kDeliveryMagic_def)
  ultimately show ?thesis
    by (simp add: deserialize_delivery_def deserialize_v2_serialize)
qed

lemma serialize_delivery_inject:
  assumes "serialize_delivery a = serialize_delivery b" "length (om_content a) < 2 ^ 32"
  shows "a = b"
proof -
  have "length (om_content b) < 2 ^ 32"
    using assms length_serialize_delivery [of a] length_serialize_delivery [of b] by simp
  then show ?thesis
    using assms by (metis deserialize_v2_serialize option.inject)
qed

lemma of_nat_32_top_byte:
  assumes "n < 2 ^ 24"
  shows "le_bytes 4 (of_nat n :: u32) ! 3 = 0"
proof -
  have "drop_bit 24 (of_nat n :: u32) = 0"
    using not_bit_nat_less [OF assms] by (intro bit_word_eqI) (simp add: bit_simps)
  then show ?thesis by (simp add: nth_le_bytes)
qed

context chat_codec
begin

text \<open>A frame built for a client is understood again by the legacy branch, without its flags.\<close>

lemma legacy_frame_roundtrip:
  assumes "length (pb_serialize (chat_message_of m)) < 2 ^ 24"
  shows "deserialize_delivery pb_parse (build_chat_frame pb_serialize m) =
    Some (m\<lparr>om_conv_id := min (om_sender_id m) (om_recipient_id m), om_flags := 0\<rparr>)"
proof -
  let ?pb = "pb_serialize (chat_message_of m)"
  have len: "unat (of_nat (length ?pb) :: u32) = length ?pb"
    using assms by (simp add: unsigned_of_nat take_bit_nat_eq_self)
  then have slen: "sint (of_nat (length ?pb) :: u32) = int (length ?pb)"
    using assms by (simp add: sint_small_32)
  have t: "take 4 (build_chat_frame pb_serialize m) = le_bytes 4 (of_nat (length ?pb) :: u32)"
    by (simp add: build_chat_frame_def Let_def header_bytes_def)
  have "take 4 (build_chat_frame pb_serialize m) \<noteq> kDeliveryMagic"
    "take 4 (build_chat_frame pb_serialize m) \<noteq> kDeliveryMagicV1"
    unfolding t using of_nat_32_top_byte [OF assms]
    by (auto simp: kDeliveryMagic_def kDeliveryMagicV1_def)
  then have "deserialize_delivery pb_parse (build_chat_frame pb_serialize m) =
      deserialize_legacy_frame pb_parse (build_chat_frame pb_serialize m)"
    by (simp add: deserialize_delivery_def)
  also have "\<dots> = Some (m\<lparr>om_conv_id := min (om_sender_id m) (om_recipient_id m), om_flags := 0\<rparr>)"
    using len slen parse_serialize [of "chat_message_of m"]
    by (simp add: deserialize_legacy_frame_def build_chat_frame_def Let_def FrameHeader_zero_def
        OutboundMessage_init_def chat_message_of_def)
  finally show ?thesis .
qed

end

section \<open>Properties\<close>

text \<open>C14. A delivery record is decoded to the message it was encoded from, whatever the eight fields
  hold; only a content that does not fit the 32-bit length field is refused, never misread.\<close>

theorem delivery_roundtrip:
  "deserialize_delivery pb_parse (serialize_delivery m) =
     (if length (om_content m) < 2 ^ 32 then Some m else None)"
  by (rule deserialize_delivery_serialize)

text \<open>The LMS2 format is canonical: a byte string with the LMS2 magic that is accepted is exactly
  the encoding of the message returned, so no truncated, padded or otherwise altered record is
  accepted as that message.\<close>

theorem delivery_canonical:
  assumes "take 4 p = kDeliveryMagic" and "deserialize_delivery pb_parse p = Some m"
  shows "p = serialize_delivery m \<and> length (om_content m) < 2 ^ 32"
proof -
  have "length (take 4 p) = 4"
    by (simp add: assms(1)) (simp add: kDeliveryMagic_def)
  then have "\<not> length p < 4" by simp
  with assms show ?thesis
    by (intro deserialize_v2_inverse) (simp_all add: deserialize_delivery_def kDeliveryMagic_def)
qed

text \<open>A concrete record, and the LMS1 form of an LMS2 record: the older magic and no flags byte.\<close>

definition hello :: OutboundMessage where
  "hello = OutboundMessage_init\<lparr>om_conv_id := 7, om_msg_id := 9, om_sender_id := 7,
     om_recipient_id := 12, om_timestamp_ms := 1000, om_flags := 1, om_content := [104, 105]\<rparr>"

definition lms1_of :: "bytes \<Rightarrow> bytes" where
  "lms1_of p = kDeliveryMagicV1 @ take 41 (drop 4 p) @ drop 46 p"

theorem delivery_canonical_witness:
  "take 4 (serialize_delivery hello) = kDeliveryMagic \<and>
   deserialize_delivery (\<lambda>_ _. None) (serialize_delivery hello) = Some hello \<and>
   length (om_content hello) < 2 ^ 32"
proof -
  have d: "deserialize_delivery (\<lambda>_ _. None) (serialize_delivery hello) = Some hello"
    by (simp only: deserialize_delivery_serialize) (simp add: hello_def)
  have t: "take 4 (serialize_delivery hello) = kDeliveryMagic"
    by (simp add: serialize_delivery_bytes kDeliveryMagic_def)
  show ?thesis using delivery_canonical [OF t d] t d by simp
qed

text \<open>A record queued in the previous format (LMS1) is still delivered: every field survives
  and the flags, which that format does not have, are zero.\<close>

theorem delivery_v1_compat:
  assumes "length (om_content m) < 2 ^ 32"
  shows "deserialize_delivery pb_parse (lms1_of (serialize_delivery m)) = Some (m\<lparr>om_flags := 0\<rparr>)"
  using assms
  by (simp add: deserialize_delivery_def deserialize_v1_def lms1_of_def serialize_delivery_bytes
      read_pod_def kDeliveryMagic_def kDeliveryMagicV1_def unsigned_of_nat take_bit_nat_eq_self)

theorem delivery_v1_compat_witness:
  "length (om_content hello) < 2 ^ 32 \<and>
   deserialize_delivery (\<lambda>_ _. None) (lms1_of (serialize_delivery hello)) = Some (hello\<lparr>om_flags := 0\<rparr>)"
  using delivery_v1_compat [of hello "\<lambda>_ _. None"] by (simp add: hello_def)

text \<open>Framing: whatever header and payload a peer writes, with the payload's length in the header,
  the reader gets back that header, that payload and the rest of the stream untouched.\<close>

theorem frame_stream_roundtrip:
  assumes "fh_payload_len h = of_nat (length p)" and "length p < 2 ^ 32"
  shows "read_frame_header (write_frame h p @ rest) = Some (h, p @ rest) \<and>
    read_frame_payload (fh_payload_len h) (p @ rest) = Some (p, rest)"
  using assms by (simp add: write_frame_def)

theorem frame_stream_roundtrip_witness:
  "let h = FrameHeader_zero\<lparr>fh_payload_len := 2, fh_msg_type := MsgType_CHAT\<rparr>
   in read_frame_header (write_frame h [1, 2] @ [3]) = Some (h, [1, 2, 3]) \<and>
      read_frame_payload (fh_payload_len h) [1, 2, 3] = Some ([1, 2], [3])"
  using frame_stream_roundtrip [of "FrameHeader_zero\<lparr>fh_payload_len := 2, fh_msg_type := MsgType_CHAT\<rparr>"
      "[1, 2]" "[3]"] by (simp add: Let_def)

end
