(* ===== verification/Protobuf.thy ===== *)
theory Protobuf
  imports Frames
begin

text \<open>
  A reference codec for \<open>loomic::ChatMessage\<close> in the proto3 wire format (base-128 varints, fields in
  order of their number, default values left out).  It stands for the class that \<open>protoc\<close> generates
  from \<open>src/server/proto/chat.proto\<close>, which is not part of the sources: the interpretation at the end
  shows that the law of \<open>chat_codec\<close> can hold, and properties are instantiated with it.
\<close>

fun varint :: "nat \<Rightarrow> bytes" where
  "varint n = (if n < 128 then [of_nat n] else of_nat (128 + n mod 128) # varint (n div 128))"

declare varint.simps [simp del]

fun read_varint :: "bytes \<Rightarrow> (nat \<times> bytes) option" where
  "read_varint [] = None"
| "read_varint (b # bs) =
     (if unat b < 128 then Some (unat b, bs)
      else case read_varint bs of None \<Rightarrow> None | Some (n, r) \<Rightarrow> Some (unat b - 128 + 128 * n, r))"

definition field_varint :: "nat \<Rightarrow> nat \<Rightarrow> bytes" where
  "field_varint k n = (if n = 0 then [] else varint (8 * k) @ varint n)"

definition field_bytes :: "nat \<Rightarrow> bytes \<Rightarrow> bytes" where
  "field_bytes k c = (if c = [] then [] else varint (8 * k + 2) @ varint (length c) @ c)"

definition ref_serialize :: "ChatMessage \<Rightarrow> bytes" where
  "ref_serialize m = field_varint 1 (unat (cm_msg_id m)) @ field_varint 2 (unat (cm_sender_id m)) @
     field_varint 3 (unat (cm_recipient_id m)) @ field_bytes 4 (cm_content m) @
     field_varint 5 (unat (cm_timestamp_ms m)) @ field_varint 6 (unat (cm_type m))"

definition set_field :: "nat \<Rightarrow> nat \<Rightarrow> ChatMessage \<Rightarrow> ChatMessage" where
  "set_field k n m =
     (if k = 1 then m\<lparr>cm_msg_id := of_nat n\<rparr> else if k = 2 then m\<lparr>cm_sender_id := of_nat n\<rparr>
      else if k = 3 then m\<lparr>cm_recipient_id := of_nat n\<rparr> else if k = 5 then m\<lparr>cm_timestamp_ms := of_nat n\<rparr>
      else if k = 6 then m\<lparr>cm_type := of_nat n\<rparr> else m)"

fun parse_fields :: "nat \<Rightarrow> bytes \<Rightarrow> ChatMessage \<Rightarrow> ChatMessage option" where
  "parse_fields 0 bs m = None"
| "parse_fields (Suc fuel) bs m =
     (if bs = [] then Some m
      else do {
        (tag, r) \<leftarrow> read_varint bs;
        (n, r) \<leftarrow> read_varint r;
        if tag mod 8 = 0 then parse_fields fuel r (set_field (tag div 8) n m)
        else if tag mod 8 = 2 \<and> n \<le> length r
        then parse_fields fuel (drop n r) (if tag div 8 = 4 then m\<lparr>cm_content := take n r\<rparr> else m)
        else None })"

definition ChatMessage_default :: ChatMessage where
  "ChatMessage_default = \<lparr>cm_msg_id = 0, cm_sender_id = 0, cm_recipient_id = 0, cm_content = [],
     cm_timestamp_ms = 0, cm_type = 0\<rparr>"

text \<open>Every field takes at least two bytes, so one unit of fuel per byte and one for the end suffice.\<close>

definition ref_parse :: "bytes \<Rightarrow> int \<Rightarrow> ChatMessage option" where
  "ref_parse bs n =
     (if n < 0 \<or> int (length bs) < n then None
      else parse_fields (Suc (nat n)) (take (nat n) bs) ChatMessage_default)"

lemma read_varint_varint [simp]: "read_varint (varint n @ r) = Some (n, r)"
proof (induction n rule: varint.induct)
  case (1 n)
  show ?case
  proof (cases "n < 128")
    case True
    then show ?thesis by (subst varint.simps) (simp add: unsigned_of_nat take_bit_nat_eq_self)
  next
    case False
    have "unat (of_nat (128 + n mod 128) :: u8) = 128 + n mod 128"
      using mod_less_divisor [of 128 n]
      by (simp add: unsigned_of_nat take_bit_nat_eq_self del: of_nat_add mod_less_divisor)
    with False 1 show ?thesis by (subst varint.simps) (simp del: of_nat_add)
  qed
qed

lemma length_varint_pos [simp]: "0 < length (varint n)" "varint n \<noteq> []"
  by (subst varint.simps; simp)+

lemma parse_fields_Nil [simp]: "0 < f \<Longrightarrow> parse_fields f [] m = Some m"
  by (cases f) simp_all

text \<open>What is parsed after one field was taken off; a field that is left out costs no fuel.\<close>

lemma parse_field_varint:
  assumes "n = 0 \<Longrightarrow> set_field k n m = m"
    and "\<And>g. length rest < g \<Longrightarrow> parse_fields g rest (set_field k n m) = res"
    and "length (field_varint k n @ rest) < f"
  shows "parse_fields f (field_varint k n @ rest) m = res"
proof (cases "n = 0")
  case True
  with assms show ?thesis by (simp add: field_varint_def)
next
  case False
  then obtain g where f: "f = Suc g" using assms(3) by (cases f) simp_all
  have "length rest < g"
    using assms(3) False f length_varint_pos(1) [of "8 * k"] length_varint_pos(1) [of n]
    by (simp add: field_varint_def del: length_varint_pos length_greater_0_conv)
  then show ?thesis using False assms(2) [of g] by (simp add: f field_varint_def)
qed

lemma parse_field_bytes:
  assumes "cm_content m = []"
    and "\<And>g. length rest < g \<Longrightarrow> parse_fields g rest (m\<lparr>cm_content := c\<rparr>) = res"
    and "length (field_bytes 4 c @ rest) < f"
  shows "parse_fields f (field_bytes 4 c @ rest) m = res"
proof (cases "c = []")
  case True
  with assms(1) have "m\<lparr>cm_content := c\<rparr> = m" by (cases m) simp
  then show ?thesis using True assms(2) [of f] assms(3) by (simp add: field_bytes_def)
next
  case False
  then obtain g where f: "f = Suc g" using assms(3) by (cases f) simp_all
  have "length rest < g"
    using assms(3) False f length_varint_pos(1) [of 34] length_varint_pos(1) [of "length c"]
    by (simp add: field_bytes_def del: length_varint_pos length_greater_0_conv)
  then show ?thesis using False assms(2) [of g] by (simp add: f field_bytes_def)
qed

lemma ref_parse_serialize: "ref_parse (ref_serialize m) (int (length (ref_serialize m))) = Some m"
proof -
  let ?l = "length (ref_serialize m)"
  have "parse_fields (Suc ?l) (ref_serialize m) ChatMessage_default = Some m"
    unfolding ref_serialize_def
    apply (rule parse_field_varint, simp add: set_field_def ChatMessage_default_def)
     apply (rule parse_field_varint, simp add: set_field_def ChatMessage_default_def)
      apply (rule parse_field_varint, simp add: set_field_def ChatMessage_default_def)
       apply (rule parse_field_bytes, simp add: set_field_def ChatMessage_default_def)
        apply (rule parse_field_varint, simp add: set_field_def ChatMessage_default_def)
         apply (rule parse_field_varint [where rest = "[]", simplified])
           apply (simp_all add: set_field_def ChatMessage_default_def)
    done
  then show ?thesis by (simp add: ref_parse_def)
qed

interpretation ref_codec: chat_codec ref_serialize ref_parse
  by unfold_locales (rule ref_parse_serialize)

text \<open>A chat frame built for a client, when it is found in the offline queue, is understood by the
  legacy branch of \<open>deserialize_delivery\<close>: all fields of the message come back, but the flags are
  lost (a group message becomes a direct one) and the conversation becomes the smaller of the two ids.\<close>

theorem legacy_frame_decoded:
  assumes "chat_codec pb_serialize pb_parse"
    and "length (pb_serialize (chat_message_of m)) < 2 ^ 24"
  shows "deserialize_delivery pb_parse (build_chat_frame pb_serialize m) =
    Some (m\<lparr>om_conv_id := min (om_sender_id m) (om_recipient_id m), om_flags := 0\<rparr>)"
  using assms by (rule chat_codec.legacy_frame_roundtrip)

theorem legacy_frame_decoded_witness:
  "chat_codec ref_serialize ref_parse \<and> length (ref_serialize (chat_message_of hello)) < 2 ^ 24 \<and>
   deserialize_delivery ref_parse (build_chat_frame ref_serialize hello) = Some (hello\<lparr>om_flags := 0\<rparr>)"
proof -
  have l: "length (ref_serialize (chat_message_of hello)) < 2 ^ 24"
    by (simp add: ref_serialize_def chat_message_of_def hello_def field_varint_def field_bytes_def
        OutboundMessage_init_def MessageType_CHAT_def varint.simps)
  show ?thesis
    using legacy_frame_decoded [OF ref_codec.chat_codec_axioms l] l ref_codec.chat_codec_axioms
    by (simp add: hello_def)
qed

end
