(* ===== verification/RateLimit.thy ===== *)
theory RateLimit
  imports Complex_Main Loomic_Prelude
begin

text \<open>
  The two token buckets of the server: \<open>RateLimiter::allow\<close>
  (\<open>src/server/src/middleware/RateLimiter.cpp\<close>, one bucket per client address; no route of this
  revision installs it) and \<open>TokenBucket::consume\<close> (\<open>src/server/src/tcp/Session.cpp\<close>, one bucket per TCP
  session).  A \<open>double\<close> is a real number and every floating-point operation of the code is followed by
  \<open>rnd\<close>, the rounding of the machine; what is needed of it is in the locale \<open>rounding\<close>.  Time points
  are nanoseconds of \<open>steady_clock\<close>.  The mutex of \<open>RateLimiter\<close> makes a call atomic.
\<close>

section \<open>Data and operations\<close>

record Bucket =
  bk_tokens :: real
  bk_last_refill :: int

record RateLimiter =
  rl_max_tokens :: real
  rl_refill_rate :: real
  rl_buckets :: "string \<rightharpoonup> Bucket"

definition RateLimiter_init :: "real \<Rightarrow> real \<Rightarrow> RateLimiter" where
  "RateLimiter_init max_tokens refill_rate =
     \<lparr>rl_max_tokens = max_tokens, rl_refill_rate = refill_rate, rl_buckets = Map.empty\<rparr>"

definition Bucket_init :: Bucket where
  "Bucket_init = \<lparr>bk_tokens = 0, bk_last_refill = 0\<rparr>"

text \<open>\<open>duration<double>(d).count()\<close>\<close>

definition seconds :: "(real \<Rightarrow> real) \<Rightarrow> int \<Rightarrow> real" where
  "seconds rnd d = rnd (rnd (real_of_int d) / 1000000000)"

definition allow :: "(real \<Rightarrow> real) \<Rightarrow> RateLimiter \<Rightarrow> string \<Rightarrow> int \<Rightarrow> bool \<times> RateLimiter" where
  "allow rnd rl key now =
     (let bucket = (case rl_buckets rl key of None \<Rightarrow> Bucket_init | Some b \<Rightarrow> b);
          put = (\<lambda>b. rl\<lparr>rl_buckets := (rl_buckets rl)(key \<mapsto> b)\<rparr>)
      in if bk_last_refill bucket = 0
         then (True, put \<lparr>bk_tokens = rnd (rl_max_tokens rl - 1), bk_last_refill = now\<rparr>)
         else let elapsed = seconds rnd (now - bk_last_refill bucket);
                  tokens = min (rl_max_tokens rl)
                    (rnd (bk_tokens bucket + rnd (elapsed * rl_refill_rate rl)))
              in if 1 \<le> tokens
                 then (True, put \<lparr>bk_tokens = rnd (tokens - 1), bk_last_refill = now\<rparr>)
                 else (False, put \<lparr>bk_tokens = tokens, bk_last_refill = now\<rparr>))"

record TokenBucket =
  tb_tokens :: real
  tb_max_tokens :: real
  tb_refill_rate :: real
  tb_last_refill :: int

definition TokenBucket_init :: "int \<Rightarrow> TokenBucket" where
  "TokenBucket_init now =
     \<lparr>tb_tokens = 20, tb_max_tokens = 20, tb_refill_rate = 5, tb_last_refill = now\<rparr>"

definition consume :: "(real \<Rightarrow> real) \<Rightarrow> TokenBucket \<Rightarrow> int \<Rightarrow> bool \<times> TokenBucket" where
  "consume rnd tb now =
     (let elapsed = seconds rnd (now - tb_last_refill tb);
          tb = tb\<lparr>tb_last_refill := now\<rparr>;
          tb = tb\<lparr>tb_tokens := min (tb_max_tokens tb)
                   (rnd (tb_tokens tb + rnd (elapsed * tb_refill_rate tb)))\<rparr>
      in if 1 \<le> tb_tokens tb
         then (True, tb\<lparr>tb_tokens := rnd (tb_tokens tb - 1)\<rparr>)
         else (False, tb))"

text \<open>Calls one after the other, with their answers.\<close>

fun consume_all :: "(real \<Rightarrow> real) \<Rightarrow> TokenBucket \<Rightarrow> int list \<Rightarrow> bool list \<times> TokenBucket" where
  "consume_all rnd tb [] = ([], tb)"
| "consume_all rnd tb (t # ts) =
     (let (a, tb') = consume rnd tb t; (as, tb'') = consume_all rnd tb' ts in (a # as, tb''))"

fun allow_all ::
  "(real \<Rightarrow> real) \<Rightarrow> RateLimiter \<Rightarrow> (string \<times> int) list \<Rightarrow> bool list \<times> RateLimiter" where
  "allow_all rnd rl [] = ([], rl)"
| "allow_all rnd rl ((key, t) # cs) =
     (let (a, rl') = allow rnd rl key t; (as, rl'') = allow_all rnd rl' cs in (a # as, rl''))"

text \<open>The bucket of one key seen as a session's bucket, and the answers given to one key.\<close>

definition view :: "RateLimiter \<Rightarrow> Bucket \<Rightarrow> TokenBucket" where
  "view rl b = \<lparr>tb_tokens = bk_tokens b, tb_max_tokens = rl_max_tokens rl,
     tb_refill_rate = rl_refill_rate rl, tb_last_refill = bk_last_refill b\<rparr>"

definition unview :: "TokenBucket \<Rightarrow> Bucket" where
  "unview tb = \<lparr>bk_tokens = tb_tokens tb, bk_last_refill = tb_last_refill tb\<rparr>"

definition answers_for :: "string \<Rightarrow> (string \<times> int) list \<Rightarrow> bool list \<Rightarrow> bool list" where
  "answers_for key cs as = map snd (filter (\<lambda>(c, a). fst c = key) (zip cs as))"

definition granted :: "bool list \<Rightarrow> nat" where
  "granted as = length (filter id as)"

definition tb_ok :: "TokenBucket \<Rightarrow> bool" where
  "tb_ok tb \<longleftrightarrow> 0 \<le> tb_tokens tb \<and> tb_tokens tb \<le> tb_max_tokens tb \<and> 1 \<le> tb_max_tokens tb \<and> 0 \<le> tb_refill_rate tb"

text \<open>How much one call can gain by rounding when no rounding adds more than \<open>e\<close>.\<close>

definition rounding_gain :: "real \<Rightarrow> real \<Rightarrow> real" where
  "rounding_gain e rate = (e / 1000000000 + e) * rate + 3 * e"

lemma consume_all_Cons [simp]:
  "consume_all rnd tb (t # ts) =
     (fst (consume rnd tb t) # fst (consume_all rnd (snd (consume rnd tb t)) ts),
      snd (consume_all rnd (snd (consume rnd tb t)) ts))"
  by (simp split: prod.splits)

lemma allow_all_Cons [simp]:
  "allow_all rnd rl ((key, t) # cs) =
     (fst (allow rnd rl key t) # fst (allow_all rnd (snd (allow rnd rl key t)) cs),
      snd (allow_all rnd (snd (allow rnd rl key t)) cs))"
  by (simp split: prod.splits)

declare consume_all.simps(2) [simp del] allow_all.simps(2) [simp del]

lemma consume_params [simp]:
  "tb_max_tokens (snd (consume rnd tb t)) = tb_max_tokens tb"
  "tb_refill_rate (snd (consume rnd tb t)) = tb_refill_rate tb"
  "tb_last_refill (snd (consume rnd tb t)) = t"
  by (simp_all add: consume_def Let_def)

section \<open>The contract of the machine's rounding\<close>

locale rounding =
  fixes rnd :: "real \<Rightarrow> real"
  assumes rnd_mono: "x \<le> y \<Longrightarrow> rnd x \<le> rnd y"
    and rnd_zero: "rnd 0 = 0"
begin

lemma rnd_nonneg: "0 \<le> x \<Longrightarrow> 0 \<le> rnd x"
  using rnd_mono [of 0 x] by (simp add: rnd_zero)

lemma seconds_nonneg: "0 \<le> d \<Longrightarrow> 0 \<le> seconds rnd d"
  by (simp add: seconds_def rnd_nonneg)

lemma consume_ok:
  assumes "tb_ok tb" "tb_last_refill tb \<le> now" "rnd (tb_max_tokens tb) = tb_max_tokens tb"
  shows "tb_ok (snd (consume rnd tb now))"
proof -
  let ?t = "min (tb_max_tokens tb)
    (rnd (tb_tokens tb + rnd (seconds rnd (now - tb_last_refill tb) * tb_refill_rate tb)))"
  have "0 \<le> seconds rnd (now - tb_last_refill tb)" using assms(2) by (simp add: seconds_nonneg)
  then have "0 \<le> ?t" "?t \<le> tb_max_tokens tb"
    using assms(1) by (simp_all add: tb_ok_def rnd_nonneg)
  moreover have "rnd (?t - 1) \<le> tb_max_tokens tb"
    using rnd_mono [of "?t - 1" "tb_max_tokens tb"] assms(3) by linarith
  moreover have "0 \<le> rnd (?t - 1)" if "1 \<le> ?t"
    using that by (intro rnd_nonneg) linarith
  ultimately show ?thesis
    using assms(1) by (simp add: tb_ok_def consume_def Let_def)
qed

lemma consume_all_ok:
  assumes "tb_ok tb" "sorted (tb_last_refill tb # ts)" "rnd (tb_max_tokens tb) = tb_max_tokens tb"
  shows "tb_ok (snd (consume_all rnd tb ts))"
  using assms
proof (induction ts arbitrary: tb)
  case (Cons t ts)
  from Cons.prems show ?case
    using Cons.IH [of "snd (consume rnd tb t)"] consume_ok [of tb t] by simp
qed simp

end

text \<open>Exact arithmetic, and truncation to a multiple of \<open>1 / 2 ^ 52\<close>, are such roundings.\<close>

definition truncated :: "real \<Rightarrow> real" where
  "truncated x = real_of_int \<lfloor>x * 2 ^ 52\<rfloor> / 2 ^ 52"

interpretation exact: rounding "\<lambda>x. x"
  by unfold_locales simp_all

interpretation trunc: rounding truncated
proof
  fix x y :: real
  assume "x \<le> y"
  then show "truncated x \<le> truncated y"
    unfolding truncated_def by (intro divide_right_mono) (simp_all add: floor_mono)
qed (simp add: truncated_def)

section \<open>Lemmas\<close>

text \<open>One call pays for its grant out of the tokens and the time that passed.\<close>

lemma consume_accounting:
  assumes up: "\<And>x. rnd x \<le> x + e" and e: "0 \<le> e" and rate: "0 \<le> tb_refill_rate tb"
  shows "(if fst (consume rnd tb t) then 1 else 0) + tb_tokens (snd (consume rnd tb t)) \<le>
    tb_tokens tb + tb_refill_rate tb * real_of_int (t - tb_last_refill tb) / 1000000000
      + rounding_gain e (tb_refill_rate tb)"
proof -
  let ?d = "real_of_int (t - tb_last_refill tb)" and ?r = "tb_refill_rate tb"
  let ?s = "seconds rnd (t - tb_last_refill tb)"
  let ?t = "min (tb_max_tokens tb) (rnd (tb_tokens tb + rnd (?s * ?r)))"
  have "?s \<le> rnd ?d / 1000000000 + e" unfolding seconds_def by (rule up)
  also have "\<dots> \<le> (?d + e) / 1000000000 + e" using up [of ?d] by (simp add: divide_right_mono)
  finally have s: "?s * ?r \<le> ((?d + e) / 1000000000 + e) * ?r" by (rule mult_right_mono [OF _ rate])
  have "?t \<le> tb_tokens tb + rnd (?s * ?r) + e" using up [of "tb_tokens tb + rnd (?s * ?r)"] by linarith
  also have "\<dots> \<le> tb_tokens tb + ((?d + e) / 1000000000 + e) * ?r + 2 * e" using up [of "?s * ?r"] s by linarith
  also have "\<dots> = tb_tokens tb + ?r * ?d / 1000000000 + (rounding_gain e ?r - e)"
    by (simp add: rounding_gain_def field_simps)
  finally have t: "?t + e \<le> tb_tokens tb + ?r * ?d / 1000000000 + rounding_gain e ?r" by simp
  show ?thesis
    using t up [of "?t - 1"] e by (simp add: consume_def Let_def)
qed

lemma consume_all_accounting:
  assumes up: "\<And>x. rnd x \<le> x + e" and e: "0 \<le> e" and "0 \<le> tb_refill_rate tb"
  shows "real (granted (fst (consume_all rnd tb ts))) + tb_tokens (snd (consume_all rnd tb ts)) \<le>
    tb_tokens tb + tb_refill_rate tb * real_of_int (last (tb_last_refill tb # ts) - tb_last_refill tb) / 1000000000
      + length ts * rounding_gain e (tb_refill_rate tb)"
  using assms(3)
proof (induction ts arbitrary: tb)
  case Nil
  then show ?case by (simp add: granted_def)
next
  case (Cons t ts)
  obtain a tb' where c: "consume rnd tb t = (a, tb')" by fastforce
  obtain as tb'' where cs: "consume_all rnd tb' ts = (as, tb'')" by fastforce
  have p: "tb_refill_rate tb' = tb_refill_rate tb" "tb_last_refill tb' = t"
    using consume_params(2,3) [of rnd tb t] by (simp_all add: c del: consume_params)
  have "(if a then 1 else 0) + tb_tokens tb' \<le>
      tb_tokens tb + tb_refill_rate tb * real_of_int (t - tb_last_refill tb) / 1000000000
      + rounding_gain e (tb_refill_rate tb)"
    using consume_accounting [OF up e Cons.prems, of t] by (simp add: c)
  moreover have "real (granted as) + tb_tokens tb'' \<le>
      tb_tokens tb' + tb_refill_rate tb * real_of_int (last (t # ts) - t) / 1000000000
      + length ts * rounding_gain e (tb_refill_rate tb)"
    using Cons.IH [of tb'] Cons.prems by (simp add: cs p)
  moreover have "real (granted (a # as)) = (if a then 1 else 0) + real (granted as)"
    by (simp add: granted_def)
  ultimately show ?case
    by (simp add: c cs field_simps)
qed

text \<open>After its first call a key behaves like a session's bucket; other keys are not touched.\<close>

lemma allow_first:
  "rl_buckets rl key = None \<Longrightarrow>
   allow rnd rl key now = (True, rl\<lparr>rl_buckets := (rl_buckets rl)
     (key \<mapsto> \<lparr>bk_tokens = rnd (rl_max_tokens rl - 1), bk_last_refill = now\<rparr>)\<rparr>)"
  by (simp add: allow_def Bucket_init_def)

lemma allow_view:
  assumes "rl_buckets rl key = Some b" "bk_last_refill b \<noteq> 0"
  shows "allow rnd rl key now = (fst (consume rnd (view rl b) now), rl\<lparr>rl_buckets :=
    (rl_buckets rl)(key \<mapsto> unview (snd (consume rnd (view rl b) now)))\<rparr>)"
  using assms by (simp add: allow_def consume_def view_def unview_def Let_def)

lemma view_unview:
  "view rl (unview (snd (consume rnd (view rl b) now))) = snd (consume rnd (view rl b) now)"
  by (simp add: view_def unview_def consume_def Let_def)

lemma allow_frame:
  "rl_max_tokens (snd (allow rnd rl key now)) = rl_max_tokens rl"
  "rl_refill_rate (snd (allow rnd rl key now)) = rl_refill_rate rl"
  "k \<noteq> key \<Longrightarrow> rl_buckets (snd (allow rnd rl key now)) k = rl_buckets rl k"
  by (simp_all add: allow_def Let_def)

text \<open>The answer for a key depends on the parameters and on its own bucket only.\<close>

lemma allow_local:
  assumes "rl_buckets rl key = rl_buckets rl' key" "rl_max_tokens rl = rl_max_tokens rl'"
    "rl_refill_rate rl = rl_refill_rate rl'"
  shows "fst (allow rnd rl key now) = fst (allow rnd rl' key now) \<and>
    rl_buckets (snd (allow rnd rl key now)) key = rl_buckets (snd (allow rnd rl' key now)) key"
  using assms by (simp add: allow_def Let_def split: option.splits)

lemma allow_all_isolated:
  assumes "rl_buckets rl key = rl_buckets rl' key" "rl_max_tokens rl = rl_max_tokens rl'"
    "rl_refill_rate rl = rl_refill_rate rl'"
  shows "answers_for key cs (fst (allow_all rnd rl cs)) =
    fst (allow_all rnd rl' (filter (\<lambda>c. fst c = key) cs))"
  using assms
proof (induction cs arbitrary: rl rl')
  case Nil
  then show ?case by (simp add: answers_for_def)
next
  case (Cons c cs)
  obtain k t where c: "c = (k, t)" by fastforce
  show ?case
  proof (cases "k = key")
    case True
    have "answers_for key cs (fst (allow_all rnd (snd (allow rnd rl key t)) cs)) =
        fst (allow_all rnd (snd (allow rnd rl' key t)) (filter (\<lambda>c. fst c = key) cs))"
      using Cons.prems allow_local [OF Cons.prems, of rnd t]
      by (intro Cons.IH) (simp_all add: allow_frame)
    then show ?thesis
      using True allow_local [OF Cons.prems, of rnd t]
      by (simp add: c answers_for_def)
  next
    case False
    have "answers_for key cs (fst (allow_all rnd (snd (allow rnd rl k t)) cs)) =
        fst (allow_all rnd rl' (filter (\<lambda>c. fst c = key) cs))"
      using Cons.prems False by (intro Cons.IH) (simp_all add: allow_frame)
    then show ?thesis
      using False by (simp add: c answers_for_def)
  qed
qed

text \<open>All calls of one key after its first: the answers are those of one bucket.\<close>

lemma allow_all_view:
  assumes "rl_buckets rl key = Some b" "bk_last_refill b \<noteq> 0" "0 \<notin> set ts"
  shows "fst (allow_all rnd rl (map (Pair key) ts)) = fst (consume_all rnd (view rl b) ts)"
  using assms
proof (induction ts arbitrary: rl b)
  case Nil
  then show ?case by simp
next
  case (Cons t ts)
  let ?tb = "snd (consume rnd (view rl b) t)"
  let ?rl = "rl\<lparr>rl_buckets := (rl_buckets rl)(key \<mapsto> unview ?tb)\<rparr>"
  have "fst (allow_all rnd ?rl (map (Pair key) ts)) = fst (consume_all rnd (view ?rl (unview ?tb)) ts)"
    using Cons.prems(3) by (intro Cons.IH) (auto simp: unview_def)
  moreover have "view ?rl (unview ?tb) = ?tb"
    using view_unview [of rl rnd b t] by (simp add: view_def)
  ultimately show ?case using allow_view [OF Cons.prems(1,2), of rnd t] by simp
qed

lemma filter_key_map: "filter (\<lambda>c. fst c = key) cs = map (Pair key) (map snd (filter (\<lambda>c. fst c = key) cs))"
  by (induction cs) auto

lemma fst_allow_fresh:
  assumes "rl_buckets rl key = None" "0 \<notin> set (t # ts)"
  shows "fst (allow_all rnd rl (map (Pair key) (t # ts))) =
    True # fst (consume_all rnd (view rl \<lparr>bk_tokens = rnd (rl_max_tokens rl - 1), bk_last_refill = t\<rparr>) ts)"
proof -
  let ?b = "\<lparr>bk_tokens = rnd (rl_max_tokens rl - 1), bk_last_refill = t\<rparr>"
  let ?rl = "rl\<lparr>rl_buckets := (rl_buckets rl)(key \<mapsto> ?b)\<rparr>"
  have "fst (allow_all rnd ?rl (map (Pair key) ts)) = fst (consume_all rnd (view ?rl ?b) ts)"
    using assms(2) by (intro allow_all_view) auto
  moreover have "view ?rl ?b = view rl ?b" by (simp add: view_def)
  ultimately show ?thesis using allow_first [OF assms(1), of rnd t] by simp
qed

section \<open>Properties\<close>

text \<open>The limiter keeps its promise: however the calls of other clients are interleaved, a client
  that is new to the limiter and calls at times \<open>t\<close> to \<open>t'\<close> is granted at most \<open>max_tokens\<close> calls plus
  what the refill rate adds between \<open>t\<close> and \<open>t'\<close> (plus, when roundings can add up to \<open>e\<close> each, that
  much for every call).\<close>

theorem allow_burst_bound:
  assumes "rounding rnd" and "\<And>x. rnd x \<le> x + e" and "0 \<le> e"
    and "rnd (rl_max_tokens rl) = rl_max_tokens rl" and "1 \<le> rl_max_tokens rl" and "0 \<le> rl_refill_rate rl"
    and "rl_buckets rl key = None"
    and "map snd (filter (\<lambda>c. fst c = key) cs) = t # ts" and "sorted (t # ts)" and "0 < t"
  shows "real (granted (answers_for key cs (fst (allow_all rnd rl cs)))) \<le>
    rl_max_tokens rl + rl_refill_rate rl * real_of_int (last (t # ts) - t) / 1000000000
      + (e + length ts * rounding_gain e (rl_refill_rate rl))"
proof -
  let ?tb = "view rl \<lparr>bk_tokens = rnd (rl_max_tokens rl - 1), bk_last_refill = t\<rparr>"
  have "answers_for key cs (fst (allow_all rnd rl cs)) = fst (allow_all rnd rl (map (Pair key) (t # ts)))"
    using allow_all_isolated [of rl key rl cs rnd] filter_key_map [of key cs] assms(8) by simp
  also have "\<dots> = True # fst (consume_all rnd ?tb ts)"
    using assms(7,9,10) by (intro fst_allow_fresh) auto
  finally have "real (granted (answers_for key cs (fst (allow_all rnd rl cs)))) =
      1 + real (granted (fst (consume_all rnd ?tb ts)))" by (simp add: granted_def)
  moreover have "real (granted (fst (consume_all rnd ?tb ts))) + tb_tokens (snd (consume_all rnd ?tb ts)) \<le>
      tb_tokens ?tb + rl_refill_rate rl * real_of_int (last (t # ts) - t) / 1000000000
      + length ts * rounding_gain e (rl_refill_rate rl)"
    using consume_all_accounting [OF assms(2,3), of ?tb ts] assms(6) by (simp add: view_def)
  moreover have "tb_tokens ?tb \<le> rl_max_tokens rl - 1 + e"
    using assms(2) [of "rl_max_tokens rl - 1"] by (simp add: view_def)
  moreover have "tb_ok ?tb"
    using rounding.rnd_nonneg [OF assms(1), of "rl_max_tokens rl - 1"] assms(4,5,6)
      rounding.rnd_mono [OF assms(1), of "rl_max_tokens rl - 1" "rl_max_tokens rl"]
    by (simp add: tb_ok_def view_def)
  then have "0 \<le> tb_tokens (snd (consume_all rnd ?tb ts))"
    using rounding.consume_all_ok [OF assms(1), of ?tb ts] assms(4,9) by (simp add: tb_ok_def view_def)
  ultimately show ?thesis by linarith
qed

text \<open>Calls of two clients, with a burst of 10 and a refill of 0.1 per second.\<close>

theorem allow_burst_bound_witness:
  "real (granted (answers_for ''a'' [(''a'', 5), (''b'', 7), (''a'', 9)]
     (fst (allow_all (\<lambda>x. x) (RateLimiter_init 10 (1 / 10)) [(''a'', 5), (''b'', 7), (''a'', 9)])))) \<le>
   10 + (1 / 10) * 4 / 1000000000"
  using allow_burst_bound [OF exact.rounding_axioms, of 0 "RateLimiter_init 10 (1 / 10)" "''a''"
      "[(''a'', 5), (''b'', 7), (''a'', 9)]" 5 "[9]"]
  by (simp add: RateLimiter_init_def rounding_gain_def)

text \<open>A client's answers do not depend on the other clients: they are those it would get alone.\<close>

theorem allow_isolated:
  "answers_for key cs (fst (allow_all rnd rl cs)) = fst (allow_all rnd rl (filter (\<lambda>c. fst c = key) cs))"
  by (rule allow_all_isolated) simp_all



text \<open>A client is not locked out: after a refusal, waiting for the time in which one token is
  refilled is enough to be served again (exact arithmetic).\<close>

theorem consume_recovers:
  assumes "tb_ok tb" and "consume (\<lambda>x. x) tb t = (False, tb')"
    and "1000000000 \<le> real_of_int (t' - t) * tb_refill_rate tb"
    and "tb_last_refill tb \<le> t"
  shows "fst (consume (\<lambda>x. x) tb' t')"
proof -
  have "tb_ok tb'" "tb_last_refill tb' = t" "tb_refill_rate tb' = tb_refill_rate tb"
    "tb_max_tokens tb' = tb_max_tokens tb"
    using exact.consume_ok [OF assms(1,4)] consume_params [of "\<lambda>x. x" tb t]
    by (simp_all add: assms(2) del: consume_params)
  moreover from assms(3) have "1 \<le> real_of_int (t' - t) / 1000000000 * tb_refill_rate tb"
    by (simp add: field_simps)
  ultimately show ?thesis
    by (auto simp: consume_def seconds_def Let_def tb_ok_def)
qed

theorem consume_recovers_witness:
  "let tb = (TokenBucket_init 0)\<lparr>tb_tokens := 0\<rparr>
   in fst (consume (\<lambda>x. x) tb 0) = False \<and> fst (consume (\<lambda>x. x) (snd (consume (\<lambda>x. x) tb 0)) 200000000)"
  using consume_recovers [of "(TokenBucket_init 0)\<lparr>tb_tokens := 0\<rparr>" 0
      "snd (consume (\<lambda>x. x) ((TokenBucket_init 0)\<lparr>tb_tokens := 0\<rparr>) 0)" 200000000]
  by (simp add: Let_def consume_def seconds_def TokenBucket_init_def tb_ok_def)

end
