(* ===== verification/Registry.thy ===== *)
theory Registry
  imports Loomic_Prelude
begin

text \<open>
  \<open>src/server/src/tcp/SessionRegistry.cpp\<close>: the table from user ids to sessions.  A session object is
  named by a number (\<open>sid\<close>); a \<open>weak_ptr\<close> is that number, and \<open>alive s\<close> says that the object it points
  to still has an owner, so that \<open>lock()\<close> succeeds.  The \<open>shared_mutex\<close> makes each call atomic.
\<close>

type_synonym sid = nat
type_synonym SessionRegistry = "u64 \<rightharpoonup> sid"

definition registry_insert :: "SessionRegistry \<Rightarrow> u64 \<Rightarrow> sid \<Rightarrow> SessionRegistry" where
  "registry_insert m user_id s = m(user_id \<mapsto> s)"

definition registry_lookup :: "(sid \<Rightarrow> bool) \<Rightarrow> SessionRegistry \<Rightarrow> u64 \<Rightarrow> sid option" where
  "registry_lookup alive m user_id =
     (case m user_id of
        None \<Rightarrow> None
      | Some s \<Rightarrow> if alive s then Some s else None)"

definition registry_remove ::
  "(sid \<Rightarrow> bool) \<Rightarrow> SessionRegistry \<Rightarrow> u64 \<Rightarrow> sid option \<Rightarrow> SessionRegistry" where
  "registry_remove alive m user_id expected =
     (case m user_id of
        None \<Rightarrow> m
      | Some s \<Rightarrow>
          (case expected of
             None \<Rightarrow> m(user_id := None)
           | Some e \<Rightarrow> if alive s \<and> s = e then m(user_id := None) else m))"

section \<open>What sessions rely on\<close>

locale session_directory =
  fixes insert :: "'d \<Rightarrow> u64 \<Rightarrow> sid \<Rightarrow> 'd"
    and lookup :: "'d \<Rightarrow> u64 \<Rightarrow> sid option"
    and remove :: "'d \<Rightarrow> u64 \<Rightarrow> sid option \<Rightarrow> 'd"
    and valid :: "sid \<Rightarrow> bool"
  assumes lookup_insert: "valid s \<Longrightarrow> lookup (insert d u s) v = (if v = u then Some s else lookup d v)"
    and lookup_remove: "lookup (remove d u (Some s)) v = (if v = u \<and> lookup d u = Some s then None else lookup d v)"
begin

text \<open>A user who reconnects is not evicted by the clean-up of the older session.\<close>

lemma reconnect:
  "valid s2 \<Longrightarrow> s1 \<noteq> s2 \<Longrightarrow> lookup (remove (insert (insert d u s1) u s2) u (Some s1)) u = Some s2"
  by (simp add: lookup_insert lookup_remove)

text \<open>Sessions of other users are never affected.\<close>

lemma other_user: "valid s \<Longrightarrow> v \<noteq> u \<Longrightarrow> lookup (remove (insert d u s) u t) v = lookup d v" if "t \<noteq> None"
  using that by (cases t) (simp_all add: lookup_insert lookup_remove)

end

lemma registry_lookup_insert:
  "alive s \<Longrightarrow> registry_lookup alive (registry_insert m u s) v =
     (if v = u then Some s else registry_lookup alive m v)"
  by (simp add: registry_lookup_def registry_insert_def)

lemma registry_lookup_remove:
  "registry_lookup alive (registry_remove alive m u (Some s)) v =
     (if v = u \<and> registry_lookup alive m u = Some s then None else registry_lookup alive m v)"
  by (cases "m u"; cases "m v") (auto simp: registry_lookup_def registry_remove_def)

interpretation reg: session_directory registry_insert "registry_lookup alive" "registry_remove alive" alive
  for alive
  by unfold_locales (simp_all add: registry_lookup_insert registry_lookup_remove)

section \<open>A history of connections\<close>

text \<open>
  What sessions do to the table: \<open>Connect\<close> after authentication and \<open>Disconnect\<close> in the clean-up, which
  passes the session itself as \<open>expected\<close>.  \<open>current\<close> is the specification: the session that
  connected last for that user, unless it has disconnected since.
\<close>

datatype reg_op = Connect u64 sid | Disconnect u64 sid

definition reg_step :: "(sid \<Rightarrow> bool) \<Rightarrow> reg_op \<Rightarrow> SessionRegistry \<Rightarrow> SessionRegistry" where
  "reg_step alive oper m =
     (case oper of Connect u s \<Rightarrow> registry_insert m u s
      | Disconnect u s \<Rightarrow> registry_remove alive m u (Some s))"

fun current :: "reg_op list \<Rightarrow> u64 \<Rightarrow> sid option" where
  "current [] u = None"
| "current (Connect v s # ops) u = (if v = u then Some s else current ops u)"
| "current (Disconnect v s # ops) u =
     (if v = u \<and> current ops u = Some s then None else current ops u)"

fun connects :: "reg_op list \<Rightarrow> sid set" where
  "connects [] = {}"
| "connects (Connect v s # ops) = insert s (connects ops)"
| "connects (Disconnect v s # ops) = connects ops"

lemma registry_history:
  assumes "\<forall>s \<in> connects ops. alive s"
  shows "registry_lookup alive (foldr (reg_step alive) ops Map.empty) u = current ops u"
  using assms
proof (induction ops)
  case Nil
  then show ?case by (simp add: registry_lookup_def)
next
  case (Cons oper ops)
  then show ?case
    by (cases oper) (auto simp: reg_step_def registry_lookup_insert registry_lookup_remove)
qed

text \<open>C26. The registry always answers with a user's live session: after any history of connections
  and clean-ups (latest first), looking a user up gives the session that connected last, unless that
  one has disconnected; the clean-up of an older session of the same user changes nothing.\<close>

theorem registry_current:
  assumes "\<forall>s \<in> connects ops. alive s"
  shows "registry_lookup alive (foldr (reg_step alive) ops Map.empty) u = current ops u"
  using assms by (rule registry_history)

theorem registry_current_witness:
  "registry_lookup (\<lambda>s. s < 3)
     (foldr (reg_step (\<lambda>s. s < 3)) [Disconnect 7 1, Connect 7 2, Connect 7 1] Map.empty) 7 = Some 2"
  using registry_current [of "[Disconnect 7 1, Connect 7 2, Connect 7 1]" "\<lambda>s. s < 3" 7] by simp

text \<open>A destroyed session is never returned, whatever the table holds.\<close>

theorem registry_lookup_alive:
  assumes "registry_lookup alive m u = Some s"
  shows "alive s \<and> m u = Some s"
  using assms by (simp add: registry_lookup_def split: option.splits if_splits)

theorem registry_lookup_alive_witness:
  "registry_lookup (\<lambda>s. s = 4) [7 \<mapsto> 4, 8 \<mapsto> 5] 7 = Some 4 \<and> registry_lookup (\<lambda>s. s = 4) [7 \<mapsto> 4, 8 \<mapsto> 5] 8 = None"
  using registry_lookup_alive [of "\<lambda>s. s = 4" "[7 \<mapsto> 4, 8 \<mapsto> 5]" 7 4] by (simp add: registry_lookup_def)

end
