(* ===== verification/Redis_Client.thy ===== *)
theory Redis_Client
  imports Loomic_Prelude "HOL-Library.AList"
begin

text \<open>
  \<open>src/server/src/db/RedisClient.cpp\<close>.  The Redis server (and hiredis) is a parameter: \<open>rx r c\<close> sends the
  command \<open>c\<close> to a server in state \<open>r\<close> and gives the reply, \<open>None\<close> being the null pointer that
  \<open>redisCommand\<close> returns when the connection has failed, and the server's next state.  The mutex of
  the client makes each member function atomic.  The locale \<open>redis_server\<close> states the documented
  behaviour of the commands the client uses; the last section gives an executable store that has it.
\<close>

section \<open>Commands and replies\<close>

datatype redis_cmd =
    LPUSH string string | EXPIRE string int | LRANGE string int int | DEL string
  | SETEX string int string | GET string
  | SADD string string | SREM string string | SMEMBERS string
  | HINCRBY string string int | HGETALL string | HDEL string string

datatype redis_reply =
    R_STRING string | R_ARRAY "redis_reply list" | R_INTEGER int | R_NIL | R_STATUS string | R_ERROR string

type_synonym 'r redis_exec = "'r \<Rightarrow> redis_cmd \<Rightarrow> redis_reply option \<times> 'r"

section \<open>Keys\<close>

definition offline_key :: "u64 \<Rightarrow> string" where
  "offline_key user_id = ''offline:'' @ to_string_u64 user_id"

definition presence_key :: "u64 \<Rightarrow> string" where
  "presence_key user_id = ''presence:'' @ to_string_u64 user_id"

definition group_key :: "u64 \<Rightarrow> string" where
  "group_key group_id = ''group:'' @ to_string_u64 group_id @ '':members''"

definition unread_key :: "u64 \<Rightarrow> string" where
  "unread_key user_id = ''unread:'' @ to_string_u64 user_id"

definition last_seen_key :: "u64 \<Rightarrow> string" where
  "last_seen_key user_id = ''last_seen:'' @ to_string_u64 user_id"

section \<open>The client\<close>

definition lpush :: "'r redis_exec \<Rightarrow> 'r \<Rightarrow> string \<Rightarrow> bytes \<Rightarrow> 'r" where
  "lpush rx r key buf =
     (let r = snd (rx r (LPUSH key (chars_of_bytes buf)))
      in snd (rx r (EXPIRE key 604800)))"

definition lrange_and_del :: "'r redis_exec \<Rightarrow> 'r \<Rightarrow> string \<Rightarrow> bytes list \<times> 'r" where
  "lrange_and_del rx r key =
     (let (reply, r) = rx r (LRANGE key 0 (-1));
          result = (case reply of
             Some (R_ARRAY elements) \<Rightarrow>
               concat (map (\<lambda>e. case e of R_STRING s \<Rightarrow> [bytes_of_chars s] | _ \<Rightarrow> []) (rev elements))
           | _ \<Rightarrow> [])
      in if result \<noteq> [] then (result, snd (rx r (DEL key))) else (result, r))"

definition set_presence :: "'r redis_exec \<Rightarrow> 'r \<Rightarrow> u64 \<Rightarrow> string \<Rightarrow> 'r" where
  "set_presence rx r user_id server_id = snd (rx r (SETEX (presence_key user_id) 60 server_id))"

definition refresh_presence :: "'r redis_exec \<Rightarrow> 'r \<Rightarrow> u64 \<Rightarrow> 'r" where
  "refresh_presence rx r user_id = snd (rx r (EXPIRE (presence_key user_id) 60))"

definition del_presence :: "'r redis_exec \<Rightarrow> 'r \<Rightarrow> u64 \<Rightarrow> 'r" where
  "del_presence rx r user_id = snd (rx r (DEL (presence_key user_id)))"

definition get_presence :: "'r redis_exec \<Rightarrow> 'r \<Rightarrow> u64 \<Rightarrow> string option \<times> 'r" where
  "get_presence rx r user_id =
     (let (reply, r) = rx r (GET (presence_key user_id))
      in (case reply of Some (R_STRING s) \<Rightarrow> Some s | _ \<Rightarrow> None, r))"

definition sadd_group_member :: "'r redis_exec \<Rightarrow> 'r \<Rightarrow> u64 \<Rightarrow> u64 \<Rightarrow> 'r" where
  "sadd_group_member rx r group_id user_id =
     snd (rx r (SADD (group_key group_id) (to_string_u64 user_id)))"

definition srem_group_member :: "'r redis_exec \<Rightarrow> 'r \<Rightarrow> u64 \<Rightarrow> u64 \<Rightarrow> 'r" where
  "srem_group_member rx r group_id user_id =
     snd (rx r (SREM (group_key group_id) (to_string_u64 user_id)))"

definition uid_of_reply :: "redis_reply \<Rightarrow> u64 list" where
  "uid_of_reply elem = (case elem of
      R_STRING s \<Rightarrow> (case from_chars_u64 s of Some uid \<Rightarrow> [uid] | None \<Rightarrow> [])
    | _ \<Rightarrow> [])"

definition smembers_group :: "'r redis_exec \<Rightarrow> 'r \<Rightarrow> u64 \<Rightarrow> u64 list \<times> 'r" where
  "smembers_group rx r group_id =
     (let (reply, r) = rx r (SMEMBERS (group_key group_id))
      in (case reply of Some (R_ARRAY elements) \<Rightarrow> concat (map uid_of_reply elements) | _ \<Rightarrow> [], r))"

definition hincrby_unread :: "'r redis_exec \<Rightarrow> 'r \<Rightarrow> u64 \<Rightarrow> u64 \<Rightarrow> int \<Rightarrow> 'r" where
  "hincrby_unread rx r user_id conv_id delta =
     snd (rx r (HINCRBY (unread_key user_id) (to_string_u64 conv_id) delta))"

text \<open>The loop of \<open>hgetall_unread\<close> over the field and value pairs of the reply.\<close>

fun unread_pairs :: "redis_reply list \<Rightarrow> (u64 \<rightharpoonup> i64) \<Rightarrow> (u64 \<rightharpoonup> i64)" where
  "unread_pairs (fld # val # elements) result =
     unread_pairs elements
       (case (fld, val) of
          (R_STRING f, R_STRING v) \<Rightarrow>
            (case (from_chars_u64 f, from_chars_i64 v) of
               (Some conv_id, Some count) \<Rightarrow> result(conv_id \<mapsto> count)
             | _ \<Rightarrow> result)
        | _ \<Rightarrow> result)"
| "unread_pairs _ result = result"

definition hgetall_unread :: "'r redis_exec \<Rightarrow> 'r \<Rightarrow> u64 \<Rightarrow> (u64 \<rightharpoonup> i64) \<times> 'r" where
  "hgetall_unread rx r user_id =
     (let (reply, r) = rx r (HGETALL (unread_key user_id))
      in (case reply of
            Some (R_ARRAY elements) \<Rightarrow>
              if length elements mod 2 = 0 then unread_pairs elements Map.empty else Map.empty
          | _ \<Rightarrow> Map.empty, r))"

definition hdel_unread :: "'r redis_exec \<Rightarrow> 'r \<Rightarrow> u64 \<Rightarrow> u64 \<Rightarrow> 'r" where
  "hdel_unread rx r user_id conv_id =
     snd (rx r (HDEL (unread_key user_id) (to_string_u64 conv_id)))"

definition set_last_seen :: "'r redis_exec \<Rightarrow> 'r \<Rightarrow> u64 \<Rightarrow> i64 \<Rightarrow> 'r" where
  "set_last_seen rx r user_id timestamp_ms =
     snd (rx r (SETEX (last_seen_key user_id) 604800 (to_string_i64 timestamp_ms)))"

definition get_last_seen :: "'r redis_exec \<Rightarrow> 'r \<Rightarrow> u64 \<Rightarrow> i64 option \<times> 'r" where
  "get_last_seen rx r user_id =
     (let (reply, r) = rx r (GET (last_seen_key user_id))
      in (case reply of Some (R_STRING s) \<Rightarrow> from_chars_i64 s | _ \<Rightarrow> None, r))"

lemmas redis_defs = lpush_def lrange_and_del_def set_presence_def refresh_presence_def del_presence_def
  get_presence_def sadd_group_member_def srem_group_member_def smembers_group_def hincrby_unread_def
  hgetall_unread_def hdel_unread_def set_last_seen_def get_last_seen_def

section \<open>Keys of different users and purposes are different\<close>

lemma key_inject [simp]:
  "offline_key a = offline_key b \<longleftrightarrow> a = b" "presence_key a = presence_key b \<longleftrightarrow> a = b"
  "unread_key a = unread_key b \<longleftrightarrow> a = b" "last_seen_key a = last_seen_key b \<longleftrightarrow> a = b"
  "group_key a = group_key b \<longleftrightarrow> a = b"
  by (simp_all add: offline_key_def presence_key_def unread_key_def last_seen_key_def group_key_def)

lemma key_disjoint [simp]:
  "offline_key a \<noteq> presence_key b" "presence_key a \<noteq> offline_key b"
  "offline_key a \<noteq> unread_key b" "unread_key a \<noteq> offline_key b"
  "offline_key a \<noteq> last_seen_key b" "last_seen_key a \<noteq> offline_key b"
  "offline_key a \<noteq> group_key b" "group_key a \<noteq> offline_key b"
  "presence_key a \<noteq> unread_key b" "unread_key a \<noteq> presence_key b"
  "presence_key a \<noteq> last_seen_key b" "last_seen_key a \<noteq> presence_key b"
  "presence_key a \<noteq> group_key b" "group_key a \<noteq> presence_key b"
  "unread_key a \<noteq> last_seen_key b" "last_seen_key a \<noteq> unread_key b"
  "unread_key a \<noteq> group_key b" "group_key a \<noteq> unread_key b"
  "last_seen_key a \<noteq> group_key b" "group_key a \<noteq> last_seen_key b"
  by (simp_all add: offline_key_def presence_key_def unread_key_def last_seen_key_def group_key_def)

section \<open>The documented behaviour of the server\<close>

datatype rvalue = RStr string | RList "string list" | RSet "string set" | RHash "string \<rightharpoonup> string"

text \<open>The value a key has when a command creates it, as \<open>LPUSH\<close>, \<open>SADD\<close> and \<open>HINCRBY\<close> do.\<close>

definition list_at :: "(string \<rightharpoonup> rvalue) \<Rightarrow> string \<Rightarrow> string list option" where
  "list_at m k = (case m k of None \<Rightarrow> Some [] | Some (RList xs) \<Rightarrow> Some xs | _ \<Rightarrow> None)"

definition set_at :: "(string \<rightharpoonup> rvalue) \<Rightarrow> string \<Rightarrow> string set option" where
  "set_at m k = (case m k of None \<Rightarrow> Some {} | Some (RSet xs) \<Rightarrow> Some xs | _ \<Rightarrow> None)"

definition hash_at :: "(string \<rightharpoonup> rvalue) \<Rightarrow> string \<Rightarrow> (string \<rightharpoonup> string) option" where
  "hash_at m k = (case m k of None \<Rightarrow> Some Map.empty | Some (RHash h) \<Rightarrow> Some h | _ \<Rightarrow> None)"

text \<open>
  \<open>up r\<close>: the connection works.  \<open>content r\<close>: the live keys.  \<open>ttl r k\<close>: the seconds a key has left.
  \<open>pass d r\<close>: \<open>d\<close> seconds go by.
\<close>

locale redis_server =
  fixes rx :: "'r redis_exec"
    and up :: "'r \<Rightarrow> bool"
    and content :: "'r \<Rightarrow> string \<rightharpoonup> rvalue"
    and ttl :: "'r \<Rightarrow> string \<Rightarrow> int option"
    and pass :: "nat \<Rightarrow> 'r \<Rightarrow> 'r"
  assumes stays_up: "up r \<Longrightarrow> up (snd (rx r c))" "up r \<Longrightarrow> up (pass d r)"
    and lpush_law: "up r \<Longrightarrow> list_at (content r) k = Some xs \<Longrightarrow>
      content (snd (rx r (LPUSH k v))) = (content r)(k \<mapsto> RList (v # xs))"
    and expire_law: "up r \<Longrightarrow> 0 < n \<Longrightarrow> content (snd (rx r (EXPIRE k n))) = content r"
      "up r \<Longrightarrow> 0 < n \<Longrightarrow> content r k \<noteq> None \<Longrightarrow> ttl (snd (rx r (EXPIRE k n))) k = Some n"
    and lrange_law: "up r \<Longrightarrow> list_at (content r) k = Some xs \<Longrightarrow>
      fst (rx r (LRANGE k 0 (-1))) = Some (R_ARRAY (map R_STRING xs))"
      "up r \<Longrightarrow> content (snd (rx r (LRANGE k 0 (-1)))) = content r"
    and del_law: "up r \<Longrightarrow> content (snd (rx r (DEL k))) = (content r)(k := None)"
    and setex_law: "up r \<Longrightarrow> 0 < n \<Longrightarrow> content (snd (rx r (SETEX k n v))) = (content r)(k \<mapsto> RStr v)"
      "up r \<Longrightarrow> 0 < n \<Longrightarrow> ttl (snd (rx r (SETEX k n v))) k = Some n"
    and get_law: "up r \<Longrightarrow> content r k = Some (RStr v) \<Longrightarrow> fst (rx r (GET k)) = Some (R_STRING v)"
      "up r \<Longrightarrow> content r k = None \<Longrightarrow> fst (rx r (GET k)) = Some R_NIL"
      "up r \<Longrightarrow> content (snd (rx r (GET k))) = content r"
    and sadd_law: "up r \<Longrightarrow> set_at (content r) k = Some S \<Longrightarrow>
      content (snd (rx r (SADD k v))) = (content r)(k \<mapsto> RSet (insert v S))"
    and srem_law: "up r \<Longrightarrow> set_at (content r) k = Some S \<Longrightarrow>
      content (snd (rx r (SREM k v))) = (content r)(k := if S - {v} = {} then None else Some (RSet (S - {v})))"
    and smembers_law: "up r \<Longrightarrow> set_at (content r) k = Some S \<Longrightarrow>
      \<exists>xs. fst (rx r (SMEMBERS k)) = Some (R_ARRAY (map R_STRING xs)) \<and> distinct xs \<and> set xs = S"
      "up r \<Longrightarrow> content (snd (rx r (SMEMBERS k))) = content r"
    and hincrby_law: "up r \<Longrightarrow> hash_at (content r) k = Some h \<Longrightarrow>
      h f = None \<and> old = 0 \<or> h f = Some (to_string_i64 old) \<Longrightarrow> sint new = sint old + delta \<Longrightarrow>
      content (snd (rx r (HINCRBY k f delta))) = (content r)(k \<mapsto> RHash (h(f \<mapsto> to_string_i64 new)))"
    and hgetall_law: "up r \<Longrightarrow> hash_at (content r) k = Some h \<Longrightarrow>
      \<exists>al. fst (rx r (HGETALL k)) = Some (R_ARRAY (concat (map (\<lambda>(f, v). [R_STRING f, R_STRING v]) al))) \<and>
        distinct (map fst al) \<and> map_of al = h"
      "up r \<Longrightarrow> content (snd (rx r (HGETALL k))) = content r"
    and hdel_law: "up r \<Longrightarrow> hash_at (content r) k = Some h \<Longrightarrow>
      content (snd (rx r (HDEL k f))) =
        (content r)(k := if h(f := None) = Map.empty then None else Some (RHash (h(f := None))))"
    and pass_law: "up r \<Longrightarrow> content (pass d r) k =
      (case ttl r k of Some t \<Rightarrow> if int d < t then content r k else None | None \<Rightarrow> content r k)"
begin

lemma up_lpush [simp]: "up r \<Longrightarrow> up (lpush rx r k b)"
  by (simp add: lpush_def stays_up Let_def)

lemma content_lpush [world_simps]:
  "up r \<Longrightarrow> list_at (content r) k = Some xs \<Longrightarrow>
   content (lpush rx r k b) = (content r)(k \<mapsto> RList (chars_of_bytes b # xs))"
  by (simp add: lpush_def lpush_law expire_law stays_up Let_def)

text \<open>The deadline of a queue is set again by every push, so it counts from the last message.\<close>

lemma ttl_lpush: "up r \<Longrightarrow> list_at (content r) k = Some xs \<Longrightarrow> ttl (lpush rx r k b) k = Some 604800"
  by (simp add: lpush_def lpush_law expire_law stays_up Let_def)

lemma fst_lrange_and_del:
  "up r \<Longrightarrow> list_at (content r) k = Some xs \<Longrightarrow> fst (lrange_and_del rx r k) = map bytes_of_chars (rev xs)"
  using lrange_law(1) [of r k xs]
  by (cases "rx r (LRANGE k 0 (-1))")
    (simp add: lrange_and_del_def Let_def comp_def rev_map concat_map_singleton split: prod.splits)

lemma content_lrange_and_del:
  assumes "up r" "list_at (content r) k = Some xs"
  shows "content (snd (lrange_and_del rx r k)) = (if xs = [] then content r else (content r)(k := None))"
proof -
  obtain reply r' where rx: "rx r (LRANGE k 0 (-1)) = (reply, r')" by fastforce
  then have "up r'" "content r' = content r" "reply = Some (R_ARRAY (map R_STRING xs))"
    using stays_up(1) [OF assms(1), of "LRANGE k 0 (-1)"] lrange_law(1) [OF assms]
      lrange_law(2) [OF assms(1), of k] by simp_all
  then show ?thesis
    by (simp add: lrange_and_del_def rx Let_def comp_def rev_map concat_map_singleton del_law)
qed

lemma up_lrange_and_del [simp]: "up r \<Longrightarrow> up (snd (lrange_and_del rx r k))"
  using stays_up(1) [of r "LRANGE k 0 (-1)"]
  by (cases "rx r (LRANGE k 0 (-1))") (auto simp: lrange_and_del_def Let_def stays_up)

lemma lpush_all:
  assumes "up r" "list_at (content r) k = Some xs"
  shows "up (foldl (\<lambda>r b. lpush rx r k b) r bs) \<and>
    list_at (content (foldl (\<lambda>r b. lpush rx r k b) r bs)) k = Some (map chars_of_bytes (rev bs) @ xs) \<and>
    (\<forall>k'. k' \<noteq> k \<longrightarrow> content (foldl (\<lambda>r b. lpush rx r k b) r bs) k' = content r k')"
  using assms
proof (induction bs arbitrary: r xs)
  case (Cons b bs)
  have "list_at (content (lpush rx r k b)) k = Some (chars_of_bytes b # xs)"
    using Cons.prems by (simp add: content_lpush list_at_def)
  from Cons.IH [OF up_lpush this] Cons.prems show ?case
    by (simp add: content_lpush)
qed simp

lemma offline_queue_fifo:
  assumes "up r" "list_at (content r) k = Some []"
  shows "fst (lrange_and_del rx (foldl (\<lambda>r b. lpush rx r k b) r bs) k) = bs \<and>
    list_at (content (snd (lrange_and_del rx (foldl (\<lambda>r b. lpush rx r k b) r bs) k))) k = Some []"
proof -
  note q = lpush_all [OF assms, of bs]
  have "content (snd (lrange_and_del rx (foldl (\<lambda>r b. lpush rx r k b) r bs) k)) =
      (if map chars_of_bytes (rev bs) @ [] = [] then content (foldl (\<lambda>r b. lpush rx r k b) r bs)
       else (content (foldl (\<lambda>r b. lpush rx r k b) r bs))(k := None))"
    using q by (intro content_lrange_and_del) simp_all
  moreover have "fst (lrange_and_del rx (foldl (\<lambda>r b. lpush rx r k b) r bs) k) =
      map bytes_of_chars (rev (map chars_of_bytes (rev bs) @ []))"
    using q by (intro fst_lrange_and_del) simp_all
  ultimately show ?thesis
    using q by (auto simp: rev_map comp_def list_at_def)
qed

end

section \<open>Decoding of sets and hashes\<close>

text \<open>The group members and the unread counters that a Redis set or hash stands for.\<close>

definition members_view :: "string set \<Rightarrow> u64 set \<Rightarrow> bool" where
  "members_view S M \<longleftrightarrow> S = to_string_u64 ` M"

definition unread_view :: "(string \<rightharpoonup> string) \<Rightarrow> (u64 \<rightharpoonup> i64) \<Rightarrow> bool" where
  "unread_view h c \<longleftrightarrow>
     (\<forall>conv. h (to_string_u64 conv) = map_option to_string_i64 (c conv)) \<and> dom h \<subseteq> range to_string_u64"

lemma concat_uid_of_reply: "concat (map uid_of_reply (map R_STRING (map to_string_u64 ys))) = ys"
  by (induction ys) (simp_all add: uid_of_reply_def)

lemma unread_pairs_encoded:
  "unread_pairs (concat (map (\<lambda>(f, v). [R_STRING f, R_STRING v])
      (map (\<lambda>(c, n). (to_string_u64 c, to_string_i64 n)) bl))) result = result ++ map_of (rev bl)"
  by (induction bl arbitrary: result) (auto simp: map_add_def fun_eq_iff split: option.splits)

lemma map_of_rev: "distinct (map fst bl) \<Longrightarrow> map_of (rev bl) = map_of bl"
  by (rule map_of_inject_set [THEN iffD2]) (simp_all add: rev_map [symmetric])

lemma unread_view_decode:
  assumes "unread_view h c" "distinct (map fst al)" "map_of al = h"
  obtains bl where "al = map (\<lambda>(c, n). (to_string_u64 c, to_string_i64 n)) bl" "distinct (map fst bl)"
    "map_of bl = c"
proof -
  have "\<exists>conv n. p = (to_string_u64 conv, to_string_i64 n)" if "p \<in> set al" for p
  proof -
    have hp: "h (fst p) = Some (snd p)" using that assms(2,3) by (cases p) (auto intro: map_of_is_SomeI)
    then obtain conv where conv: "fst p = to_string_u64 conv"
      using assms(1) unfolding unread_view_def by blast
    with hp assms(1) obtain n where "snd p = to_string_i64 n"
      unfolding unread_view_def by (metis map_option_eq_Some)
    with conv show ?thesis by (metis prod.collapse)
  qed
  then have "\<forall>p\<in>set al. \<exists>q. p = (\<lambda>(c, n). (to_string_u64 c, to_string_i64 n)) q" by fastforce
  then obtain bl where al: "al = map (\<lambda>(c, n). (to_string_u64 c, to_string_i64 n)) bl"
    unfolding ex_map_conv [symmetric] by blast
  have d: "distinct (map fst bl)"
  proof -
    have "map fst al = map to_string_u64 (map fst bl)" by (auto simp: al)
    with assms(2) show ?thesis by (metis distinct_map)
  qed
  have inj: "inj to_string_i64" by (metis from_chars_to_string_i64 injI option.inject)
  have "map_of (map (\<lambda>(c, n). (to_string_u64 c, to_string_i64 n)) bl) (to_string_u64 conv) =
      map_option to_string_i64 (map_of bl conv)" for conv
    by (induction bl) auto
  then have "map_option to_string_i64 (map_of bl conv) = map_option to_string_i64 (c conv)" for conv
    using assms(1,3) al unfolding unread_view_def by metis
  then have "map_of bl = c" using option.inj_map [OF inj] by (intro ext) (metis injD)
  with al d show ?thesis using that by blast
qed

context redis_server
begin

lemma up_simple [simp]:
  assumes "up r"
  shows "up (set_presence rx r u sv)" "up (refresh_presence rx r u)" "up (del_presence rx r u)"
    "up (sadd_group_member rx r g u)" "up (srem_group_member rx r g u)" "up (hincrby_unread rx r u c n)"
    "up (hdel_unread rx r u c)" "up (set_last_seen rx r u ts)"
    "up (snd (get_presence rx r u))" "up (snd (smembers_group rx r g))" "up (snd (hgetall_unread rx r u))"
    "up (snd (get_last_seen rx r u))"
  using assms by (simp_all add: redis_defs stays_up Let_def split_beta)

lemma content_read [simp]:
  assumes "up r"
  shows "content (snd (get_presence rx r u)) = content r" "content (snd (smembers_group rx r g)) = content r"
    "content (snd (hgetall_unread rx r u)) = content r" "content (snd (get_last_seen rx r u)) = content r"
  using assms by (simp_all add: redis_defs get_law smembers_law hgetall_law split_beta)

lemma content_presence [world_simps]:
  assumes "up r"
  shows "content (set_presence rx r u sv) = (content r)(presence_key u \<mapsto> RStr sv)"
    "content (refresh_presence rx r u) = content r"
    "content (del_presence rx r u) = (content r)(presence_key u := None)"
    "content (set_last_seen rx r u ts) = (content r)(last_seen_key u \<mapsto> RStr (to_string_i64 ts))"
  using assms by (simp_all add: redis_defs setex_law expire_law del_law)

lemma fst_get_presence:
  assumes "up r"
  shows "content r (presence_key u) = Some (RStr sv) \<Longrightarrow> fst (get_presence rx r u) = Some sv"
    "content r (presence_key u) = None \<Longrightarrow> fst (get_presence rx r u) = None"
  using assms by (simp_all add: get_presence_def get_law split_beta)

lemma presence_window:
  assumes "up r"
  shows "fst (get_presence rx (pass d (set_presence rx r u sv)) u) = (if d < 60 then Some sv else None)"
proof -
  have "ttl (set_presence rx r u sv) (presence_key u) = Some 60"
    using assms by (simp add: set_presence_def setex_law)
  then have "content (pass d (set_presence rx r u sv)) (presence_key u) = (if d < 60 then Some (RStr sv) else None)"
    using assms by (simp add: pass_law content_presence)
  then show ?thesis
    using assms by (auto intro: fst_get_presence simp: stays_up)
qed

lemma presence_refreshed:
  assumes "up r" "content r (presence_key u) = Some (RStr sv)"
  shows "fst (get_presence rx (pass d (refresh_presence rx r u)) u) = (if d < 60 then Some sv else None)"
proof -
  have "ttl (refresh_presence rx r u) (presence_key u) = Some 60"
    using assms by (simp add: refresh_presence_def expire_law)
  then have "content (pass d (refresh_presence rx r u)) (presence_key u) = (if d < 60 then Some (RStr sv) else None)"
    using assms by (simp add: pass_law content_presence)
  then show ?thesis
    using assms by (auto intro: fst_get_presence simp: stays_up)
qed

lemma smembers_group_members:
  assumes "up r" "set_at (content r) (group_key g) = Some S" "members_view S M"
  shows "distinct (fst (smembers_group rx r g)) \<and> set (fst (smembers_group rx r g)) = M"
proof -
  obtain xs where xs: "fst (rx r (SMEMBERS (group_key g))) = Some (R_ARRAY (map R_STRING xs))"
    "distinct xs" "set xs = S" using smembers_law(1) [OF assms(1,2)] by blast
  obtain ys where ys: "xs = map to_string_u64 ys"
    using xs(3) assms(3) ex_map_conv [of xs to_string_u64] unfolding members_view_def by blast
  have "distinct ys" using xs(2) by (simp add: ys distinct_map)
  moreover have "set ys = M"
    using xs(3) assms(3) inj_image_eq_iff [of to_string_u64 "set ys" M]
    by (simp add: ys members_view_def inj_def)
  moreover have "fst (smembers_group rx r g) = ys"
    using xs(1) by (simp add: smembers_group_def split_beta ys concat_uid_of_reply del: map_map)
  ultimately show ?thesis by simp
qed

lemma sadd_srem_members:
  assumes "up r" "set_at (content r) (group_key g) = Some S" "members_view S M"
  shows "\<exists>S'. set_at (content (sadd_group_member rx r g u)) (group_key g) = Some S' \<and> members_view S' (insert u M)"
    "\<exists>S'. set_at (content (srem_group_member rx r g u)) (group_key g) = Some S' \<and> members_view S' (M - {u})"
proof -
  show "\<exists>S'. set_at (content (sadd_group_member rx r g u)) (group_key g) = Some S' \<and> members_view S' (insert u M)"
    using assms by (auto simp: sadd_group_member_def sadd_law set_at_def members_view_def)
  have "to_string_u64 ` M - {to_string_u64 u} = to_string_u64 ` (M - {u})" by auto
  then show "\<exists>S'. set_at (content (srem_group_member rx r g u)) (group_key g) = Some S' \<and> members_view S' (M - {u})"
    using assms by (auto simp: srem_group_member_def srem_law set_at_def members_view_def)
qed

lemma hgetall_unread_counts:
  assumes "up r" "hash_at (content r) (unread_key u) = Some h" "unread_view h c"
  shows "fst (hgetall_unread rx r u) = c"
proof -
  obtain al where al: "fst (rx r (HGETALL (unread_key u))) =
      Some (R_ARRAY (concat (map (\<lambda>(f, v). [R_STRING f, R_STRING v]) al)))"
    "distinct (map fst al)" "map_of al = h" using hgetall_law(1) [OF assms(1,2)] by blast
  obtain bl where bl: "al = map (\<lambda>(c, n). (to_string_u64 c, to_string_i64 n)) bl"
    "distinct (map fst bl)" "map_of bl = c" using unread_view_decode [OF assms(3) al(2,3)] by blast
  have len: "length (concat (map (\<lambda>(f, v). [R_STRING f, R_STRING v]) al)) mod 2 = 0" for al :: "(string \<times> string) list"
    by (induction al) auto
  have "fst (hgetall_unread rx r u) = map_of (rev bl)"
    using al(1) len [of al] unread_pairs_encoded [of bl Map.empty] by (simp add: hgetall_unread_def split_beta bl(1))
  then show ?thesis using bl(2,3) by (simp add: map_of_rev)
qed

lemma hincrby_unread_counts:
  assumes "up r" "hash_at (content r) (unread_key u) = Some h" "unread_view h c"
    and "sint new = sint (case c conv of None \<Rightarrow> 0 | Some n \<Rightarrow> n) + 1"
  shows "\<exists>h'. hash_at (content (hincrby_unread rx r u conv 1)) (unread_key u) = Some h' \<and>
    unread_view h' (c(conv \<mapsto> new))"
proof -
  let ?old = "case c conv of None \<Rightarrow> 0 | Some n \<Rightarrow> n"
  have "h (to_string_u64 conv) = None \<and> ?old = 0 \<or> h (to_string_u64 conv) = Some (to_string_i64 ?old)"
    using assms(3) by (cases "c conv") (simp_all add: unread_view_def)
  from hincrby_law [OF assms(1,2) this assms(4)] assms(3) show ?thesis
    by (auto simp: hincrby_unread_def hash_at_def unread_view_def)
qed

lemma hdel_unread_counts:
  assumes "up r" "hash_at (content r) (unread_key u) = Some h" "unread_view h c"
  shows "\<exists>h'. hash_at (content (hdel_unread rx r u conv)) (unread_key u) = Some h' \<and>
    unread_view h' (c(conv := None))"
proof -
  have "hash_at (content (hdel_unread rx r u conv)) (unread_key u) = Some (h(to_string_u64 conv := None))"
    using hdel_law [OF assms(1,2)] by (simp add: hdel_unread_def hash_at_def)
  moreover have "unread_view (h(to_string_u64 conv := None)) (c(conv := None))"
    using assms(3) by (auto simp: unread_view_def)
  ultimately show ?thesis by blast
qed

lemma last_seen_roundtrip: "up r \<Longrightarrow> fst (get_last_seen rx (set_last_seen rx r u ts) u) = Some ts"
  using get_law(1) [of "set_last_seen rx r u ts" "last_seen_key u" "to_string_i64 ts"]
  by (simp add: get_last_seen_def split_beta content_presence)

end

context redis_server
begin

lemma presence_lifetime_law:
  assumes "up r" "d < 60"
  shows "fst (get_presence rx (pass d (set_presence rx r u sv)) u) = Some sv \<and>
    fst (get_presence rx (pass 60 (set_presence rx r u sv)) u) = None \<and>
    (\<forall>e. fst (get_presence rx (pass e (refresh_presence rx (pass d (set_presence rx r u sv)) u)) u) =
       (if e < 60 then Some sv else None))"
proof -
  have "content (pass d (set_presence rx r u sv)) (presence_key u) = Some (RStr sv)"
    using assms by (simp add: pass_law set_presence_def setex_law stays_up)
  then show ?thesis
    using assms presence_window [of r d u sv] presence_window [of r 60 u sv]
    by (simp add: presence_refreshed stays_up)
qed

lemma unread_counters_law:
  assumes "up r" "hash_at (content r) (unread_key u) = Some h" "unread_view h c"
    and "sint new = sint (case c conv of None \<Rightarrow> 0 | Some n \<Rightarrow> n) + 1"
  shows "fst (hgetall_unread rx r u) = c \<and>
    fst (hgetall_unread rx (hincrby_unread rx r u conv 1) u) = c(conv \<mapsto> new) \<and>
    fst (hgetall_unread rx (hdel_unread rx r u conv) u) = c(conv := None)"
  using hgetall_unread_counts [OF assms(1-3)] hincrby_unread_counts [OF assms(1-4)]
    hdel_unread_counts [OF assms(1-3), of conv] assms(1)
  by (auto intro: hgetall_unread_counts)

lemma group_cache_law:
  assumes "up r" "set_at (content r) (group_key g) = Some S" "members_view S M"
  shows "set (fst (smembers_group rx r g)) = M \<and> distinct (fst (smembers_group rx r g)) \<and>
    set (fst (smembers_group rx (sadd_group_member rx r g u) g)) = insert u M \<and>
    set (fst (smembers_group rx (srem_group_member rx r g u) g)) = M - {u}"
proof -
  obtain S' S'' where "set_at (content (sadd_group_member rx r g u)) (group_key g) = Some S'"
    "members_view S' (insert u M)" "set_at (content (srem_group_member rx r g u)) (group_key g) = Some S''"
    "members_view S'' (M - {u})"
    using sadd_srem_members [OF assms, of u] by blast
  then show ?thesis
    using assms by (simp add: smembers_group_members)
qed

end

section \<open>An executable store with that behaviour\<close>

datatype sval = SStr string | SList "string list" | SSet "string list" | SHash "(string \<times> string) list"

record rstore =
  rs_up :: bool
  rs_now :: int
  rs_data :: "string \<rightharpoonup> sval \<times> int option"

fun sval_abs :: "sval \<Rightarrow> rvalue" where
  "sval_abs (SStr s) = RStr s"
| "sval_abs (SList xs) = RList xs"
| "sval_abs (SSet xs) = RSet (set xs)"
| "sval_abs (SHash al) = RHash (map_of al)"

definition ref_live :: "rstore \<Rightarrow> string \<Rightarrow> (sval \<times> int option) option" where
  "ref_live r k = (case rs_data r k of
      None \<Rightarrow> None
    | Some (v, None) \<Rightarrow> Some (v, None)
    | Some (v, Some d) \<Rightarrow> if rs_now r < d then Some (v, Some d) else None)"

definition ref_content :: "rstore \<Rightarrow> string \<rightharpoonup> rvalue" where
  "ref_content r k = map_option (sval_abs \<circ> fst) (ref_live r k)"

definition ref_ttl :: "rstore \<Rightarrow> string \<Rightarrow> int option" where
  "ref_ttl r k = (case ref_live r k of Some (v, Some d) \<Rightarrow> Some (d - rs_now r) | _ \<Rightarrow> None)"

definition ref_pass :: "nat \<Rightarrow> rstore \<Rightarrow> rstore" where
  "ref_pass d r = r\<lparr>rs_now := rs_now r + int d\<rparr>"

definition ref_put :: "rstore \<Rightarrow> string \<Rightarrow> (sval \<times> int option) option \<Rightarrow> rstore" where
  "ref_put r k e = r\<lparr>rs_data := (rs_data r)(k := e)\<rparr>"

definition ref_slice :: "int \<Rightarrow> int \<Rightarrow> 'a list \<Rightarrow> 'a list" where
  "ref_slice a b xs =
     (let n = int (length xs);
          a = (if a < 0 then max 0 (n + a) else a); b = (if b < 0 then n + b else b)
      in take (nat (b + 1 - a)) (drop (nat a) xs))"

definition wrongtype :: redis_reply where "wrongtype = R_ERROR ''WRONGTYPE''"

fun ref_run :: "rstore \<Rightarrow> redis_cmd \<Rightarrow> redis_reply \<times> rstore" where
  "ref_run r (LPUSH k v) = (case ref_live r k of
      None \<Rightarrow> (R_INTEGER 1, ref_put r k (Some (SList [v], None)))
    | Some (SList xs, d) \<Rightarrow> (R_INTEGER (int (length xs) + 1), ref_put r k (Some (SList (v # xs), d)))
    | _ \<Rightarrow> (wrongtype, r))"
| "ref_run r (EXPIRE k n) = (case ref_live r k of
      None \<Rightarrow> (R_INTEGER 0, r)
    | Some (v, _) \<Rightarrow> (R_INTEGER 1, ref_put r k (if 0 < n then Some (v, Some (rs_now r + n)) else None)))"
| "ref_run r (LRANGE k a b) = (case ref_live r k of
      None \<Rightarrow> (R_ARRAY [], r)
    | Some (SList xs, _) \<Rightarrow> (R_ARRAY (map R_STRING (ref_slice a b xs)), r)
    | _ \<Rightarrow> (wrongtype, r))"
| "ref_run r (DEL k) = (R_INTEGER (if ref_live r k = None then 0 else 1), ref_put r k None)"
| "ref_run r (SETEX k n v) =
     (if 0 < n then (R_STATUS ''OK'', ref_put r k (Some (SStr v, Some (rs_now r + n))))
      else (R_ERROR ''ERR'', r))"
| "ref_run r (GET k) = (case ref_live r k of
      None \<Rightarrow> (R_NIL, r)
    | Some (SStr s, _) \<Rightarrow> (R_STRING s, r)
    | _ \<Rightarrow> (wrongtype, r))"
| "ref_run r (SADD k v) = (case ref_live r k of
      None \<Rightarrow> (R_INTEGER 1, ref_put r k (Some (SSet [v], None)))
    | Some (SSet xs, d) \<Rightarrow> (R_INTEGER (if v \<in> set xs then 0 else 1), ref_put r k (Some (SSet (List.insert v xs), d)))
    | _ \<Rightarrow> (wrongtype, r))"
| "ref_run r (SREM k v) = (case ref_live r k of
      None \<Rightarrow> (R_INTEGER 0, ref_put r k None)
    | Some (SSet xs, d) \<Rightarrow> (R_INTEGER (if v \<in> set xs then 1 else 0),
        ref_put r k (if removeAll v xs = [] then None else Some (SSet (removeAll v xs), d)))
    | _ \<Rightarrow> (wrongtype, r))"
| "ref_run r (SMEMBERS k) = (case ref_live r k of
      None \<Rightarrow> (R_ARRAY [], r)
    | Some (SSet xs, _) \<Rightarrow> (R_ARRAY (map R_STRING (remdups xs)), r)
    | _ \<Rightarrow> (wrongtype, r))"
| "ref_run r (HINCRBY k f n) = (case (case ref_live r k of None \<Rightarrow> Some ([], None)
                                        | Some (SHash al, d) \<Rightarrow> Some (al, d) | _ \<Rightarrow> None) of
      None \<Rightarrow> (wrongtype, r)
    | Some (al, d) \<Rightarrow>
        (case (case map_of al f of None \<Rightarrow> Some 0 | Some s \<Rightarrow> from_chars_i64 s) of
           None \<Rightarrow> (R_ERROR ''ERR'', r)
         | Some old \<Rightarrow>
             (let new = sint old + n
              in if - (2 ^ 63) \<le> new \<and> new < 2 ^ 63
                 then (R_INTEGER new, ref_put r k (Some (SHash (AList.update f (to_string_i64 (of_int new)) al), d)))
                 else (R_ERROR ''ERR'', r))))"
| "ref_run r (HGETALL k) = (case ref_live r k of
      None \<Rightarrow> (R_ARRAY [], r)
    | Some (SHash al, _) \<Rightarrow>
        (R_ARRAY (concat (map (\<lambda>(f, v). [R_STRING f, R_STRING v]) (AList.clearjunk al))), r)
    | _ \<Rightarrow> (wrongtype, r))"
| "ref_run r (HDEL k f) = (case ref_live r k of
      None \<Rightarrow> (R_INTEGER 0, ref_put r k None)
    | Some (SHash al, d) \<Rightarrow> (R_INTEGER (if map_of al f = None then 0 else 1),
        ref_put r k (if AList.delete f al = [] then None else Some (SHash (AList.delete f al), d)))
    | _ \<Rightarrow> (wrongtype, r))"

definition ref_exec :: "rstore redis_exec" where
  "ref_exec r c = (if rs_up r then apfst Some (ref_run r c) else (None, r))"

definition rstore_empty :: rstore where
  "rstore_empty = \<lparr>rs_up = True, rs_now = 0, rs_data = Map.empty\<rparr>"

lemma ref_live_put: "ref_live (ref_put r k e) k' = (if k' = k then (case e of None \<Rightarrow> None
    | Some (v, None) \<Rightarrow> Some (v, None) | Some (v, Some d) \<Rightarrow> if rs_now r < d then Some (v, Some d) else None)
    else ref_live r k')"
  by (auto simp: ref_live_def ref_put_def split: option.splits)

lemma ref_content_put_None [simp]: "ref_content (ref_put r k None) = (ref_content r)(k := None)"
  by (auto simp: ref_content_def ref_live_put)

lemma ref_content_put_forever [simp]:
  "ref_content (ref_put r k (Some (v, None))) = (ref_content r)(k \<mapsto> sval_abs v)"
  by (auto simp: ref_content_def ref_live_put)

lemma ref_content_put_until [simp]:
  "rs_now r < d \<Longrightarrow> ref_content (ref_put r k (Some (v, Some d))) = (ref_content r)(k \<mapsto> sval_abs v)"
  by (auto simp: ref_content_def ref_live_put)

lemma ref_live_deadline: "ref_live r k = Some (v, Some d) \<Longrightarrow> rs_now r < d"
  by (auto simp: ref_live_def split: option.splits if_splits)

lemma ref_content_put_same_deadline:
  "ref_live r k = Some (w, d) \<Longrightarrow> ref_content (ref_put r k (Some (v, d))) = (ref_content r)(k \<mapsto> sval_abs v)"
  by (cases d) (auto dest: ref_live_deadline)

lemma rs_up_put [simp]: "rs_up (ref_put r k e) = rs_up r" "rs_now (ref_put r k e) = rs_now r"
  by (simp_all add: ref_put_def)

text \<open>What is stored when a typed view of a key succeeds.\<close>

lemma ref_list_at: "list_at (ref_content r) k = Some xs \<longleftrightarrow>
    ref_live r k = None \<and> xs = [] \<or> (\<exists>d. ref_live r k = Some (SList xs, d))"
  by (auto simp: list_at_def ref_content_def split: option.splits rvalue.splits)
    (metis sval_abs.elims rvalue.distinct rvalue.inject(2))+

lemma ref_set_at: "set_at (ref_content r) k = Some S \<longleftrightarrow>
    ref_live r k = None \<and> S = {} \<or> (\<exists>xs d. ref_live r k = Some (SSet xs, d) \<and> S = set xs)"
  by (auto simp: set_at_def ref_content_def split: option.splits rvalue.splits)
    (metis sval_abs.elims rvalue.distinct rvalue.inject(3))+

lemma ref_hash_at: "hash_at (ref_content r) k = Some h \<longleftrightarrow>
    ref_live r k = None \<and> h = Map.empty \<or> (\<exists>al d. ref_live r k = Some (SHash al, d) \<and> h = map_of al)"
  by (auto simp: hash_at_def ref_content_def split: option.splits rvalue.splits)
    (metis sval_abs.elims rvalue.distinct rvalue.inject(4))+

lemma ref_slice_all [simp]: "ref_slice 0 (-1) xs = xs"
  by (simp add: ref_slice_def)

lemma ref_content_pass: "ref_content (ref_pass n r) k =
    (case ref_ttl r k of Some t \<Rightarrow> if int n < t then ref_content r k else None | None \<Rightarrow> ref_content r k)"
  by (auto simp: ref_content_def ref_pass_def ref_ttl_def ref_live_def split: option.splits)

lemma ref_hincrby:
  assumes "hash_at (ref_content r) k = Some h" "sint new = sint old + n"
    "h f = None \<and> old = 0 \<or> h f = Some (to_string_i64 old)"
  shows "ref_content (snd (ref_run r (HINCRBY k f n))) = (ref_content r)(k \<mapsto> RHash (h(f \<mapsto> to_string_i64 new)))"
proof -
  have range: "- (2 ^ 63) \<le> sint old + n" "sint old + n < 2 ^ 63"
    using sint_range_64 [of new] assms(2) by simp_all
  have new: "word_of_int (sint old + n) = new" using assms(2) [symmetric] by simp
  from assms(1) show ?thesis
  proof (subst (asm) ref_hash_at, elim disjE exE conjE)
    assume "ref_live r k = None" "h = Map.empty"
    then show ?thesis using assms(3) range new by (simp add: Let_def)
  next
    fix al d assume l: "ref_live r k = Some (SHash al, d)" "h = map_of al"
    moreover have "(case map_of al f of None \<Rightarrow> Some 0 | Some s \<Rightarrow> from_chars_i64 s) = Some old"
      using assms(3) l by auto
    ultimately show ?thesis
      using range new by (simp add: Let_def ref_content_put_same_deadline [OF l(1)] update_conv')
  qed
qed

interpretation ref_redis: redis_server ref_exec rs_up ref_content ref_ttl ref_pass
proof (unfold_locales, goal_cases)
  case (1 r c)
  then show ?case by (cases c) (auto simp: ref_exec_def Let_def split: option.splits sval.splits)
next
  case (2 r d)
  then show ?case by (simp add: ref_pass_def)
next
  case (3 r k xs v)
  then show ?case by (auto simp: ref_exec_def ref_list_at ref_content_put_same_deadline)
next
  case (4 r n k)
  then show ?case by (auto simp: ref_exec_def ref_content_def fun_eq_iff ref_live_put split: option.splits)
next
  case (5 r n k)
  then show ?case by (auto simp: ref_exec_def ref_content_def ref_ttl_def ref_live_put split: option.splits)
next
  case (6 r k xs)
  then show ?case by (auto simp: ref_exec_def ref_list_at)
next
  case (7 r k)
  then show ?case by (auto simp: ref_exec_def split: option.splits sval.splits)
next
  case (8 r k)
  then show ?case by (simp add: ref_exec_def)
next
  case (9 r n k v)
  then show ?case by (simp add: ref_exec_def)
next
  case (10 r n k v)
  then show ?case by (simp add: ref_exec_def ref_ttl_def ref_live_put)
next
  case (11 r k v)
  then obtain w where "ref_live r k = Some w" "sval_abs (fst w) = RStr v" by (auto simp: ref_content_def)
  with 11 show ?case by (cases w; cases "fst w") (auto simp: ref_exec_def)
next
  case (12 r k)
  then show ?case by (auto simp: ref_exec_def ref_content_def)
next
  case (13 r k)
  then show ?case by (auto simp: ref_exec_def split: option.splits sval.splits)
next
  case (14 r k S v)
  then show ?case by (auto simp: ref_exec_def ref_set_at ref_content_put_same_deadline)
next
  case (15 r k S v)
  then consider "ref_live r k = None" "S = {}" | xs d where "ref_live r k = Some (SSet xs, d)" "S = set xs"
    by (auto simp: ref_set_at)
  then show ?case
  proof cases
    case 1
    with 15 show ?thesis by (simp add: ref_exec_def)
  next
    case (2 xs d)
    have "set xs - {v} = {} \<longleftrightarrow> removeAll v xs = []" by (metis set_empty set_removeAll)
    with 15 2 show ?thesis
      by (simp add: ref_exec_def ref_content_put_same_deadline [OF 2(1)] del: Diff_eq_empty_iff)
  qed
next
  case (16 r k S)
  then show ?case by (fastforce simp: ref_exec_def ref_set_at)
next
  case (17 r k)
  then show ?case by (auto simp: ref_exec_def split: option.splits sval.splits)
next
  case (18 r k h f old new delta)
  then show ?case using ref_hincrby [of r k h new old delta f] by (simp add: ref_exec_def)
next
  case (19 r k h)
  then consider "ref_live r k = None" "h = Map.empty" | al d where "ref_live r k = Some (SHash al, d)" "h = map_of al"
    by (auto simp: ref_hash_at)
  then show ?case
  proof cases
    case 1
    with 19 show ?thesis by (intro exI [of _ "[]"]) (simp add: ref_exec_def)
  next
    case (2 al d)
    with 19 show ?thesis
      by (intro exI [of _ "AList.clearjunk al"]) (simp add: ref_exec_def map_of_clearjunk distinct_clearjunk)
  qed
next
  case (20 r k)
  then show ?case by (auto simp: ref_exec_def split: option.splits sval.splits)
next
  case (21 r k h f)
  then show ?case
    by (auto simp: ref_exec_def ref_hash_at ref_content_put_same_deadline simp flip: delete_conv')
next
  case (22 r d k)
  then show ?case by (simp add: ref_content_pass)
qed

section \<open>Properties\<close>

text \<open>C25. The offline queue is first-in first-out and drained completely: whatever messages were pushed
  while the user was away, the flush returns them oldest first and leaves the queue empty.\<close>

theorem offline_fifo:
  assumes "redis_server rx up content ttl pass" and "up r"
    and "list_at (content r) (offline_key u) = Some []"
  shows "fst (lrange_and_del rx (foldl (\<lambda>r b. lpush rx r (offline_key u) b) r bs) (offline_key u)) = bs \<and>
    list_at (content (snd (lrange_and_del rx (foldl (\<lambda>r b. lpush rx r (offline_key u) b) r bs) (offline_key u))))
      (offline_key u) = Some []"
  using assms(2,3) by (rule redis_server.offline_queue_fifo [OF assms(1)])

theorem offline_fifo_witness:
  "fst (lrange_and_del ref_exec
     (foldl (\<lambda>r b. lpush ref_exec r (offline_key 7) b) rstore_empty [[1], [2, 3]]) (offline_key 7)) = [[1], [2, 3]]"
  using offline_fifo [OF ref_redis.redis_server_axioms, of rstore_empty 7 "[[1], [2, 3]]"]
  by (simp add: rstore_empty_def list_at_def ref_content_def ref_live_def)

text \<open>Presence: from \<open>set_presence\<close> on, a user is reported online with that server for exactly 60
  seconds, and each \<open>refresh_presence\<close> (a \<open>PING\<close>) within that time starts 60 new seconds.\<close>

theorem presence_lifetime:
  assumes "redis_server rx up content ttl pass" and "up r" and "d < 60"
  shows "fst (get_presence rx (pass d (set_presence rx r u sv)) u) = Some sv \<and>
    fst (get_presence rx (pass 60 (set_presence rx r u sv)) u) = None \<and>
    (\<forall>e. fst (get_presence rx (pass e (refresh_presence rx (pass d (set_presence rx r u sv)) u)) u) =
       (if e < 60 then Some sv else None))"
  using assms(2,3) by (rule redis_server.presence_lifetime_law [OF assms(1)])

theorem presence_lifetime_witness:
  "fst (get_presence ref_exec (ref_pass 59 (set_presence ref_exec rstore_empty 7 ''h:7777'')) 7) = Some ''h:7777''"
  using presence_lifetime [OF ref_redis.redis_server_axioms, of rstore_empty 59 7 "''h:7777''"]
  by (simp add: rstore_empty_def)

text \<open>Unread counters: counting one message up adds one to that conversation's counter, reading
  the conversation removes it, and neither changes another conversation of the user.\<close>

theorem unread_counters:
  assumes "redis_server rx up content ttl pass" and "up r"
    and "hash_at (content r) (unread_key u) = Some h" and "unread_view h c"
    and "sint new = sint (case c conv of None \<Rightarrow> 0 | Some n \<Rightarrow> n) + 1"
  shows "fst (hgetall_unread rx r u) = c \<and>
    fst (hgetall_unread rx (hincrby_unread rx r u conv 1) u) = c(conv \<mapsto> new) \<and>
    fst (hgetall_unread rx (hdel_unread rx r u conv) u) = c(conv := None)"
  using assms(2-5) by (rule redis_server.unread_counters_law [OF assms(1)])

theorem unread_counters_witness:
  "fst (hgetall_unread ref_exec (hincrby_unread ref_exec rstore_empty 7 9 1) 7) = [9 \<mapsto> 1]"
  using unread_counters [OF ref_redis.redis_server_axioms, of rstore_empty 7 Map.empty Map.empty 1 9]
  by (simp add: rstore_empty_def hash_at_def ref_content_def ref_live_def unread_view_def)

text \<open>The membership cache: after members were added and removed, \<open>smembers_group\<close> lists each
  member of the group once and nobody else.\<close>

theorem group_cache:
  assumes "redis_server rx up content ttl pass" and "up r"
    and "set_at (content r) (group_key g) = Some S" and "members_view S M"
  shows "set (fst (smembers_group rx r g)) = M \<and> distinct (fst (smembers_group rx r g)) \<and>
    set (fst (smembers_group rx (sadd_group_member rx r g u) g)) = insert u M \<and>
    set (fst (smembers_group rx (srem_group_member rx r g u) g)) = M - {u}"
  using assms(2-4) by (rule redis_server.group_cache_law [OF assms(1)])

theorem group_cache_witness:
  "set (fst (smembers_group ref_exec (sadd_group_member ref_exec rstore_empty 5 7) 5)) = {7}"
  using group_cache [OF ref_redis.redis_server_axioms, of rstore_empty 5 "{}" "{}" 7]
  by (simp add: rstore_empty_def set_at_def ref_content_def ref_live_def members_view_def)

end
