(* ===== verification/Pg_Pool.thy ===== *)
theory Pg_Pool
  imports Loomic_Prelude
begin

text \<open>
  \<open>src/server/src/db/PgPool.cpp\<close>: the pool of PostgreSQL connections.  A \<open>DbFunc\<close> is a transaction
  \<open>'db \<Rightarrow> string + 'a \<times> 'db\<close> on the contents of the database (\<open>Inl\<close> is an SQL error, whose
  transaction is rolled back).  What the network and libpqxx do is a sequence of events: each time the
  code connects, probes or runs a transaction it meets the next one.  \<open>EvBroken\<close> is
  \<open>pqxx::broken_connection\<close> before anything was committed, \<open>EvError\<close> any other failure,
  \<open>EvInDoubt b\<close> a connection lost during the commit (\<open>pqxx::in_doubt_error\<close>), where \<open>b\<close> says whether the
  server committed.  Time points are nanoseconds of \<open>steady_clock\<close>, whose readings are a sequence.
\<close>

section \<open>Data\<close>

datatype RetryClass = ReadOnly | RetrySafeWrite | NonRetryableWrite

datatype pg_event = EvOk | EvBroken | EvError | EvInDoubt bool

datatype pg_exn = broken_connection | in_doubt_error | pg_failure string

type_synonym ('db, 'a) DbFunc = "'db \<Rightarrow> string + 'a \<times> 'db"

record pg_env =
  pe_event :: "nat \<Rightarrow> pg_event"
  pe_clock :: "nat \<Rightarrow> int"

text \<open>\<open>sl_conn\<close> is the \<open>unique_ptr\<close>: \<open>None\<close> for a null pointer, else whether the connection is open.\<close>

record Slot =
  sl_conn :: "bool option"
  sl_created_at :: int
  sl_last_used_at :: int
  sl_last_validated_at :: int

record 'db PgPool =
  pg_connections :: "Slot list"
  pg_free_list :: "nat list"
  pg_db :: 'db
  pg_ev_index :: nat
  pg_clk_index :: nat

definition kConnectionValidationIdleThreshold :: int where
  "kConnectionValidationIdleThreshold = 5 * 60 * 1000000000"

definition kConnectionMaxLifetime :: int where
  "kConnectionMaxLifetime = 30 * 60 * 1000000000"

definition next_event :: "pg_env \<Rightarrow> 'db PgPool \<Rightarrow> pg_event \<times> 'db PgPool" where
  "next_event E p = (pe_event E (pg_ev_index p), p\<lparr>pg_ev_index := Suc (pg_ev_index p)\<rparr>)"

definition steady_now :: "pg_env \<Rightarrow> 'db PgPool \<Rightarrow> int \<times> 'db PgPool" where
  "steady_now E p = (pe_clock E (pg_clk_index p), p\<lparr>pg_clk_index := Suc (pg_clk_index p)\<rparr>)"

definition set_slot :: "nat \<Rightarrow> (Slot \<Rightarrow> Slot) \<Rightarrow> 'db PgPool \<Rightarrow> 'db PgPool" where
  "set_slot index f p = p\<lparr>pg_connections := (pg_connections p)[index := f (pg_connections p ! index)]\<rparr>"

section \<open>Operations\<close>

text \<open>The constructor; \<open>None\<close> when a connection cannot be established (the exception leaves it).\<close>

fun connect_all :: "pg_env \<Rightarrow> int \<Rightarrow> nat \<Rightarrow> nat \<Rightarrow> 'db PgPool \<Rightarrow> 'db PgPool option" where
  "connect_all E now i 0 p = Some p"
| "connect_all E now i (Suc n) p =
     (let (e, p) = next_event E p
      in if e = EvOk
         then connect_all E now (Suc i) n
           (p\<lparr>pg_connections := pg_connections p @ [\<lparr>sl_conn = Some True, sl_created_at = now,
                 sl_last_used_at = now, sl_last_validated_at = now\<rparr>],
              pg_free_list := pg_free_list p @ [i]\<rparr>)
         else None)"

definition PgPool_init :: "pg_env \<Rightarrow> nat \<Rightarrow> 'db \<Rightarrow> 'db PgPool option" where
  "PgPool_init E pool_size db =
     (let p = \<lparr>pg_connections = [], pg_free_list = [], pg_db = db, pg_ev_index = 0, pg_clk_index = 0\<rparr>;
          (now, p) = steady_now E p
      in connect_all E now 0 pool_size p)"

text \<open>\<open>None\<close>: the caller waits for the condition variable.\<close>

definition acquire :: "'db PgPool \<Rightarrow> (nat \<times> 'db PgPool) option" where
  "acquire p =
     (if pg_free_list p = [] then None
      else Some (last (pg_free_list p), p\<lparr>pg_free_list := butlast (pg_free_list p)\<rparr>))"

definition release :: "nat \<Rightarrow> 'db PgPool \<Rightarrow> 'db PgPool" where
  "release index p = p\<lparr>pg_free_list := pg_free_list p @ [index]\<rparr>"

definition should_retry_once :: "RetryClass \<Rightarrow> bool" where
  "should_retry_once retry_class \<longleftrightarrow> retry_class \<noteq> NonRetryableWrite"

definition should_probe_idle_connection :: "Slot \<Rightarrow> int \<Rightarrow> bool" where
  "should_probe_idle_connection slot now \<longleftrightarrow>
     now - sl_last_used_at slot \<ge> kConnectionValidationIdleThreshold \<and>
     now - sl_last_validated_at slot \<ge> kConnectionValidationIdleThreshold"

definition should_recycle_connection :: "Slot \<Rightarrow> int \<Rightarrow> bool" where
  "should_recycle_connection slot now \<longleftrightarrow> now - sl_created_at slot \<ge> kConnectionMaxLifetime"

definition recreate_connection :: "pg_env \<Rightarrow> nat \<Rightarrow> 'db PgPool \<Rightarrow> (pg_exn + unit) \<times> 'db PgPool" where
  "recreate_connection E index p =
     (let (e, p) = next_event E p
      in if e = EvOk
         then let (now, p) = steady_now E p
              in (Inr (), set_slot index (\<lambda>_. \<lparr>sl_conn = Some True, sl_created_at = now,
                    sl_last_used_at = now, sl_last_validated_at = now\<rparr>) p)
         else (Inl broken_connection, p))"

definition probe_connection :: "pg_env \<Rightarrow> nat \<Rightarrow> 'db PgPool \<Rightarrow> (pg_exn + unit) \<times> 'db PgPool" where
  "probe_connection E index p =
     (let (e, p) = next_event E p
      in case e of
           EvOk \<Rightarrow> (let (now, p) = steady_now E p
                    in (Inr (), set_slot index (\<lambda>s. s\<lparr>sl_last_validated_at := now\<rparr>) p))
         | EvBroken \<Rightarrow> (Inl broken_connection, set_slot index (\<lambda>s. s\<lparr>sl_conn := Some False\<rparr>) p)
         | _ \<Rightarrow> (Inl (pg_failure ''probe''), p))"

definition ensure_connection :: "pg_env \<Rightarrow> nat \<Rightarrow> 'db PgPool \<Rightarrow> (pg_exn + unit) \<times> 'db PgPool" where
  "ensure_connection E index p =
     (let (now, p) = steady_now E p;
          slot = pg_connections p ! index
      in if sl_conn slot \<noteq> Some True then recreate_connection E index p
         else if should_recycle_connection slot now then recreate_connection E index p
         else if should_probe_idle_connection slot now
         then (case probe_connection E index p of
                 (Inl broken_connection, p) \<Rightarrow> recreate_connection E index p
               | r \<Rightarrow> r)
         else (Inr (), p))"

text \<open>\<open>func(*slot.conn)\<close>\<close>

definition run_func ::
  "pg_env \<Rightarrow> ('db, 'a) DbFunc \<Rightarrow> nat \<Rightarrow> 'db PgPool \<Rightarrow> (pg_exn + 'a) \<times> 'db PgPool" where
  "run_func E func index p =
     (let (e, p) = next_event E p
      in case e of
           EvOk \<Rightarrow> (case func (pg_db p) of
                       Inl err \<Rightarrow> (Inl (pg_failure err), p)
                     | Inr (a, db) \<Rightarrow> (Inr a, p\<lparr>pg_db := db\<rparr>))
         | EvBroken \<Rightarrow> (Inl broken_connection, set_slot index (\<lambda>s. s\<lparr>sl_conn := Some False\<rparr>) p)
         | EvError \<Rightarrow> (Inl (pg_failure ''error''), p)
         | EvInDoubt committed \<Rightarrow>
             (Inl in_doubt_error,
              set_slot index (\<lambda>s. s\<lparr>sl_conn := Some False\<rparr>)
                (case func (pg_db p) of Inr (a, db) \<Rightarrow> if committed then p\<lparr>pg_db := db\<rparr> else p | Inl _ \<Rightarrow> p)))"

text \<open>\<open>slot.last_used_at = now(); release(index); co_return result\<close>\<close>

definition finish :: "pg_env \<Rightarrow> nat \<Rightarrow> 'db PgPool \<Rightarrow> 'db PgPool" where
  "finish E index p =
     (let (now, p) = steady_now E p
      in release index (set_slot index (\<lambda>s. s\<lparr>sl_last_used_at := now\<rparr>) p))"

definition execute ::
  "pg_env \<Rightarrow> ('db, 'a) DbFunc \<Rightarrow> RetryClass \<Rightarrow> 'db PgPool \<Rightarrow> ((pg_exn + 'a) \<times> 'db PgPool) option" where
  "execute E func retry_class p =
     (case acquire p of
        None \<Rightarrow> None
      | Some (index, p) \<Rightarrow>
          (let attempt = (case ensure_connection E index p of
                            (Inl e, p) \<Rightarrow> (Inl e, p)
                          | (Inr _, p) \<Rightarrow> run_func E func index p)
           in Some (case attempt of
                (Inr result, p) \<Rightarrow> (Inr result, finish E index p)
              | (Inl broken_connection, p) \<Rightarrow>
                  if \<not> should_retry_once retry_class then (Inl broken_connection, release index p)
                  else (case recreate_connection E index p of
                          (Inl e, p) \<Rightarrow> (Inl e, release index p)
                        | (Inr _, p) \<Rightarrow>
                            (case run_func E func index p of
                               (Inr result, p) \<Rightarrow> (Inr result, finish E index p)
                             | (Inl e, p) \<Rightarrow> (Inl e, release index p)))
              | (Inl e, p) \<Rightarrow> (Inl e, release index p))))"

section \<open>What each part leaves alone\<close>

definition same_pool :: "'db PgPool \<Rightarrow> 'db PgPool \<Rightarrow> bool" where
  "same_pool p q \<longleftrightarrow> pg_free_list q = pg_free_list p \<and> length (pg_connections q) = length (pg_connections p)"

definition no_effect :: "'db PgPool \<Rightarrow> 'db PgPool \<Rightarrow> bool" where
  "no_effect p q \<longleftrightarrow> same_pool p q \<and> pg_db q = pg_db p"

lemma no_effect_refl [simp]: "no_effect p p"
  by (simp add: no_effect_def same_pool_def)

lemma no_effect_trans [trans]: "no_effect p q \<Longrightarrow> no_effect q r \<Longrightarrow> no_effect p r"
  by (simp add: no_effect_def same_pool_def)

lemma no_effect_primitive [simp]:
  "no_effect p (snd (next_event E p))" "no_effect p (snd (steady_now E p))" "no_effect p (set_slot i f p)"
  by (simp_all add: no_effect_def same_pool_def next_event_def steady_now_def set_slot_def)

lemma recreate_no_effect: "recreate_connection E i p = (r, q) \<Longrightarrow> no_effect p q"
  by (auto simp: recreate_connection_def next_event_def steady_now_def set_slot_def no_effect_def same_pool_def
      Let_def split: if_splits)

lemma recreate_exn: "recreate_connection E i p = (Inl e, q) \<Longrightarrow> e = broken_connection"
  by (auto simp: recreate_connection_def Let_def split: if_splits prod.splits)

lemma probe_no_effect: "probe_connection E i p = (r, q) \<Longrightarrow> no_effect p q"
  by (auto simp: probe_connection_def next_event_def steady_now_def set_slot_def no_effect_def same_pool_def
      Let_def split: pg_event.splits)

lemma ensure_no_effect:
  assumes "ensure_connection E i p = (r, q)"
  shows "no_effect p q"
proof -
  obtain now p1 where p1: "steady_now E p = (now, p1)" by fastforce
  then have n1: "no_effect p p1" by (metis no_effect_primitive(2) snd_conv)
  obtain r2 p2 where p2: "probe_connection E i p1 = (r2, p2)" by fastforce
  from assms p1 p2 consider "recreate_connection E i p1 = (r, q)" | "recreate_connection E i p2 = (r, q)"
    | "q = p2" | "q = p1"
    by (auto simp: ensure_connection_def Let_def split: if_splits sum.splits pg_exn.splits)
  then show ?thesis
    by cases (use n1 p2 in \<open>auto dest: recreate_no_effect probe_no_effect intro: no_effect_trans\<close>)
qed

lemma run_func_effect:
  assumes "run_func E func i p = (r, q)"
  shows "same_pool p q \<and>
    (case r of Inr a \<Rightarrow> func (pg_db p) = Inr (a, pg_db q)
     | Inl e \<Rightarrow> pg_db q = pg_db p \<or> e = in_doubt_error \<and> (\<exists>a. func (pg_db p) = Inr (a, pg_db q)))"
  using assms
  by (auto simp: run_func_def next_event_def set_slot_def same_pool_def Let_def
      split: pg_event.splits sum.splits if_splits)

lemma finish_effect: "same_pool p (finish E i p\<lparr>pg_free_list := butlast (pg_free_list (finish E i p))\<rparr>)"
  "pg_db (finish E i p) = pg_db p" "pg_free_list (finish E i p) = pg_free_list p @ [i]"
  by (simp_all add: same_pool_def finish_def release_def steady_now_def set_slot_def)

lemma finish_length [simp]: "length (pg_connections (finish E i p)) = length (pg_connections p)"
  by (simp add: finish_def release_def steady_now_def set_slot_def)

section \<open>The contract of execute\<close>

text \<open>The outcome of a transaction run from \<open>d\<close> that leaves \<open>d'\<close>: it was applied once or not at all.\<close>

definition outcome :: "('db, 'a) DbFunc \<Rightarrow> pg_exn + 'a \<Rightarrow> 'db \<Rightarrow> 'db \<Rightarrow> bool" where
  "outcome func r d d' \<longleftrightarrow>
     (case r of Inr a \<Rightarrow> func d = Inr (a, d')
      | Inl e \<Rightarrow> d' = d \<or> e = in_doubt_error \<and> (\<exists>a. func d = Inr (a, d')))"

lemma outcome_broken: "outcome func (Inl broken_connection) d d' \<longleftrightarrow> d' = d"
  by (simp add: outcome_def)

lemma outcome_refl [simp]: "outcome func (Inl e) d d"
  by (simp add: outcome_def)

lemma run_func_outcome:
  "run_func E func i p = (r, q) \<Longrightarrow> same_pool p q \<and> outcome func r (pg_db p) (pg_db q)"
  using run_func_effect [of E func i p r q] by (simp add: outcome_def)

lemma execute_cases:
  assumes "execute E func rc p = Some (r, q)"
  obtains i p1 p' where "acquire p = Some (i, p1)" "same_pool p1 p'" "outcome func r (pg_db p1) (pg_db p')"
    "q = finish E i p' \<or> q = release i p'"
proof -
  from assms obtain i p1 where a: "acquire p = Some (i, p1)"
    by (auto simp: execute_def split: option.splits)
  obtain r2 p2 where en: "ensure_connection E i p1 = (r2, p2)" by fastforce
  note n2 = ensure_no_effect [OF en]
  obtain r3 p3 where r3: "(case r2 of Inl e \<Rightarrow> (Inl e, p2) | Inr _ \<Rightarrow> run_func E func i p2) = (r3, p3)"
    by fastforce
  then have s3: "same_pool p1 p3" "outcome func r3 (pg_db p1) (pg_db p3)"
    using n2 by (auto dest: run_func_outcome simp: no_effect_def same_pool_def split: sum.splits)
  have ex: "(case (r3, p3) of
                (Inr result, p) \<Rightarrow> (Inr result, finish E i p)
              | (Inl broken_connection, p) \<Rightarrow>
                  if \<not> should_retry_once rc then (Inl broken_connection, release i p)
                  else (case recreate_connection E i p of
                          (Inl e, p) \<Rightarrow> (Inl e, release i p)
                        | (Inr _, p) \<Rightarrow>
                            (case run_func E func i p of
                               (Inr result, p) \<Rightarrow> (Inr result, finish E i p)
                             | (Inl e, p) \<Rightarrow> (Inl e, release i p)))
              | (Inl e, p) \<Rightarrow> (Inl e, release i p)) = (r, q)"
    using assms r3 by (simp add: execute_def a en Let_def split: sum.splits)
  show thesis
  proof (cases "r3 = Inl broken_connection \<and> should_retry_once rc")
    case False
    with ex s3 a that show ?thesis by (auto split: sum.splits pg_exn.splits if_splits)
  next
    case True
    then have d3: "pg_db p3 = pg_db p1" using s3 by (simp add: outcome_broken)
    obtain r4 p4 where rc: "recreate_connection E i p3 = (r4, p4)" by fastforce
    have n4: "same_pool p1 p4" "pg_db p4 = pg_db p1"
      using recreate_no_effect [OF rc] s3(1) d3 by (simp_all add: no_effect_def same_pool_def)
    show ?thesis
    proof (cases r4)
      case (Inl e)
      with ex True rc have "r = Inl e" "q = release i p4" by simp_all
      with n4 show ?thesis by (intro that [OF a n4(1)]) simp_all
    next
      case (Inr u)
      obtain r5 p5 where rf: "run_func E func i p4 = (r5, p5)" by fastforce
      have s5: "same_pool p1 p5" "outcome func r5 (pg_db p1) (pg_db p5)"
        using run_func_outcome [OF rf] n4 by (simp_all add: same_pool_def)
      from ex True rc Inr rf have "r = r5 \<and> (q = finish E i p5 \<or> q = release i p5)"
        by (auto split: sum.splits)
      with s5 show ?thesis by (intro that [OF a s5(1)]) simp_all
    qed
  qed
qed

lemma execute_contract:
  assumes "execute E func rc p = Some (r, q)"
  shows "pg_free_list q = pg_free_list p \<and> length (pg_connections q) = length (pg_connections p) \<and>
    outcome func r (pg_db p) (pg_db q)"
proof -
  obtain i p1 p' where "acquire p = Some (i, p1)" "same_pool p1 p'" "outcome func r (pg_db p1) (pg_db p')"
    "q = finish E i p' \<or> q = release i p'" by (rule execute_cases [OF assms])
  then show ?thesis
    by (auto simp: acquire_def same_pool_def finish_effect release_def split: if_splits)
qed

lemma execute_returns: "pg_free_list p \<noteq> [] \<Longrightarrow> \<exists>r q. execute E func rc p = Some (r, q)"
  by (simp add: execute_def acquire_def Let_def)

section \<open>What the handlers rely on\<close>

locale transactor =
  fixes exec :: "('db, 'a) DbFunc \<Rightarrow> 's \<Rightarrow> ((pg_exn + 'a) \<times> 's) option"
    and contents :: "'s \<Rightarrow> 'db"
    and ready :: "'s \<Rightarrow> bool"
  assumes returns: "ready s \<Longrightarrow> \<exists>r s'. exec func s = Some (r, s')"
    and keeps_ready: "exec func s = Some (r, s') \<Longrightarrow> ready s' = ready s"
    and applied_once: "exec func s = Some (r, s') \<Longrightarrow> outcome func r (contents s) (contents s')"
begin

text \<open>An invariant of the database that the transaction keeps is kept, whatever happens.\<close>

lemma invariant:
  assumes "exec func s = Some (r, s')" "I (contents s)"
    and "\<And>a d. func (contents s) = Inr (a, d) \<Longrightarrow> I d"
  shows "I (contents s')"
  using applied_once [OF assms(1)] assms(2,3) by (auto simp: outcome_def split: sum.splits)

text \<open>A query changes nothing, and its answer is that of the database.\<close>

lemma query:
  assumes "exec (\<lambda>d. Inr (g d, d)) s = Some (r, s')"
  shows "contents s' = contents s \<and> (\<forall>a. r = Inr a \<longrightarrow> a = g (contents s))"
  using applied_once [OF assms] by (auto simp: outcome_def split: sum.splits)

end

interpretation pg: transactor "\<lambda>func. execute E func rc" pg_db "\<lambda>p. pg_free_list p \<noteq> []"
  for E rc
  by unfold_locales (auto dest: execute_contract execute_returns)

section \<open>Several threads\<close>

text \<open>
  The pool as the threads see it: \<open>held\<close> is the list of connections handed out.  A thread may acquire a
  free connection, or give back one that it holds.
\<close>

inductive pool_reach :: "nat \<Rightarrow> nat list \<Rightarrow> nat list \<Rightarrow> bool" for n where
  start: "pool_reach n [0..<n] []"
| take: "pool_reach n free held \<Longrightarrow> acquire ((p :: int PgPool)\<lparr>pg_free_list := free\<rparr>) = Some (i, q) \<Longrightarrow>
    pool_reach n (pg_free_list q) (i # held)"
| give: "pool_reach n free held \<Longrightarrow> i \<in> set held \<Longrightarrow>
    pool_reach n (pg_free_list (release i ((p :: int PgPool)\<lparr>pg_free_list := free\<rparr>))) (remove1 i held)"

lemma pool_reach_inv:
  "pool_reach n free held \<Longrightarrow> distinct (free @ held) \<and> set (free @ held) = {..<n}"
proof (induction rule: pool_reach.induct)
  case start
  then show ?case by auto
next
  case (take free held p i q)
  then have "free = pg_free_list q @ [i]" by (auto simp: acquire_def split: if_splits)
  with take.IH show ?case by auto
next
  case (give free held i p)
  then have d: "distinct free" "distinct held" "set free \<inter> set held = {}" "set free \<union> set held = {..<n}"
    by auto
  then have "set (remove1 i held) = set held - {i}" by simp
  with d give.hyps(2) show ?case by (auto simp: release_def)
qed

section \<open>Properties\<close>


text \<open>A pool of one fresh connection on a database that holds a number, and a transaction adding one.\<close>

definition demo_pool :: "int PgPool" where
  "demo_pool = \<lparr>pg_connections = [\<lparr>sl_conn = Some True, sl_created_at = 0, sl_last_used_at = 0,
     sl_last_validated_at = 0\<rparr>], pg_free_list = [0], pg_db = 5, pg_ev_index = 0, pg_clk_index = 0\<rparr>"

definition demo_incr :: "(int, unit) DbFunc" where
  "demo_incr d = Inr ((), d + 1)"

definition drop_once :: pg_env where
  "drop_once = \<lparr>pe_event = (\<lambda>k. if k = 0 then EvBroken else EvOk), pe_clock = int\<rparr>"

lemmas pg_exec_simps = execute_def acquire_def ensure_connection_def run_func_def recreate_connection_def
  finish_def release_def next_event_def steady_now_def set_slot_def should_retry_once_def
  should_recycle_connection_def should_probe_idle_connection_def kConnectionMaxLifetime_def
  kConnectionValidationIdleThreshold_def

text \<open>A database server that never fails.\<close>

definition quiet :: "pg_env \<Rightarrow> bool" where
  "quiet E \<longleftrightarrow> (\<forall>k. pe_event E k = EvOk)"

lemma ensure_quiet: "quiet E \<Longrightarrow> \<exists>q. ensure_connection E i p = (Inr (), q) \<and> no_effect p q"
proof -
  assume q: "quiet E"
  obtain r p' where e: "ensure_connection E i p = (r, p')" by fastforce
  have "r = Inr ()"
    using e q unfolding ensure_connection_def recreate_connection_def probe_connection_def next_event_def quiet_def
    by (auto simp: Let_def split: if_splits prod.splits)
  with ensure_no_effect [OF e] e show ?thesis by auto
qed

lemma execute_quiet:
  assumes "quiet E" "pg_free_list p \<noteq> []" "f (pg_db p) = Inr (x, d)"
  shows "\<exists>q. execute E f rc p = Some (Inr x, q) \<and> pg_db q = d \<and> pg_free_list q = pg_free_list p"
proof -
  let ?i = "last (pg_free_list p)" and ?p = "p\<lparr>pg_free_list := butlast (pg_free_list p)\<rparr>"
  obtain q where q: "ensure_connection E ?i ?p = (Inr (), q)" "no_effect ?p q" using ensure_quiet [OF assms(1)] by blast
  then have "run_func E f ?i q = (Inr x, q\<lparr>pg_ev_index := Suc (pg_ev_index q), pg_db := d\<rparr>)"
    using assms by (simp add: run_func_def next_event_def quiet_def no_effect_def)
  with q assms(2) show ?thesis
    by (simp add: execute_def acquire_def finish_effect no_effect_def same_pool_def)
qed


text \<open>One dropped connection is invisible to a query or a retry-safe write, while a write that must
  not be repeated is reported as failed and never sent again.\<close>

theorem execute_one_drop:
  assumes "acquire p = Some (i, p1)" and "ensure_connection E i p1 = (Inr (), p2)"
    and "pe_event E (pg_ev_index p2) = EvBroken"
    and "pe_event E (Suc (pg_ev_index p2)) = EvOk" and "pe_event E (Suc (Suc (pg_ev_index p2))) = EvOk"
    and "func (pg_db p) = Inr (a, d)"
  shows "\<exists>q. execute E func rc p = Some (if rc = NonRetryableWrite then Inl broken_connection else Inr a, q) \<and>
    pg_db q = (if rc = NonRetryableWrite then pg_db p else d)"
proof -
  have "pg_db p2 = pg_db p"
    using ensure_no_effect [OF assms(2)] assms(1) by (auto simp: no_effect_def acquire_def split: if_splits)
  then show ?thesis
    using assms by (simp add: execute_def run_func_def recreate_connection_def next_event_def steady_now_def
        set_slot_def should_retry_once_def finish_def release_def Let_def)
qed

theorem execute_one_drop_witness:
  "\<exists>q. execute drop_once demo_incr ReadOnly demo_pool = Some (Inr (), q) \<and> pg_db q = 6"
  using execute_one_drop [of demo_pool 0 _ drop_once _ demo_incr "()" 6 ReadOnly]
  by (simp add: pg_exec_simps drop_once_def demo_pool_def demo_incr_def Let_def)

text \<open>C17. No connection is ever used by two threads: in every reachable state of the pool the free and
  the handed-out connections are pairwise different and together are all connections.\<close>

theorem pool_exclusive:
  assumes "pool_reach n free held"
  shows "distinct (free @ held) \<and> set (free @ held) = {..<n}"
  using assms by (rule pool_reach_inv)

theorem pool_exclusive_witness: "distinct ([0] @ [Suc 0]) \<and> set ([0] @ [Suc 0]) = {..<2 :: nat}"
proof -
  have "pool_reach 2 [0, 1] []" using pool_reach.start [of 2] by (simp add: upt_rec)
  from pool_reach.take [OF this, of demo_pool 1 "demo_pool\<lparr>pg_free_list := [0]\<rparr>"]
  have "pool_reach 2 [0] [1]" by (simp add: acquire_def demo_pool_def)
  from pool_exclusive [OF this] show ?thesis by simp
qed

end
