(* ===== verification/Database.thy ===== *)
theory Database
  imports Loomic_Prelude Pg_Pool
begin

text \<open>
  The relational data of the server: the tables of \<open>src/server/db/migrations\<close> (V1, V3, V5, V6, V7) with
  their primary keys, foreign keys and checks, and the SQL statements and transactions that the C++ sources
  send.  A table is the list of its rows in the order in which the server stores them, which is the order
  of a \<open>SELECT\<close> without \<open>ORDER BY\<close>; properties hold for every such order.  \<open>NOW()\<close>, the textual form of a
  timestamp, the server's acceptance of a text value (its encoding check) and \<open>ILIKE\<close> are parameters,
  kept in the record.  A transaction is a function to an error or to its result and the new
  contents; \<open>txn_bind\<close> and \<open>txn_each\<close> run statements one after the other, the first error undoes all.
\<close>

section \<open>Tables\<close>

record UserRow =
  us_id :: i64
  us_username :: string
  us_email :: string
  us_password_hash :: string
  us_bio :: "string option"
  us_avatar_url :: "string option"
  us_last_seen_at :: "i64 option"

record RefreshRow =
  rt_token :: string
  rt_user_id :: i64
  rt_expires_at :: int

record ConvRow =
  cv_id :: i64
  cv_created_at :: int
  cv_last_activity_at :: int
  cv_last_msg_preview :: "string option"

record GroupRow =
  gr_id :: i64
  gr_name :: string
  gr_creator_id :: i64
  gr_created_at :: int
  gr_last_activity_at :: int
  gr_last_msg_preview :: "string option"
  gr_avatar_url :: "string option"

record GroupMember =
  gm_group_id :: i64
  gm_user_id :: i64
  gm_role :: string

record ReceiptRow =
  mr_conv_id :: i64
  mr_msg_id :: i64
  mr_user_id :: i64
  mr_status :: int
  mr_updated_at :: int

record DeviceToken =
  dt_user_id :: i64
  dt_token :: string
  dt_platform :: string
  dt_updated_at :: int

text \<open>Rows of \<open>conv_members\<close> are pairs (\<open>conv_id\<close>, \<open>user_id\<close>).\<close>

record Db =
  db_users :: "UserRow list"
  db_refresh_tokens :: "RefreshRow list"
  db_conversations :: "ConvRow list"
  db_conv_members :: "(i64 \<times> i64) list"
  db_groups :: "GroupRow list"
  db_group_members :: "GroupMember list"
  db_receipts :: "ReceiptRow list"
  db_device_tokens :: "DeviceToken list"
  db_now :: int
  db_ts_text :: "int \<Rightarrow> string"
  db_text_ok :: "string \<Rightarrow> bool"
  db_ilike :: "string \<Rightarrow> string \<Rightarrow> bool"
  db_collate :: "string \<Rightarrow> int"

type_synonym 'a txn = "(Db, 'a) DbFunc"

section \<open>Sequencing\<close>

definition txn_bind :: "'a txn \<Rightarrow> ('a \<Rightarrow> 'b txn) \<Rightarrow> 'b txn" where
  "txn_bind f g d = (case f d of Inl e \<Rightarrow> Inl e | Inr (a, d') \<Rightarrow> g a d')"

definition txn_return :: "'a \<Rightarrow> 'a txn" where
  "txn_return a d = Inr (a, d)"

fun txn_each :: "('a \<Rightarrow> unit txn) \<Rightarrow> 'a list \<Rightarrow> unit txn" where
  "txn_each f [] = txn_return ()"
| "txn_each f (x # xs) = txn_bind (f x) (\<lambda>_. txn_each f xs)"

definition query :: "(Db \<Rightarrow> 'a) \<Rightarrow> 'a txn" where
  "query g d = Inr (g d, d)"

text \<open>A query with text parameters is refused when the server does not accept one of them.\<close>

definition query_text :: "string list \<Rightarrow> (Db \<Rightarrow> 'a) \<Rightarrow> 'a txn" where
  "query_text ps g d = (if \<forall>s \<in> set ps. db_text_ok d s then Inr (g d, d) else Inl ''invalid text'')"

section \<open>Users and tokens\<close>

definition has_user :: "Db \<Rightarrow> i64 \<Rightarrow> bool" where
  "has_user d uid \<longleftrightarrow> uid \<in> us_id ` set (db_users d)"

definition select_user_taken :: "string \<Rightarrow> string \<Rightarrow> i64 list txn" where
  "select_user_taken un em =
     query_text [un, em] (\<lambda>d. map us_id (filter (\<lambda>u. us_username u = un \<or> us_email u = em) (db_users d)))"

definition insert_user :: "i64 \<Rightarrow> string \<Rightarrow> string \<Rightarrow> string \<Rightarrow> unit txn" where
  "insert_user uid un em h d =
     (if \<not> (db_text_ok d un \<and> db_text_ok d em \<and> db_text_ok d h) then Inl ''invalid text''
      else if \<exists>u \<in> set (db_users d). us_id u = uid \<or> us_username u = un \<or> us_email u = em
      then Inl ''unique_violation''
      else Inr ((), d\<lparr>db_users := db_users d @
        [\<lparr>us_id = uid, us_username = un, us_email = em, us_password_hash = h,
          us_bio = None, us_avatar_url = None, us_last_seen_at = None\<rparr>]\<rparr>))"

definition select_credentials :: "string \<Rightarrow> (i64 \<times> string) list txn" where
  "select_credentials un =
     query_text [un] (\<lambda>d. map (\<lambda>u. (us_id u, us_password_hash u)) (filter (\<lambda>u. us_username u = un) (db_users d)))"

text \<open>\<open>NOW() + INTERVAL '30 days'\<close>, in microseconds.\<close>

definition insert_refresh_token :: "string \<Rightarrow> i64 \<Rightarrow> unit txn" where
  "insert_refresh_token rt uid d =
     (if \<not> db_text_ok d rt then Inl ''invalid text''
      else if \<exists>t \<in> set (db_refresh_tokens d). rt_token t = rt then Inl ''unique_violation''
      else if \<not> has_user d uid then Inl ''foreign_key_violation''
      else Inr ((), d\<lparr>db_refresh_tokens := db_refresh_tokens d @
        [\<lparr>rt_token = rt, rt_user_id = uid, rt_expires_at = db_now d + 30 * 86400 * 1000000\<rparr>]\<rparr>))"

definition delete_refresh_token :: "string \<Rightarrow> i64 \<Rightarrow> unit txn" where
  "delete_refresh_token rt uid d =
     (if \<not> db_text_ok d rt then Inl ''invalid text''
      else Inr ((), d\<lparr>db_refresh_tokens :=
        filter (\<lambda>t. \<not> (rt_token t = rt \<and> rt_user_id t = uid)) (db_refresh_tokens d)\<rparr>))"

definition select_refresh_token :: "string \<Rightarrow> i64 list txn" where
  "select_refresh_token ot =
     query_text [ot] (\<lambda>d. map rt_user_id
       (filter (\<lambda>t. rt_token t = ot \<and> db_now d < rt_expires_at t) (db_refresh_tokens d)))"

definition rotate_refresh_token :: "string \<Rightarrow> string \<Rightarrow> i64 \<Rightarrow> unit txn" where
  "rotate_refresh_token ot nr uid =
     txn_bind (\<lambda>d. if \<not> db_text_ok d ot then Inl ''invalid text''
                 else Inr ((), d\<lparr>db_refresh_tokens :=
                   filter (\<lambda>t. rt_token t \<noteq> ot) (db_refresh_tokens d)\<rparr>))
       (\<lambda>_. insert_refresh_token nr uid)"

definition update_last_seen :: "i64 \<Rightarrow> i64 \<Rightarrow> unit txn" where
  "update_last_seen uid ts_ms d =
     Inr ((), d\<lparr>db_users :=
       map (\<lambda>u. if us_id u = uid then u\<lparr>us_last_seen_at := Some ts_ms\<rparr> else u) (db_users d)\<rparr>)"

definition select_last_seen :: "i64 \<Rightarrow> i64 option list txn" where
  "select_last_seen uid =
     query (\<lambda>d. map us_last_seen_at (filter (\<lambda>u. us_id u = uid) (db_users d)))"

definition select_profile :: "i64 \<Rightarrow> (i64 \<times> string \<times> string option \<times> string option) list txn" where
  "select_profile uid =
     query (\<lambda>d. map (\<lambda>u. (us_id u, us_username u, us_bio u, us_avatar_url u))
       (filter (\<lambda>u. us_id u = uid) (db_users d)))"

definition search_users :: "string \<Rightarrow> nat \<Rightarrow> (i64 \<times> string) list txn" where
  "search_users q limit =
     query_text [q] (\<lambda>d. take limit (map (\<lambda>u. (us_id u, us_username u))
       (filter (\<lambda>u. db_ilike d (us_username u) (q @ ''%'')) (db_users d))))"

definition coalesce :: "'a option \<Rightarrow> 'a option \<Rightarrow> 'a option" where
  "coalesce a b = (case a of None \<Rightarrow> b | Some x \<Rightarrow> Some x)"

definition update_profile :: "i64 \<Rightarrow> string option \<Rightarrow> string option \<Rightarrow> unit txn" where
  "update_profile uid bio avatar_url d =
     (if (\<exists>s. bio = Some s \<and> \<not> db_text_ok d s) \<or> (\<exists>s. avatar_url = Some s \<and> \<not> db_text_ok d s)
      then Inl ''invalid text''
      else Inr ((), d\<lparr>db_users := map (\<lambda>u. if us_id u = uid
          then u\<lparr>us_bio := coalesce bio (us_bio u), us_avatar_url := coalesce avatar_url (us_avatar_url u)\<rparr>
          else u) (db_users d)\<rparr>))"

section \<open>Conversations\<close>

definition has_conv :: "Db \<Rightarrow> i64 \<Rightarrow> bool" where
  "has_conv d c \<longleftrightarrow> c \<in> cv_id ` set (db_conversations d)"

definition new_conv :: "Db \<Rightarrow> i64 \<Rightarrow> ConvRow" where
  "new_conv d c = \<lparr>cv_id = c, cv_created_at = db_now d, cv_last_activity_at = db_now d,
     cv_last_msg_preview = None\<rparr>"

definition insert_conversation :: "i64 \<Rightarrow> string txn" where
  "insert_conversation c d =
     (if has_conv d c then Inl ''unique_violation''
      else Inr (db_ts_text d (db_now d), d\<lparr>db_conversations := db_conversations d @ [new_conv d c]\<rparr>))"

definition insert_conversation_if_absent :: "i64 \<Rightarrow> unit txn" where
  "insert_conversation_if_absent c d =
     Inr ((), if has_conv d c then d
              else d\<lparr>db_conversations := db_conversations d @ [new_conv d c]\<rparr>)"

text \<open>\<open>INSERT INTO conv_members \<dots> ON CONFLICT DO NOTHING\<close>: a duplicate is skipped, a missing parent row is
  an error.\<close>

definition insert_conv_member :: "i64 \<Rightarrow> i64 \<Rightarrow> unit txn" where
  "insert_conv_member c u d =
     (if (c, u) \<in> set (db_conv_members d) then Inr ((), d)
      else if \<not> has_conv d c \<or> \<not> has_user d u then Inl ''foreign_key_violation''
      else Inr ((), d\<lparr>db_conv_members := db_conv_members d @ [(c, u)]\<rparr>))"

definition upsert_conv_members_txn :: "i64 \<Rightarrow> i64 \<Rightarrow> i64 \<Rightarrow> unit txn" where
  "upsert_conv_members_txn c user_a user_b =
     txn_bind (insert_conversation_if_absent c)
       (\<lambda>_. txn_each (insert_conv_member c) [user_a, user_b])"

definition create_conversation_txn :: "i64 \<Rightarrow> i64 list \<Rightarrow> string txn" where
  "create_conversation_txn c members =
     txn_bind (insert_conversation c)
       (\<lambda>created_at. txn_bind (txn_each (insert_conv_member c) members) (\<lambda>_. txn_return created_at))"

definition select_conv_peer :: "i64 \<Rightarrow> i64 \<Rightarrow> i64 list txn" where
  "select_conv_peer c sender =
     query (\<lambda>d. take 1 (map snd (filter (\<lambda>(cv, u). cv = c \<and> u \<noteq> sender) (db_conv_members d))))"

definition select_conv_members :: "i64 \<Rightarrow> i64 list txn" where
  "select_conv_members c = query (\<lambda>d. map snd (filter (\<lambda>(cv, u). cv = c) (db_conv_members d)))"

definition select_conv_members_except :: "i64 \<Rightarrow> i64 \<Rightarrow> i64 list txn" where
  "select_conv_members_except c user =
     query (\<lambda>d. map snd (filter (\<lambda>(cv, u). cv = c \<and> u \<noteq> user) (db_conv_members d)))"

definition select_is_conv_member :: "i64 \<Rightarrow> i64 \<Rightarrow> bool txn" where
  "select_is_conv_member c u = query (\<lambda>d. (c, u) \<in> set (db_conv_members d))"

section \<open>Groups\<close>

definition has_group :: "Db \<Rightarrow> i64 \<Rightarrow> bool" where
  "has_group d g \<longleftrightarrow> g \<in> gr_id ` set (db_groups d)"

definition in_group :: "Db \<Rightarrow> i64 \<Rightarrow> i64 \<Rightarrow> bool" where
  "in_group d g u \<longleftrightarrow> (g, u) \<in> (\<lambda>m. (gm_group_id m, gm_user_id m)) ` set (db_group_members d)"

definition insert_group :: "i64 \<Rightarrow> string \<Rightarrow> i64 \<Rightarrow> string txn" where
  "insert_group g name creator d =
     (if \<not> db_text_ok d name then Inl ''invalid text''
      else if has_group d g then Inl ''unique_violation''
      else if \<not> has_user d creator then Inl ''foreign_key_violation''
      else Inr (db_ts_text d (db_now d), d\<lparr>db_groups := db_groups d @
        [\<lparr>gr_id = g, gr_name = name, gr_creator_id = creator, gr_created_at = db_now d,
          gr_last_activity_at = db_now d, gr_last_msg_preview = None, gr_avatar_url = None\<rparr>]\<rparr>))"

definition insert_group_member :: "i64 \<Rightarrow> i64 \<Rightarrow> string \<Rightarrow> unit txn" where
  "insert_group_member g u role d =
     (if role \<noteq> ''admin'' \<and> role \<noteq> ''member'' then Inl ''check_violation''
      else if in_group d g u then Inl ''unique_violation''
      else if \<not> has_group d g \<or> \<not> has_user d u then Inl ''foreign_key_violation''
      else Inr ((), d\<lparr>db_group_members := db_group_members d @
        [\<lparr>gm_group_id = g, gm_user_id = u, gm_role = role\<rparr>]\<rparr>))"

definition insert_group_member_if_absent :: "i64 \<Rightarrow> i64 \<Rightarrow> unit txn" where
  "insert_group_member_if_absent g u d =
     (if in_group d g u then Inr ((), d) else insert_group_member g u ''member'' d)"

definition create_group_txn :: "i64 \<Rightarrow> string \<Rightarrow> i64 \<Rightarrow> i64 list \<Rightarrow> string txn" where
  "create_group_txn g name creator member_ids =
     txn_bind (insert_group g name creator)
       (\<lambda>created_at. txn_bind (insert_group_member g creator ''admin'')
          (\<lambda>_. txn_bind (txn_each (insert_group_member_if_absent g) member_ids)
             (\<lambda>_. txn_return created_at)))"

definition select_group :: "i64 \<Rightarrow> (i64 \<times> string \<times> i64 \<times> string) list txn" where
  "select_group g =
     query (\<lambda>d. map (\<lambda>r. (gr_id r, gr_name r, gr_creator_id r, db_ts_text d (gr_created_at r)))
       (filter (\<lambda>r. gr_id r = g) (db_groups d)))"

text \<open>\<open>group_members gm JOIN users u ON u.id = gm.user_id\<close>\<close>

definition select_group_roster :: "i64 \<Rightarrow> (i64 \<times> string \<times> string) list txn" where
  "select_group_roster g =
     query (\<lambda>d. concat (map (\<lambda>m. map (\<lambda>u. (gm_user_id m, us_username u, gm_role m))
         (filter (\<lambda>u. us_id u = gm_user_id m) (db_users d)))
       (filter (\<lambda>m. gm_group_id m = g) (db_group_members d))))"

definition select_role :: "i64 \<Rightarrow> i64 \<Rightarrow> string list txn" where
  "select_role g u =
     query (\<lambda>d. map gm_role (filter (\<lambda>m. gm_group_id m = g \<and> gm_user_id m = u) (db_group_members d)))"

definition select_group_members :: "i64 \<Rightarrow> i64 list txn" where
  "select_group_members g =
     query (\<lambda>d. map gm_user_id (filter (\<lambda>m. gm_group_id m = g) (db_group_members d)))"

definition select_group_members_except :: "i64 \<Rightarrow> i64 \<Rightarrow> i64 list txn" where
  "select_group_members_except g user =
     query (\<lambda>d. map gm_user_id (filter (\<lambda>m. gm_group_id m = g \<and> gm_user_id m \<noteq> user) (db_group_members d)))"

definition select_is_group_member :: "i64 \<Rightarrow> i64 \<Rightarrow> bool txn" where
  "select_is_group_member g u = query (\<lambda>d. in_group d g u)"

definition update_group_name :: "i64 \<Rightarrow> string \<Rightarrow> unit txn" where
  "update_group_name g name d =
     (if \<not> db_text_ok d name then Inl ''invalid text''
      else Inr ((), d\<lparr>db_groups := map (\<lambda>r. if gr_id r = g then r\<lparr>gr_name := name\<rparr> else r) (db_groups d)\<rparr>))"

definition delete_group_member :: "i64 \<Rightarrow> i64 \<Rightarrow> unit txn" where
  "delete_group_member g u d =
     Inr ((), d\<lparr>db_group_members :=
       filter (\<lambda>m. \<not> (gm_group_id m = g \<and> gm_user_id m = u)) (db_group_members d)\<rparr>)"

section \<open>The list of conversations\<close>

datatype ConvItem =
    DmItem (item_id: i64) (item_activity: string) (item_preview: "string option")
      i64 string "string option" "string option"
  | GroupItem (item_id: i64) (item_activity: string) (item_preview: "string option")
      string "string option"

text \<open>The two halves of the \<open>UNION ALL\<close>.  \<open>ORDER BY 3 DESC\<close> compares the texts of \<open>last_activity_at\<close> by the
  server's collation, here a number per text.\<close>

definition dm_items :: "i64 \<Rightarrow> Db \<Rightarrow> ConvItem list" where
  "dm_items u d =
     concat (map (\<lambda>(cm_conv, _).
       concat (map (\<lambda>c.
         concat (map (\<lambda>(_, other).
           map (\<lambda>p. DmItem (cv_id c) (db_ts_text d (cv_last_activity_at c)) (cv_last_msg_preview c)
                  (us_id p) (us_username p) (us_bio p) (us_avatar_url p))
             (filter (\<lambda>p. us_id p = other) (db_users d)))
           (filter (\<lambda>(oc, ou). oc = cm_conv \<and> ou \<noteq> u) (db_conv_members d))))
         (filter (\<lambda>c. cv_id c = cm_conv) (db_conversations d))))
       (filter (\<lambda>(_, m). m = u) (db_conv_members d)))"

definition group_items :: "i64 \<Rightarrow> Db \<Rightarrow> ConvItem list" where
  "group_items u d =
     concat (map (\<lambda>gm.
       map (\<lambda>g. GroupItem (gr_id g) (db_ts_text d (gr_last_activity_at g)) (gr_last_msg_preview g)
              (gr_name g) (gr_avatar_url g))
         (filter (\<lambda>g. gr_id g = gm_group_id gm) (db_groups d)))
       (filter (\<lambda>gm. gm_user_id gm = u) (db_group_members d)))"

definition select_conversations :: "i64 \<Rightarrow> ConvItem list txn" where
  "select_conversations u =
     query (\<lambda>d. sort_key (\<lambda>i. - db_collate d (item_activity i)) (dm_items u d @ group_items u d))"

section \<open>Activity, receipts and devices\<close>

definition update_activity_txn :: "i64 \<Rightarrow> bool \<Rightarrow> string \<Rightarrow> unit txn" where
  "update_activity_txn c is_group preview d =
     (if \<not> db_text_ok d preview then Inl ''invalid text''
      else if is_group
      then Inr ((), d\<lparr>db_groups := map (\<lambda>r. if gr_id r = c
              then r\<lparr>gr_last_activity_at := db_now d, gr_last_msg_preview := Some preview\<rparr> else r) (db_groups d)\<rparr>)
      else Inr ((), d\<lparr>db_conversations := map (\<lambda>r. if cv_id r = c
              then r\<lparr>cv_last_activity_at := db_now d, cv_last_msg_preview := Some preview\<rparr> else r)
              (db_conversations d)\<rparr>))"

definition mark_receipts_read :: "i64 \<Rightarrow> i64 \<Rightarrow> unit txn" where
  "mark_receipts_read c u d =
     Inr ((), d\<lparr>db_receipts := map (\<lambda>r. if mr_conv_id r = c \<and> mr_user_id r = u \<and> mr_status r < 2
         then r\<lparr>mr_status := 2, mr_updated_at := db_now d\<rparr> else r) (db_receipts d)\<rparr>)"

definition upsert_device_token :: "i64 \<Rightarrow> string \<Rightarrow> string \<Rightarrow> unit txn" where
  "upsert_device_token u token platform d =
     (if \<not> (db_text_ok d token \<and> db_text_ok d platform) then Inl ''invalid text''
      else if platform \<notin> {''ios'', ''android'', ''web''} then Inl ''check_violation''
      else if \<exists>t \<in> set (db_device_tokens d). dt_user_id t = u \<and> dt_token t = token
      then Inr ((), d\<lparr>db_device_tokens := map (\<lambda>t. if dt_user_id t = u \<and> dt_token t = token
             then t\<lparr>dt_platform := platform, dt_updated_at := db_now d\<rparr> else t) (db_device_tokens d)\<rparr>)
      else if \<not> has_user d u then Inl ''foreign_key_violation''
      else Inr ((), d\<lparr>db_device_tokens := db_device_tokens d @
        [\<lparr>dt_user_id = u, dt_token = token, dt_platform = platform, dt_updated_at = db_now d\<rparr>]\<rparr>))"

definition delete_device_token :: "i64 \<Rightarrow> string \<Rightarrow> unit txn" where
  "delete_device_token u token d =
     (if \<not> db_text_ok d token then Inl ''invalid text''
      else Inr ((), d\<lparr>db_device_tokens :=
        filter (\<lambda>t. \<not> (dt_user_id t = u \<and> dt_token t = token)) (db_device_tokens d)\<rparr>))"

section \<open>The integrity constraints of the schema\<close>

definition user_ids :: "Db \<Rightarrow> i64 set" where
  "user_ids d = set (map us_id (db_users d))"

definition users_ok :: "UserRow list \<Rightarrow> bool" where
  "users_ok us \<longleftrightarrow> distinct (map us_id us) \<and> distinct (map us_username us) \<and> distinct (map us_email us)"

definition tokens_ok :: "i64 set \<Rightarrow> RefreshRow list \<Rightarrow> bool" where
  "tokens_ok ids ts \<longleftrightarrow> distinct (map rt_token ts) \<and> (\<forall>t \<in> set ts. rt_user_id t \<in> ids)"

definition convs_ok :: "i64 set \<Rightarrow> ConvRow list \<Rightarrow> (i64 \<times> i64) list \<Rightarrow> bool" where
  "convs_ok ids cs ms \<longleftrightarrow> distinct (map cv_id cs) \<and> distinct ms \<and>
     (\<forall>(c, u) \<in> set ms. c \<in> set (map cv_id cs) \<and> u \<in> ids)"

definition groups_ok :: "i64 set \<Rightarrow> GroupRow list \<Rightarrow> bool" where
  "groups_ok ids gs \<longleftrightarrow> distinct (map gr_id gs) \<and> (\<forall>g \<in> set gs. gr_creator_id g \<in> ids)"

definition group_ids :: "Db \<Rightarrow> i64 set" where
  "group_ids d = set (map gr_id (db_groups d))"

definition members_ok :: "i64 set \<Rightarrow> i64 set \<Rightarrow> GroupMember list \<Rightarrow> bool" where
  "members_ok ids gids ms \<longleftrightarrow> distinct (map (\<lambda>m. (gm_group_id m, gm_user_id m)) ms) \<and>
     (\<forall>m \<in> set ms. gm_group_id m \<in> gids \<and> gm_user_id m \<in> ids \<and> gm_role m \<in> {''admin'', ''member''})"

definition receipts_ok :: "ReceiptRow list \<Rightarrow> bool" where
  "receipts_ok rs \<longleftrightarrow> (\<forall>r \<in> set rs. mr_status r \<in> {1, 2})"

definition devices_ok :: "i64 set \<Rightarrow> DeviceToken list \<Rightarrow> bool" where
  "devices_ok ids ts \<longleftrightarrow> distinct (map (\<lambda>t. (dt_user_id t, dt_token t)) ts) \<and>
     (\<forall>t \<in> set ts. dt_user_id t \<in> ids \<and> dt_platform t \<in> {''ios'', ''android'', ''web''})"

definition db_ok :: "Db \<Rightarrow> bool" where
  "db_ok d \<longleftrightarrow> users_ok (db_users d) \<and> tokens_ok (user_ids d) (db_refresh_tokens d) \<and>
     convs_ok (user_ids d) (db_conversations d) (db_conv_members d) \<and>
     groups_ok (user_ids d) (db_groups d) \<and> members_ok (user_ids d) (group_ids d) (db_group_members d) \<and>
     receipts_ok (db_receipts d) \<and> devices_ok (user_ids d) (db_device_tokens d)"

lemma ok_mono:
  "A \<subseteq> B \<Longrightarrow> tokens_ok A ts \<Longrightarrow> tokens_ok B ts" "A \<subseteq> B \<Longrightarrow> convs_ok A cs ms \<Longrightarrow> convs_ok B cs ms"
  "A \<subseteq> B \<Longrightarrow> groups_ok A gs \<Longrightarrow> groups_ok B gs"
  "A \<subseteq> B \<Longrightarrow> C \<subseteq> D \<Longrightarrow> members_ok A C gms \<Longrightarrow> members_ok B D gms"
  "A \<subseteq> B \<Longrightarrow> devices_ok A dts \<Longrightarrow> devices_ok B dts"
  by (auto simp: tokens_ok_def convs_ok_def groups_ok_def members_ok_def devices_ok_def)

definition keeps :: "(Db \<Rightarrow> bool) \<Rightarrow> 'a txn \<Rightarrow> bool" where
  "keeps P f \<longleftrightarrow> (\<forall>d a d'. P d \<longrightarrow> f d = Inr (a, d') \<longrightarrow> P d')"

lemma keepsI: "(\<And>d a d'. P d \<Longrightarrow> f d = Inr (a, d') \<Longrightarrow> P d') \<Longrightarrow> keeps P f"
  by (auto simp: keeps_def)

lemma keepsD: "keeps P f \<Longrightarrow> P d \<Longrightarrow> f d = Inr (a, d') \<Longrightarrow> P d'"
  by (auto simp: keeps_def)

lemma keeps_bind [intro]: "keeps P f \<Longrightarrow> (\<And>a. keeps P (g a)) \<Longrightarrow> keeps P (txn_bind f g)"
proof (rule keepsI)
  fix d b d'
  assume fg: "keeps P f" "\<And>a. keeps P (g a)" and d: "P d" "txn_bind f g d = Inr (b, d')"
  from d(2) obtain a e where "f d = Inr (a, e)" "g a e = Inr (b, d')"
    by (auto simp: txn_bind_def split: sum.splits)
  then show "P d'" using fg d(1) keepsD [of P f d a e] keepsD [of P "g a" e b d'] by blast
qed

lemma keeps_return [intro, simp]: "keeps P (txn_return a)"
  by (simp add: keeps_def txn_return_def)

lemma keeps_each [intro]: "(\<And>x. keeps P (f x)) \<Longrightarrow> keeps P (txn_each f xs)"
  by (induction xs) auto

lemma keeps_query [intro, simp]: "keeps P (query g)" "keeps P (query_text ps g)"
  by (auto simp: keeps_def query_def query_text_def split: if_splits)

text \<open>Updates that keep the key columns, and deletions.\<close>

lemma map_update:
  "(\<And>x. f (g x) = f x) \<Longrightarrow> map f (map (\<lambda>x. if P x then g x else x) xs) = map f xs"
  by (induction xs) auto

lemma distinct_map_filter_key: "distinct (map f xs) \<Longrightarrow> distinct (map f (filter P xs))"
  by (induction xs) auto

lemma db_update_ids [simp]:
  "user_ids (d\<lparr>db_users := us\<rparr>) = set (map us_id us)" "group_ids (d\<lparr>db_users := us\<rparr>) = group_ids d"
  "user_ids (d\<lparr>db_refresh_tokens := ts\<rparr>) = user_ids d" "group_ids (d\<lparr>db_refresh_tokens := ts\<rparr>) = group_ids d"
  "user_ids (d\<lparr>db_conversations := cs\<rparr>) = user_ids d" "group_ids (d\<lparr>db_conversations := cs\<rparr>) = group_ids d"
  "user_ids (d\<lparr>db_conv_members := ms\<rparr>) = user_ids d" "group_ids (d\<lparr>db_conv_members := ms\<rparr>) = group_ids d"
  "user_ids (d\<lparr>db_groups := gs\<rparr>) = user_ids d" "group_ids (d\<lparr>db_groups := gs\<rparr>) = set (map gr_id gs)"
  "user_ids (d\<lparr>db_group_members := gms\<rparr>) = user_ids d" "group_ids (d\<lparr>db_group_members := gms\<rparr>) = group_ids d"
  "user_ids (d\<lparr>db_receipts := rs\<rparr>) = user_ids d" "group_ids (d\<lparr>db_receipts := rs\<rparr>) = group_ids d"
  "user_ids (d\<lparr>db_device_tokens := dts\<rparr>) = user_ids d" "group_ids (d\<lparr>db_device_tokens := dts\<rparr>) = group_ids d"
  by (simp_all add: user_ids_def group_ids_def)

lemma users_update:
  assumes "db_ok d" "map us_id us = map us_id (db_users d)" "map us_username us = map us_username (db_users d)"
    "map us_email us = map us_email (db_users d)"
  shows "db_ok (d\<lparr>db_users := us\<rparr>)"
  using assms by (simp add: db_ok_def users_ok_def user_ids_def del: set_map)

lemma groups_update:
  assumes "db_ok d" "map gr_id gs = map gr_id (db_groups d)" "map gr_creator_id gs = map gr_creator_id (db_groups d)"
  shows "db_ok (d\<lparr>db_groups := gs\<rparr>)"
proof -
  have "(\<forall>g \<in> set gs. gr_creator_id g \<in> A) = (\<forall>g \<in> set (db_groups d). gr_creator_id g \<in> A)" for A
    using arg_cong [OF assms(3), of set] by (metis (no_types, lifting) image_iff list.set_map)
  then show ?thesis
    using assms by (simp add: db_ok_def groups_ok_def group_ids_def del: set_map)
qed

lemma convs_update:
  assumes "db_ok d" "map cv_id cs = map cv_id (db_conversations d)"
  shows "db_ok (d\<lparr>db_conversations := cs\<rparr>)"
  using assms by (simp add: db_ok_def convs_ok_def del: set_map)

lemma keeps_insert_user: "keeps db_ok (insert_user uid un em h)"
proof (rule keepsI)
  fix d a d'
  assume d: "db_ok d" and i: "insert_user uid un em h d = Inr (a, d')"
  from i have d': "user_ids d \<subseteq> user_ids d'" "group_ids d' = group_ids d" "users_ok (db_users d) \<Longrightarrow> users_ok (db_users d')"
    "db_refresh_tokens d' = db_refresh_tokens d" "db_conversations d' = db_conversations d"
    "db_conv_members d' = db_conv_members d" "db_groups d' = db_groups d"
    "db_group_members d' = db_group_members d" "db_receipts d' = db_receipts d"
    "db_device_tokens d' = db_device_tokens d"
    by (auto simp: insert_user_def user_ids_def group_ids_def users_ok_def split: if_splits)
  then show "db_ok d'" using d unfolding db_ok_def by (auto intro: ok_mono)
qed

lemma keeps_insert_refresh_token: "keeps db_ok (insert_refresh_token rt uid)"
  by (rule keepsI)
    (auto simp: db_ok_def insert_refresh_token_def has_user_def user_ids_def tokens_ok_def split: if_splits)

lemma keeps_delete_refresh_token: "keeps db_ok (delete_refresh_token rt uid)"
  by (rule keepsI) (auto simp: db_ok_def delete_refresh_token_def user_ids_def group_ids_def tokens_ok_def
      distinct_map_filter_key split: if_splits)

lemma keeps_rotate_refresh_token: "keeps db_ok (rotate_refresh_token ot nr uid)"
  unfolding rotate_refresh_token_def
  by (intro keeps_bind keeps_insert_refresh_token keepsI)
    (auto simp: db_ok_def user_ids_def group_ids_def tokens_ok_def distinct_map_filter_key split: if_splits)

lemma keeps_update_last_seen: "keeps db_ok (update_last_seen uid ts)"
  by (rule keepsI) (auto simp: update_last_seen_def intro!: users_update simp del: map_map simp: map_update)

lemma keeps_update_profile: "keeps db_ok (update_profile uid bio av)"
  by (rule keepsI) (auto simp: update_profile_def intro!: users_update simp del: map_map simp: map_update split: if_splits)

lemma keeps_insert_conversation: "keeps db_ok (insert_conversation c)"
  by (rule keepsI) (auto simp: db_ok_def insert_conversation_def has_conv_def new_conv_def user_ids_def
      group_ids_def convs_ok_def split: if_splits)

lemma keeps_insert_conversation_if_absent: "keeps db_ok (insert_conversation_if_absent c)"
  by (rule keepsI) (auto simp: db_ok_def insert_conversation_if_absent_def has_conv_def new_conv_def user_ids_def
      group_ids_def convs_ok_def split: if_splits)

lemma keeps_insert_conv_member: "keeps db_ok (insert_conv_member c u)"
  by (rule keepsI) (auto simp: db_ok_def insert_conv_member_def has_conv_def has_user_def user_ids_def
      group_ids_def convs_ok_def split: if_splits)

lemma keeps_insert_group: "keeps db_ok (insert_group g name cr)"
  by (rule keepsI) (auto simp: db_ok_def insert_group_def has_group_def has_user_def user_ids_def
      group_ids_def groups_ok_def members_ok_def split: if_splits)

lemma keeps_insert_group_member: "keeps db_ok (insert_group_member g u role)"
  by (rule keepsI) (auto simp: db_ok_def insert_group_member_def has_group_def has_user_def in_group_def user_ids_def
      group_ids_def members_ok_def split: if_splits)

lemma keeps_insert_group_member_if_absent: "keeps db_ok (insert_group_member_if_absent g u)"
  using keeps_insert_group_member [of g u "''member''"]
  by (auto simp: keeps_def insert_group_member_if_absent_def)

lemma keeps_update_group_name: "keeps db_ok (update_group_name g name)"
  by (rule keepsI)
    (auto simp: update_group_name_def intro!: groups_update simp del: map_map simp: map_update split: if_splits)

lemma keeps_delete_group_member: "keeps db_ok (delete_group_member g u)"
  by (rule keepsI) (auto simp: db_ok_def delete_group_member_def user_ids_def group_ids_def members_ok_def
      distinct_map_filter_key)

lemma keeps_update_activity: "keeps db_ok (update_activity_txn c is_group preview)"
  by (rule keepsI)
    (auto simp: update_activity_txn_def intro!: groups_update convs_update simp del: map_map simp: map_update
      split: if_splits)

lemma keeps_mark_receipts_read: "keeps db_ok (mark_receipts_read c u)"
  by (rule keepsI) (auto simp: db_ok_def mark_receipts_read_def receipts_ok_def)

lemma db_ok_devices: "db_ok d \<Longrightarrow> devices_ok (user_ids d) ts \<Longrightarrow> db_ok (d\<lparr>db_device_tokens := ts\<rparr>)"
  by (simp add: db_ok_def)

lemma keeps_upsert_device_token: "keeps db_ok (upsert_device_token u token platform)"
proof (rule keepsI)
  fix d a d'
  assume d: "db_ok d" and i: "upsert_device_token u token platform d = Inr (a, d')"
  let ?ts = "map (\<lambda>t. if dt_user_id t = u \<and> dt_token t = token
    then t\<lparr>dt_platform := platform, dt_updated_at := db_now d\<rparr> else t) (db_device_tokens d)"
  have "map (\<lambda>t. (dt_user_id t, dt_token t)) ?ts = map (\<lambda>t. (dt_user_id t, dt_token t)) (db_device_tokens d)"
    by (rule map_update) simp
  then have m: "distinct (map (\<lambda>t. (dt_user_id t, dt_token t)) ?ts)"
    using d unfolding db_ok_def devices_ok_def by (simp del: map_map)
  have dev: "devices_ok (user_ids d) (db_device_tokens d)" using d by (simp add: db_ok_def)
  from i consider "d' = d\<lparr>db_device_tokens := ?ts\<rparr>" "platform \<in> {''ios'', ''android'', ''web''}"
    | "d' = d\<lparr>db_device_tokens := db_device_tokens d @
        [\<lparr>dt_user_id = u, dt_token = token, dt_platform = platform, dt_updated_at = db_now d\<rparr>]\<rparr>"
      "platform \<in> {''ios'', ''android'', ''web''}" "has_user d u"
      "\<not> (\<exists>t \<in> set (db_device_tokens d). dt_user_id t = u \<and> dt_token t = token)"
    unfolding upsert_device_token_def
    by (simp only: split: if_splits) (simp_all only: sum.distinct sum.inject prod.inject, auto)
  then have "devices_ok (user_ids d) (db_device_tokens d') \<and>
      d' = d\<lparr>db_device_tokens := db_device_tokens d'\<rparr>"
  proof cases
    case 1
    have "dt_user_id t \<in> user_ids d \<and> dt_platform t \<in> {''ios'', ''android'', ''web''}" if "t \<in> set ?ts" for t
      using that dev 1(2) by (auto simp: devices_ok_def)
    then have "devices_ok (user_ids d) ?ts" using m unfolding devices_ok_def by blast
    then show ?thesis unfolding 1(1) by simp
  next
    case 2
    then show ?thesis using dev by (auto simp: devices_ok_def has_user_def user_ids_def)
  qed
  then show "db_ok d'" using d by (metis db_ok_devices)
qed

lemma keeps_delete_device_token: "keeps db_ok (delete_device_token u token)"
  by (rule keepsI) (auto simp: db_ok_def delete_device_token_def devices_ok_def distinct_map_filter_key split: if_splits)

text \<open>Every transaction that the server runs keeps the constraints.\<close>

lemmas keeps_statements = keeps_insert_user keeps_insert_refresh_token keeps_delete_refresh_token
  keeps_rotate_refresh_token keeps_update_last_seen keeps_update_profile keeps_insert_conversation
  keeps_insert_conversation_if_absent keeps_insert_conv_member keeps_insert_group keeps_insert_group_member
  keeps_insert_group_member_if_absent keeps_update_group_name keeps_delete_group_member
  keeps_update_activity keeps_mark_receipts_read keeps_upsert_device_token keeps_delete_device_token

lemma keeps_composed:
  "keeps db_ok (upsert_conv_members_txn c a b)" "keeps db_ok (create_conversation_txn c ms)"
  "keeps db_ok (create_group_txn g name cr ids)"
  unfolding upsert_conv_members_txn_def create_conversation_txn_def create_group_txn_def
  by (intro keeps_bind keeps_each keeps_return keeps_statements)+

end
