(* ===== verification/Cassandra.thy ===== *)
theory Cassandra
  imports Frames
begin

text \<open>
  \<open>src/server/src/db/CassandraClient.cpp\<close> (the build with \<open>LOOMIC_HAS_CASSANDRA\<close>): the message history.
  The cluster and its driver are a parameter: \<open>cx c s\<close> executes the statement \<open>s\<close> on a cluster in state
  \<open>c\<close> and gives an error text or the rows, and the next state.  A failed \<open>INSERT\<close> may or may not have
  been applied (a time-out).  The locale \<open>cass_cluster\<close> states the documented behaviour of the three
  prepared statements on the table \<open>messages\<close> of \<open>src/server/db/migrations/V4__messages_conv_schema.cql\<close>.
\<close>

section \<open>Data\<close>

record CassRow =
  ca_conv_id :: i64
  ca_msg_id :: i64
  ca_sender_id :: i64
  ca_recipient_id :: i64
  ca_content :: bytes
  ca_msg_type :: u8
  ca_ts :: i64

datatype cass_stmt = INSERT CassRow | SELECT i64 i64 u32 | DELETE i64 i64

type_synonym 'c cass_exec = "'c \<Rightarrow> cass_stmt \<Rightarrow> (string + CassRow list) \<times> 'c"

record DeadLetter =
  dl_row :: CassRow
  dl_payload_b64 :: string
  dl_error :: string

text \<open>The client: whether each statement was prepared and the dead-letter log was opened, what was
  written to that log, and the milliseconds slept.\<close>

record CassandraClient =
  cc_insert_msg :: bool
  cc_select_hist :: bool
  cc_delete_msg :: bool
  cc_has_log :: bool
  cc_dead_letters :: "DeadLetter list"
  cc_slept_ms :: nat

section \<open>Operations\<close>

definition kMaxAttempts :: nat where "kMaxAttempts = 3"

definition backoff_ms :: "nat list" where "backoff_ms = [100, 400, 1600]"

text \<open>The loop of \<open>store_message_async\<close> from attempt \<open>kMaxAttempts - n\<close> on; \<open>Some err\<close>: all attempts failed.\<close>

fun store_attempts ::
  "'c cass_exec \<Rightarrow> CassRow \<Rightarrow> nat \<Rightarrow> string \<Rightarrow> CassandraClient \<Rightarrow> 'c \<Rightarrow> string option \<times> CassandraClient \<times> 'c" where
  "store_attempts cx row 0 last_err cc c = (Some last_err, cc, c)"
| "store_attempts cx row (Suc n) last_err cc c =
     (let attempt = kMaxAttempts - Suc n;
          cc = (if attempt > 0 then cc\<lparr>cc_slept_ms := cc_slept_ms cc + backoff_ms ! (attempt - 1)\<rparr> else cc)
      in case cx c (INSERT row) of
           (Inr _, c) \<Rightarrow> (None, cc, c)
         | (Inl err, c) \<Rightarrow> store_attempts cx row n err cc c)"

definition store_message_async ::
  "'c cass_exec \<Rightarrow> (bytes \<Rightarrow> string) \<Rightarrow> u64 \<Rightarrow> u64 \<Rightarrow> u64 \<Rightarrow> u64 \<Rightarrow> bytes \<Rightarrow> i64 \<Rightarrow> u8 \<Rightarrow>
   CassandraClient \<Rightarrow> 'c \<Rightarrow> CassandraClient \<times> 'c" where
  "store_message_async cx base64_encode conv_id msg_id sender_id recipient_id content ts_ms msg_type cc c =
     (if \<not> cc_insert_msg cc then (cc, c)
      else let row = \<lparr>ca_conv_id = conv_id, ca_msg_id = msg_id, ca_sender_id = sender_id,
                      ca_recipient_id = recipient_id, ca_content = content, ca_msg_type = msg_type,
                      ca_ts = ts_ms\<rparr>
           in case store_attempts cx row kMaxAttempts [] cc c of
                (None, cc, c) \<Rightarrow> (cc, c)
              | (Some last_err, cc, c) \<Rightarrow>
                  (if cc_has_log cc
                   then cc\<lparr>cc_dead_letters := cc_dead_letters cc @
                          [\<lparr>dl_row = row, dl_payload_b64 = base64_encode content, dl_error = last_err\<rparr>]\<rparr>
                   else cc, c))"

definition chat_message_of_row :: "CassRow \<Rightarrow> ChatMessage" where
  "chat_message_of_row row = \<lparr>cm_msg_id = ca_msg_id row, cm_sender_id = ca_sender_id row,
     cm_recipient_id = ca_recipient_id row, cm_content = ca_content row, cm_timestamp_ms = ca_ts row,
     cm_type = scast (ca_msg_type row)\<rparr>"

definition select_history ::
  "'c cass_exec \<Rightarrow> u64 \<Rightarrow> u64 \<Rightarrow> u32 \<Rightarrow> CassandraClient \<Rightarrow> 'c \<Rightarrow> ChatMessage list \<times> 'c" where
  "select_history cx conv_id before_msg_id limit cc c =
     (if \<not> cc_select_hist cc then ([], c)
      else case cx c (SELECT conv_id before_msg_id limit) of
             (Inl err, c) \<Rightarrow> ([], c)
           | (Inr rows, c) \<Rightarrow> (map chat_message_of_row rows, c))"

definition delete_message :: "'c cass_exec \<Rightarrow> u64 \<Rightarrow> u64 \<Rightarrow> CassandraClient \<Rightarrow> 'c \<Rightarrow> 'c" where
  "delete_message cx conv_id msg_id cc c =
     (if \<not> cc_delete_msg cc then c else snd (cx c (DELETE conv_id msg_id)))"

section \<open>The documented behaviour of the cluster\<close>

text \<open>\<open>messages c (conv_id, msg_id)\<close> is the row with that primary key.  \<open>newest_first\<close>: the clustering order.\<close>

type_synonym msg_table = "i64 \<times> i64 \<rightharpoonup> CassRow"

definition newest_first :: "msg_table \<Rightarrow> i64 \<Rightarrow> i64 \<Rightarrow> CassRow list \<Rightarrow> bool" where
  "newest_first m conv before rows \<longleftrightarrow>
     sorted_wrt (\<lambda>a b. sint (ca_msg_id b) < sint (ca_msg_id a)) rows \<and>
     set rows = {r. m (conv, ca_msg_id r) = Some r \<and> sint (ca_msg_id r) < sint before}"

locale cass_cluster =
  fixes cx :: "'c cass_exec"
    and messages :: "'c \<Rightarrow> msg_table"
  assumes insert_ok: "cx c (INSERT row) = (Inr rows, c') \<Longrightarrow>
      messages c' = (messages c)((ca_conv_id row, ca_msg_id row) \<mapsto> row)"
    and insert_failed: "cx c (INSERT row) = (Inl err, c') \<Longrightarrow>
      messages c' = messages c \<or> messages c' = (messages c)((ca_conv_id row, ca_msg_id row) \<mapsto> row)"
    and select_ok: "cx c (SELECT conv before limit) = (Inr rows, c') \<Longrightarrow> 0 < sint limit \<Longrightarrow>
      \<exists>all. newest_first (messages c) conv before all \<and> rows = take (unat limit) all"
    and select_pure: "cx c (SELECT conv before limit) = (r, c') \<Longrightarrow> messages c' = messages c"
    and delete_ok: "cx c (DELETE conv msg) = (Inr rows, c') \<Longrightarrow> messages c' = (messages c)((conv, msg) := None)"
begin

lemma store_attempts_effect:
  assumes "store_attempts cx row n err cc c = (r, cc', c')"
  shows "cc_dead_letters cc' = cc_dead_letters cc \<and> cc_has_log cc' = cc_has_log cc \<and>
    cc_insert_msg cc' = cc_insert_msg cc \<and>
    (messages c' = (messages c)((ca_conv_id row, ca_msg_id row) \<mapsto> row) \<or> r \<noteq> None \<and> messages c' = messages c)"
  using assms
proof (induction n arbitrary: err cc c)
  case (Suc n)
  obtain o1 c1 where o1: "cx c (INSERT row) = (o1, c1)" by fastforce
  show ?case
  proof (cases o1)
    case (Inr rows)
    with Suc.prems o1 insert_ok [of c row rows c1] show ?thesis by (auto simp: Let_def split: if_splits)
  next
    case (Inl e)
    have "messages c1 = messages c \<or> messages c1 = (messages c)((ca_conv_id row, ca_msg_id row) \<mapsto> row)"
      using insert_failed [of c row e c1] o1 Inl by simp
    then show ?thesis
      using Suc.prems o1 Inl by (auto simp: Let_def split: if_splits dest!: Suc.IH)
  qed
qed auto

lemma store_effect:
  assumes "cc_insert_msg cc" "cc_has_log cc"
    and "store_message_async cx b64 conv msg sender rcp content ts ty cc c = (cc', c')"
  defines "row \<equiv> \<lparr>ca_conv_id = conv, ca_msg_id = msg, ca_sender_id = sender, ca_recipient_id = rcp,
      ca_content = content, ca_msg_type = ty, ca_ts = ts\<rparr>"
  shows "(messages c' = (messages c)((conv, msg) \<mapsto> row) \<and> cc_dead_letters cc' = cc_dead_letters cc) \<or>
    (\<exists>err. cc_dead_letters cc' = cc_dead_letters cc @
        [\<lparr>dl_row = row, dl_payload_b64 = b64 content, dl_error = err\<rparr>] \<and>
      (messages c' = messages c \<or> messages c' = (messages c)((conv, msg) \<mapsto> row)))"
proof -
  obtain r cc1 c1 where s: "store_attempts cx row kMaxAttempts [] cc c = (r, cc1, c1)" by (metis prod_cases3)
  note e = store_attempts_effect [OF s]
  show ?thesis
    using assms(1,2,3) e s
    by (cases r) (auto simp: store_message_async_def row_def [symmetric] Let_def, auto simp: row_def)
qed

end

section \<open>A reference cluster\<close>

text \<open>A table whose next \<open>cr_failures\<close> statements fail without effect.\<close>

record cass_ref =
  cr_rows :: "CassRow list"
  cr_failures :: nat

definition ref_find :: "CassRow list \<Rightarrow> i64 \<Rightarrow> int \<Rightarrow> CassRow option" where
  "ref_find rows conv i = find (\<lambda>r. ca_conv_id r = conv \<and> sint (ca_msg_id r) = i) rows"

definition ref_ids :: "CassRow list \<Rightarrow> i64 \<Rightarrow> i64 \<Rightarrow> int list" where
  "ref_ids rows conv before =
     rev (sort (remdups (map (\<lambda>r. sint (ca_msg_id r))
       (filter (\<lambda>r. ca_conv_id r = conv \<and> sint (ca_msg_id r) < sint before) rows))))"

definition ref_select :: "CassRow list \<Rightarrow> i64 \<Rightarrow> i64 \<Rightarrow> CassRow list" where
  "ref_select rows conv before = map (\<lambda>i. the (ref_find rows conv i)) (ref_ids rows conv before)"

definition ref_cass :: "cass_ref cass_exec" where
  "ref_cass c s =
     (if cr_failures c > 0 then (Inl ''timeout'', c\<lparr>cr_failures := cr_failures c - 1\<rparr>)
      else case s of
             INSERT row \<Rightarrow> (Inr [], c\<lparr>cr_rows := row # cr_rows c\<rparr>)
           | SELECT conv before limit \<Rightarrow> (Inr (take (unat limit) (ref_select (cr_rows c) conv before)), c)
           | DELETE conv msg \<Rightarrow> (Inr [], c\<lparr>cr_rows :=
               filter (\<lambda>r. \<not> (ca_conv_id r = conv \<and> ca_msg_id r = msg)) (cr_rows c)\<rparr>))"

definition ref_messages :: "cass_ref \<Rightarrow> msg_table" where
  "ref_messages c = (\<lambda>(conv, msg). ref_find (cr_rows c) conv (sint msg))"

lemma sint_inject [simp]: "sint a = sint b \<longleftrightarrow> a = (b :: 'a::len word)"
  by (rule word_eq_iff_signed [symmetric])

lemma ref_find_Some:
  "ref_find rows conv i = Some r \<Longrightarrow> r \<in> set rows \<and> ca_conv_id r = conv \<and> sint (ca_msg_id r) = i"
  by (auto simp: ref_find_def find_Some_iff)

lemma ref_find_ex:
  "(\<exists>r \<in> set rows. ca_conv_id r = conv \<and> sint (ca_msg_id r) = i) \<Longrightarrow> \<exists>r. ref_find rows conv i = Some r"
  by (cases "ref_find rows conv i") (auto simp: ref_find_def find_None_iff)

lemma ref_ids_found: "i \<in> set (ref_ids rows conv before) \<longleftrightarrow> (\<exists>r. ref_find rows conv i = Some r) \<and> i < sint before"
  using ref_find_ex [of rows conv i] by (auto simp: ref_ids_def dest: ref_find_Some)

lemma newest_first_ref: "newest_first (ref_messages c) conv before (ref_select (cr_rows c) conv before)"
proof -
  let ?f = "ref_find (cr_rows c) conv" and ?ids = "ref_ids (cr_rows c) conv before"
  have id: "sint (ca_msg_id (the (?f i))) = i" if "i \<in> set ?ids" for i
    using that ref_find_Some [of "cr_rows c" conv i] by (auto simp: ref_ids_found)
  have "sorted_wrt (<) (rev ?ids)"
    by (simp add: ref_ids_def strict_sorted_iff)
  then have "sorted_wrt (\<lambda>i j. j < i) ?ids" by (simp add: sorted_wrt_rev)
  then have "sorted_wrt (\<lambda>a b. sint (ca_msg_id b) < sint (ca_msg_id a)) (ref_select (cr_rows c) conv before)"
    unfolding ref_select_def sorted_wrt_map by (rule sorted_wrt_mono_rel [rotated]) (simp add: id)
  moreover have "set (ref_select (cr_rows c) conv before) =
      {r. ref_messages c (conv, ca_msg_id r) = Some r \<and> sint (ca_msg_id r) < sint before}"
  proof (intro set_eqI iffI)
    fix r assume "r \<in> set (ref_select (cr_rows c) conv before)"
    then obtain i where i: "i \<in> set ?ids" "r = the (?f i)" by (auto simp: ref_select_def)
    then have "?f i = Some r" "i < sint before" by (auto simp: ref_ids_found)
    then show "r \<in> {r. ref_messages c (conv, ca_msg_id r) = Some r \<and> sint (ca_msg_id r) < sint before}"
      using ref_find_Some [of "cr_rows c" conv i r] by (simp add: ref_messages_def)
  next
    fix r assume "r \<in> {r. ref_messages c (conv, ca_msg_id r) = Some r \<and> sint (ca_msg_id r) < sint before}"
    then have "?f (sint (ca_msg_id r)) = Some r" "sint (ca_msg_id r) \<in> set ?ids"
      by (simp_all add: ref_messages_def ref_ids_found)
    then show "r \<in> set (ref_select (cr_rows c) conv before)" by (force simp: ref_select_def)
  qed
  ultimately show ?thesis by (simp add: newest_first_def)
qed

lemma ref_find_filter: "ref_find (filter (\<lambda>r. ca_conv_id r = c \<longrightarrow> ca_msg_id r \<noteq> m) rows) conv (sint msg) =
    (if conv = c \<and> msg = m then None else ref_find rows conv (sint msg))"
  by (induction rows) (auto simp: ref_find_def)

interpretation ref_cluster: cass_cluster ref_cass ref_messages
proof (unfold_locales, goal_cases)
  case (1 c row rows c')
  then show ?case by (auto simp: ref_cass_def ref_messages_def ref_find_def fun_eq_iff split: if_splits)
next
  case (2 c row err c')
  then show ?case by (auto simp: ref_cass_def ref_messages_def split: if_splits)
next
  case (3 c conv before limit rows c')
  then show ?case using newest_first_ref by (auto simp: ref_cass_def split: if_splits)
next
  case (4 c conv before limit r c')
  then show ?case by (auto simp: ref_cass_def ref_messages_def split: if_splits)
next
  case (5 c conv msg rows c')
  then show ?case by (auto simp: ref_cass_def ref_messages_def fun_eq_iff ref_find_filter split: if_splits)
qed

section \<open>Reading the history page by page\<close>

lemma sorted_wrt_asym_unique:
  assumes "\<And>a b. R a b \<Longrightarrow> \<not> R b a" "sorted_wrt R xs" "sorted_wrt R ys" "set xs = set ys"
  shows "xs = ys"
  using assms(2-4)
proof (induction xs arbitrary: ys)
  case (Cons x xs)
  then obtain y ys' where ys: "ys = y # ys'" by (cases ys) auto
  have "x = y"
  proof (rule ccontr)
    assume "x \<noteq> y"
    then have "x \<in> set ys'" "y \<in> set xs" using Cons.prems(3) ys by auto
    then have "R y x" "R x y" using Cons.prems ys by auto
    then show False using assms(1) by blast
  qed
  moreover have "x \<notin> set xs" "y \<notin> set ys'"
    using Cons.prems(1,2) ys assms(1) [of x x] assms(1) [of y y] by auto
  ultimately have "set xs = set ys'" using Cons.prems(3) ys by (simp add: insert_ident)
  then show ?case using Cons.IH [of ys'] Cons.prems(1,2) ys \<open>x = y\<close> by simp
qed simp

lemma newest_first_unique:
  assumes "newest_first m conv before xs" "newest_first m conv before ys"
  shows "xs = ys"
  using assms sorted_wrt_asym_unique [of "\<lambda>a b. sint (ca_msg_id b) < sint (ca_msg_id a)" xs ys]
  by (auto simp: newest_first_def)

lemma sorted_wrt_last: "sorted_wrt R xs \<Longrightarrow> a \<in> set xs \<Longrightarrow> a = last xs \<or> R a (last xs)"
  by (induction xs) (auto split: if_splits)

text \<open>The messages before the last one of a page are the rest of the history.\<close>

lemma newest_first_next:
  assumes "newest_first m conv before all" "0 < n" "n \<le> length all"
  shows "newest_first m conv (ca_msg_id (last (take n all))) (drop n all)"
proof -
  let ?R = "\<lambda>a b. sint (ca_msg_id b) < sint (ca_msg_id a)"
  have split: "all = take n all @ drop n all" by simp
  have s: "sorted_wrt ?R (take n all)" "sorted_wrt ?R (drop n all)"
    "\<forall>a \<in> set (take n all). \<forall>b \<in> set (drop n all). ?R a b"
    using assms(1) sorted_wrt_append [of ?R "take n all" "drop n all"] by (simp_all add: newest_first_def)
  have last: "last (take n all) \<in> set (take n all)" using assms(2,3) by (intro last_in_set) auto
  have before_last: "sint (ca_msg_id (last (take n all))) \<le> sint (ca_msg_id a)" if "a \<in> set (take n all)" for a
    using sorted_wrt_last [OF s(1) that] by auto
  have lt: "sint (ca_msg_id (last (take n all))) < sint before"
    using last assms(1) in_set_takeD [of _ n all] by (auto simp: newest_first_def)
  have "set (drop n all) = {r. m (conv, ca_msg_id r) = Some r \<and> sint (ca_msg_id r) < sint (ca_msg_id (last (take n all)))}"
  proof (intro set_eqI iffI)
    fix r assume r: "r \<in> set (drop n all)"
    then have "r \<in> set all" by (rule in_set_dropD)
    then show "r \<in> {r. m (conv, ca_msg_id r) = Some r \<and> sint (ca_msg_id r) < sint (ca_msg_id (last (take n all)))}"
      using s(3) last r assms(1) by (auto simp: newest_first_def)
  next
    fix r assume "r \<in> {r. m (conv, ca_msg_id r) = Some r \<and> sint (ca_msg_id r) < sint (ca_msg_id (last (take n all)))}"
    then have r: "r \<in> set all" "sint (ca_msg_id r) < sint (ca_msg_id (last (take n all)))"
      using assms(1) lt by (auto simp: newest_first_def)
    then have "r \<notin> set (take n all)" using before_last by fastforce
    then show "r \<in> set (drop n all)" using r(1) split by (metis Un_iff set_append)
  qed
  with s(2) show ?thesis by (simp add: newest_first_def)
qed

context cass_cluster
begin

lemma paging:
  assumes "cc_select_hist cc" "0 < sint n" "0 < sint k"
    and "cx c (SELECT conv before n) = (Inr page, c1)" "length page = unat n"
    and "cx c1 (SELECT conv (ca_msg_id (last page)) k) = (Inr page2, c2)"
  shows "\<exists>all. newest_first (messages c) conv before all \<and>
    fst (select_history cx conv before n cc c) = map chat_message_of_row (take (unat n) all) \<and>
    fst (select_history cx conv (ca_msg_id (last page)) k cc c1) =
      map chat_message_of_row (take (unat k) (drop (unat n) all))"
proof -
  obtain all where all: "newest_first (messages c) conv before all" "page = take (unat n) all"
    using select_ok [OF assms(4,2)] by blast
  obtain all2 where all2: "newest_first (messages c1) conv (ca_msg_id (last page)) all2" "page2 = take (unat k) all2"
    using select_ok [OF assms(6,3)] by blast
  have "0 < unat n" using assms(2) by (metis gr0I less_irrefl signed_0 unsigned_eq_0_iff)
  moreover have "unat n \<le> length all" using assms(5) all(2) by simp
  ultimately have "newest_first (messages c) conv (ca_msg_id (last page)) (drop (unat n) all)"
    using newest_first_next [OF all(1)] all(2) by simp
  then have "all2 = drop (unat n) all"
    using newest_first_unique all2(1) select_pure [OF assms(4)] by simp
  with all all2 show ?thesis
    using assms(1,4,6) by (auto simp: select_history_def)
qed

end

section \<open>Properties\<close>


definition demo_client :: CassandraClient where
  "demo_client = \<lparr>cc_insert_msg = True, cc_select_hist = True, cc_delete_msg = True, cc_has_log = True,
     cc_dead_letters = [], cc_slept_ms = 0\<rparr>"


text \<open>Paging through the history has no gaps and no repetitions: a full page followed by the page
  before its last message is exactly the next part of the conversation's messages, newest first.\<close>

theorem history_paging:
  assumes "cass_cluster cx messages" and "cc_select_hist cc" and "0 < sint n" and "0 < sint k"
    and "cx c (SELECT conv before n) = (Inr page, c1)" and "length page = unat n"
    and "cx c1 (SELECT conv (ca_msg_id (last page)) k) = (Inr page2, c2)"
  shows "\<exists>all. newest_first (messages c) conv before all \<and>
    fst (select_history cx conv before n cc c) = map chat_message_of_row (take (unat n) all) \<and>
    fst (select_history cx conv (ca_msg_id (last page)) k cc c1) =
      map chat_message_of_row (take (unat k) (drop (unat n) all))"
  using assms(2-7) by (rule cass_cluster.paging [OF assms(1)])

definition demo_row :: "i64 \<Rightarrow> CassRow" where
  "demo_row i = \<lparr>ca_conv_id = 1, ca_msg_id = i, ca_sender_id = 3, ca_recipient_id = 4, ca_content = [5],
     ca_msg_type = 1, ca_ts = 0\<rparr>"

theorem history_paging_witness:
  "\<exists>all. newest_first (ref_messages \<lparr>cr_rows = [demo_row 8, demo_row 9], cr_failures = 0\<rparr>) 1 10 all \<and>
    fst (select_history ref_cass 1 9 1 demo_client \<lparr>cr_rows = [demo_row 8, demo_row 9], cr_failures = 0\<rparr>) =
      map chat_message_of_row (take 1 (drop 1 all))"
proof -
  let ?c = "\<lparr>cr_rows = [demo_row 8, demo_row 9], cr_failures = 0\<rparr>"
  have 1: "ref_cass ?c (SELECT 1 10 1) = (Inr [demo_row 9], ?c)" and 2: "ref_cass ?c (SELECT 1 9 1) = (Inr [demo_row 8], ?c)"
    by (simp_all add: ref_cass_def ref_select_def ref_ids_def ref_find_def demo_row_def)
  show ?thesis
    using history_paging [OF ref_cluster.cass_cluster_axioms, of demo_client 1 1 ?c 1 10 "[demo_row 9]" ?c "[demo_row 8]" ?c] 1 2
    by (auto simp: demo_client_def demo_row_def)
qed

end
