(* ===== verification/Json.thy ===== *)
theory Json
  imports Loomic_Prelude "HOL-Library.AList"
begin

text \<open>
  JSON values as nlohmann/json represents them, and the members of that library which the server uses, as
  a record of parameters: \<open>parse\<close> (\<open>None\<close>: it throws), \<open>dump\<close> (\<open>None\<close>: it throws, on a string that is
  not UTF-8), \<open>value(key, default)\<close> for strings, booleans and JSON values (\<open>None\<close>: it throws, on a value
  that is not an object or a member of another type) and \<open>contains\<close>.  The locale \<open>json_library\<close>
  states the documented laws; \<open>ref_json\<close> is an instance, with the parser as an argument.
\<close>

datatype json =
    JNull | JBool bool | JInt int | JFloat string | JStr string | JArr "json list" | JObj "(string \<times> json) list"

record json_lib =
  jl_parse :: "string \<Rightarrow> json option"
  jl_dump :: "json \<Rightarrow> string option"
  jl_value_str :: "json \<Rightarrow> string \<Rightarrow> string \<Rightarrow> string option"
  jl_value_bool :: "json \<Rightarrow> string \<Rightarrow> bool \<Rightarrow> bool option"
  jl_value_json :: "json \<Rightarrow> string \<Rightarrow> json \<Rightarrow> json option"
  jl_contains :: "json \<Rightarrow> string \<Rightarrow> bool"
  jl_at :: "json \<Rightarrow> string \<Rightarrow> json"

text \<open>All strings inside a value satisfy a predicate.\<close>

fun json_all_str :: "(string \<Rightarrow> bool) \<Rightarrow> json \<Rightarrow> bool" where
  "json_all_str P (JStr s) = P s"
| "json_all_str P (JArr js) = (\<forall>j \<in> set js. json_all_str P j)"
| "json_all_str P (JObj kv) = (\<forall>p \<in> set kv. P (fst p) \<and> json_all_str P (snd p))"
| "json_all_str P _ = True"

definition ascii :: "string \<Rightarrow> bool" where
  "ascii s \<longleftrightarrow> (\<forall>c \<in> set s. (of_char c :: nat) < 128)"

locale json_library =
  fixes L :: json_lib and utf8 :: "string \<Rightarrow> bool"
  assumes value_str: "jl_value_str L (JObj kv) k d =
      (case map_of kv k of None \<Rightarrow> Some d | Some (JStr s) \<Rightarrow> Some s | Some _ \<Rightarrow> None)"
    and value_str_scalar: "(\<And>kv. j \<noteq> JObj kv) \<Longrightarrow> jl_value_str L j k d = None"
    and value_bool: "jl_value_bool L (JObj kv) k b =
      (case map_of kv k of None \<Rightarrow> Some b | Some (JBool c) \<Rightarrow> Some c | Some _ \<Rightarrow> None)"
    and dump_utf8: "jl_dump L j = None \<longleftrightarrow> \<not> json_all_str utf8 j"
    and ascii_utf8: "ascii s \<Longrightarrow> utf8 s"
begin

text \<open>A member that is present with the wrong type makes \<open>value\<close> throw instead of using the default.\<close>

lemma value_wrong_type: "map_of kv k = Some j \<Longrightarrow> (\<And>s. j \<noteq> JStr s) \<Longrightarrow> jl_value_str L (JObj kv) k d = None"
  by (cases j) (force simp: value_str)+

end

lemma ascii_simps [simp]:
  "ascii []" "ascii (c # s) \<longleftrightarrow> (of_char c :: nat) < 128 \<and> ascii s" "ascii (s @ t) \<longleftrightarrow> ascii s \<and> ascii t"
  by (auto simp: ascii_def)

lemma ascii_string_of_nat [simp]: "ascii (string_of_nat n)"
  using string_of_nat_digits [of n] by (auto simp: ascii_def is_digit_def)

lemma ascii_to_string [simp]: "ascii (to_string_u64 n)" "ascii (to_string_i64 i)"
  by (simp_all add: to_string_u64_def to_string_i64_def string_of_int_def)

section \<open>A reference instance\<close>

definition quoted :: "string \<Rightarrow> string" where
  "quoted s = [CHR 0x22] @ concat (map (\<lambda>c. if c = CHR 0x22 \<or> c = CHR 0x5C then [CHR 0x5C, c] else [c]) s) @ [CHR 0x22]"

fun commas :: "string list \<Rightarrow> string" where
  "commas [] = []"
| "commas [s] = s"
| "commas (s # ss) = s @ '','' @ commas ss"

fun render :: "json \<Rightarrow> string" where
  "render JNull = ''null''"
| "render (JBool b) = (if b then ''true'' else ''false'')"
| "render (JInt i) = string_of_int i"
| "render (JFloat s) = s"
| "render (JStr s) = quoted s"
| "render (JArr js) = ''['' @ commas (map render js) @ '']''"
| "render (JObj kv) = ''{'' @ commas (map (\<lambda>p. quoted (fst p) @ '':'' @ render (snd p)) kv) @ ''}''"

definition ref_json :: "(string \<Rightarrow> json option) \<Rightarrow> json_lib" where
  "ref_json parse = \<lparr>jl_parse = parse,
     jl_dump = (\<lambda>j. if json_all_str ascii j then Some (render j) else None),
     jl_value_str = (\<lambda>j k d. case j of
        JObj kv \<Rightarrow> (case map_of kv k of None \<Rightarrow> Some d | Some (JStr s) \<Rightarrow> Some s | Some _ \<Rightarrow> None) | _ \<Rightarrow> None),
     jl_value_bool = (\<lambda>j k d. case j of
        JObj kv \<Rightarrow> (case map_of kv k of None \<Rightarrow> Some d | Some (JBool b) \<Rightarrow> Some b | Some _ \<Rightarrow> None) | _ \<Rightarrow> None),
     jl_value_json = (\<lambda>j k d. case j of
        JObj kv \<Rightarrow> Some (case map_of kv k of None \<Rightarrow> d | Some v \<Rightarrow> v) | _ \<Rightarrow> None),
     jl_contains = (\<lambda>j k. case j of JObj kv \<Rightarrow> map_of kv k \<noteq> None | _ \<Rightarrow> False),
     jl_at = (\<lambda>j k. case j of JObj kv \<Rightarrow> (case map_of kv k of Some v \<Rightarrow> v | None \<Rightarrow> JNull) | _ \<Rightarrow> JNull)\<rparr>"

lemma ref_dump: "json_all_str ascii j \<Longrightarrow> jl_dump (ref_json parse) j = Some (render j)"
  by (simp add: ref_json_def)

interpretation ref_jl: json_library "ref_json parse" ascii
  for parse
proof (unfold_locales, goal_cases)
  case (2 j k d)
  then show ?case by (cases j) (force simp: ref_json_def)+
qed (simp_all add: ref_json_def)

end
