(* ===== verification/Auth_Services.thy ===== *)
theory Auth_Services
  imports Loomic_Prelude
begin

text \<open>
  \<open>src/server/src/auth/JwtService.cpp\<close>, \<open>src/server/src/auth/PasswordService.cpp\<close> and the helpers
  \<open>generate_refresh_token\<close> and \<open>require_auth\<close> of \<open>src/server/src/http/AuthHandler.cpp\<close>.  Parameters:
  jwt-cpp (signing and checking a token at a time in seconds), PBKDF2 (\<open>None\<close>: the OpenSSL call fails)
  and the bytes that \<open>RAND_bytes\<close> delivers.
\<close>

section \<open>Strings\<close>

text \<open>\<open>s.find(c, pos)\<close>, with \<open>None\<close> for \<open>npos\<close>; \<open>after\<close> is \<open>pos + 1\<close>, where \<open>npos + 1\<close> wraps to 0.\<close>

fun find_index :: "(char \<Rightarrow> bool) \<Rightarrow> string \<Rightarrow> nat option" where
  "find_index P [] = None"
| "find_index P (c # s) = (if P c then Some 0 else map_option Suc (find_index P s))"

definition find_char :: "char \<Rightarrow> string \<Rightarrow> nat \<Rightarrow> nat option" where
  "find_char c s pos = map_option ((+) pos) (find_index (\<lambda>x. x = c) (drop pos s))"

definition after :: "nat option \<Rightarrow> nat" where
  "after p = (case p of None \<Rightarrow> 0 | Some i \<Rightarrow> i + 1)"

definition substr :: "string \<Rightarrow> nat \<Rightarrow> nat \<Rightarrow> string" where
  "substr s pos n = take n (drop pos s)"

section \<open>Hexadecimal\<close>

definition hex_digit :: "nat \<Rightarrow> char" where
  "hex_digit n = (if n < 10 then char_of (48 + n) else char_of (87 + n))"

definition to_hex :: "bytes \<Rightarrow> string" where
  "to_hex data = concat (map (\<lambda>b. [hex_digit (unat b div 16), hex_digit (unat b mod 16)]) data)"

definition nibble :: "char \<Rightarrow> int" where
  "nibble c =
     (let k = int (of_char c)
      in if 48 \<le> k \<and> k \<le> 57 then k - 48
         else if 97 \<le> k \<and> k \<le> 102 then k - 97 + 10
         else if 65 \<le> k \<and> k \<le> 70 then k - 65 + 10
         else -1)"

fun from_hex_pairs :: "string \<Rightarrow> bytes option" where
  "from_hex_pairs (a # b # s) =
     (let hi = nibble a; lo = nibble b
      in if hi < 0 \<or> lo < 0 then None
         else map_option ((#) (of_int (hi * 16 + lo))) (from_hex_pairs s))"
| "from_hex_pairs _ = Some []"

definition from_hex :: "string \<Rightarrow> nat \<Rightarrow> bytes option" where
  "from_hex hex len = (if length hex \<noteq> len * 2 then None else from_hex_pairs hex)"

section \<open>PasswordService\<close>

definition ITERATIONS :: int where "ITERATIONS = 100000"
definition SALT_LEN :: nat where "SALT_LEN = 16"
definition KEY_LEN :: nat where "KEY_LEN = 32"

type_synonym pbkdf2 = "string \<Rightarrow> bytes \<Rightarrow> int \<Rightarrow> nat \<Rightarrow> bytes option"

text \<open>\<open>None\<close>: the function throws, because \<open>RAND_bytes\<close> (\<open>salt = None\<close>) or PBKDF2 failed.\<close>

definition password_hash :: "pbkdf2 \<Rightarrow> bytes option \<Rightarrow> string \<Rightarrow> string option" where
  "password_hash pbkdf2 salt plaintext =
     (case salt of
        None \<Rightarrow> None
      | Some salt \<Rightarrow>
          (case pbkdf2 plaintext salt ITERATIONS KEY_LEN of
             None \<Rightarrow> None
           | Some key \<Rightarrow> Some (''pbkdf2:sha256:'' @ string_of_int ITERATIONS @ '':'' @ to_hex salt @ '':'' @ to_hex key)))"

definition password_verify :: "pbkdf2 \<Rightarrow> string \<Rightarrow> string \<Rightarrow> bool" where
  "password_verify pbkdf2 plaintext stored_hash =
     (let p1 = find_char CHR '':'' stored_hash 0;
          p2 = find_char CHR '':'' stored_hash (after p1);
          p3 = find_char CHR '':'' stored_hash (after p2);
          p4 = find_char CHR '':'' stored_hash (after p3)
      in case (p1, p2, p3, p4) of
           (Some p1, Some p2, Some p3, Some p4) \<Rightarrow>
             (case stoi (substr stored_hash (p2 + 1) (p3 - p2 - 1)) of
                None \<Rightarrow> False
              | Some iterations \<Rightarrow>
                  (case from_hex (substr stored_hash (p3 + 1) (p4 - p3 - 1)) SALT_LEN of
                     None \<Rightarrow> False
                   | Some salt \<Rightarrow>
                       (case from_hex (drop (p4 + 1) stored_hash) KEY_LEN of
                          None \<Rightarrow> False
                        | Some stored_key \<Rightarrow>
                            (case pbkdf2 plaintext salt iterations KEY_LEN of
                               None \<Rightarrow> False
                             | Some computed_key \<Rightarrow> computed_key = stored_key))))
         | _ \<Rightarrow> False)"

section \<open>JwtService\<close>

record jwt_claims =
  jc_issuer :: string
  jc_subject :: string
  jc_issued_at :: int
  jc_expires_at :: int

record jwt_lib =
  jw_sign :: "string \<Rightarrow> jwt_claims \<Rightarrow> string"
  jw_verify :: "string \<Rightarrow> string \<Rightarrow> int \<Rightarrow> string \<Rightarrow> jwt_claims option"

definition jwt_issue :: "jwt_lib \<Rightarrow> string \<Rightarrow> i64 \<Rightarrow> int \<Rightarrow> i64 \<Rightarrow> string" where
  "jwt_issue J secret uid ttl_s now_ms =
     jw_sign J secret \<lparr>jc_issuer = ''loomic'', jc_subject = to_string_i64 uid,
       jc_issued_at = sint now_ms div 1000, jc_expires_at = (sint now_ms + ttl_s * 1000) div 1000\<rparr>"

definition jwt_verify :: "jwt_lib \<Rightarrow> string \<Rightarrow> i64 \<Rightarrow> string \<Rightarrow> i64 option" where
  "jwt_verify J secret now_ms token =
     (case jw_verify J secret ''loomic'' (sint now_ms div 1000) token of
        None \<Rightarrow> None
      | Some decoded \<Rightarrow> stoll (jc_subject decoded))"

section \<open>Helpers of the HTTP handlers\<close>

definition require_auth :: "jwt_lib \<Rightarrow> string \<Rightarrow> i64 \<Rightarrow> string \<Rightarrow> i64 option" where
  "require_auth J secret now_ms authorization_header =
     (let prefix = ''Bearer ''
      in if length authorization_header \<le> length prefix \<or> take (length prefix) authorization_header \<noteq> prefix
         then None
         else jwt_verify J secret now_ms (drop (length prefix) authorization_header))"

definition generate_refresh_token :: "bytes \<Rightarrow> string" where
  "generate_refresh_token bytes32 = to_hex bytes32"

section \<open>The contract of the JWT library\<close>

text \<open>A signed token is accepted with the same secret and issuer until it expires, and not afterwards.\<close>

locale jwt_library =
  fixes J :: jwt_lib
  assumes verify_sign: "jw_verify J secret iss now (jw_sign J secret c) =
    (if jc_issuer c = iss \<and> now \<le> jc_expires_at c then Some c else None)"

section \<open>Lemmas\<close>

lemma length_to_hex [simp]: "length (to_hex bs) = 2 * length bs"
  by (induction bs) (simp_all add: to_hex_def)

lemma nibble_hex_digit: "n < 16 \<Longrightarrow> nibble (hex_digit n) = int n"
  by (auto simp: nibble_def hex_digit_def Let_def of_char_of)

lemma hex_byte: "(of_int (int (unat b div 16) * 16 + int (unat b mod 16)) :: u8) = b"
proof -
  have "int (unat b div 16) * 16 + int (unat b mod 16) = int (unat b)"
    using of_nat_add [where 'a = int, of "unat b div 16 * 16" "unat b mod 16"] by simp
  then show ?thesis by (simp only: of_int_of_nat_eq) simp
qed

lemma from_hex_pairs_to_hex [simp]: "from_hex_pairs (to_hex bs) = Some bs"
proof (induction bs)
  case (Cons b bs)
  have "unat b div 16 < 16" using unsigned_less [of b, where 'a = nat] by (simp del: unsigned_less)
  then have "nibble (hex_digit (unat b div 16)) = int (unat b div 16)"
    "nibble (hex_digit (unat b mod 16)) = int (unat b mod 16)" by (simp_all add: nibble_hex_digit)
  then show ?case using Cons hex_byte [of b] by (simp add: to_hex_def Let_def)
qed (simp add: to_hex_def)

lemma from_hex_to_hex: "from_hex (to_hex bs) n = (if length bs = n then Some bs else None)"
  by (simp add: from_hex_def)

lemma hex_digit_not_colon: "n < 16 \<Longrightarrow> hex_digit n \<noteq> CHR '':''"
proof -
  assume "n < 16"
  then have "nibble (hex_digit n) \<noteq> -1" by (simp add: nibble_hex_digit)
  moreover have "nibble CHR '':'' = -1" by (simp add: nibble_def)
  ultimately show ?thesis by metis
qed

lemma to_hex_no_colon: "CHR '':'' \<notin> set (to_hex bs)"
proof -
  have "hex_digit (unat b div 16) \<noteq> CHR '':''" "hex_digit (unat b mod 16) \<noteq> CHR '':''" for b :: u8
    using unsigned_less [of b, where 'a = nat] by (auto intro!: hex_digit_not_colon simp del: unsigned_less)
  then show ?thesis by (auto simp: to_hex_def) metis+
qed

lemma find_index_append:
  "(\<forall>c \<in> set s. \<not> P c) \<Longrightarrow> find_index P (s @ t) = map_option ((+) (length s)) (find_index P t)"
  by (cases "find_index P t"; induction s) auto

lemma find_char_skip:
  "CHR '':'' \<notin> set s \<Longrightarrow> length p = n \<Longrightarrow> find_char CHR '':'' (p @ s @ CHR '':'' # t) n = Some (n + length s)"
proof -
  assume "CHR '':'' \<notin> set s" "length p = n"
  moreover from this have "\<forall>c \<in> set s. c \<noteq> CHR '':''" by auto
  ultimately show ?thesis by (simp add: find_char_def find_index_append)
qed

lemma strto_string_of_int:
  assumes "lo \<le> i" "i \<le> hi"
  shows "strto lo hi (string_of_int i) = Some i"
proof -
  have sp: "\<not> is_space c" if "is_digit c" for c using that by (auto simp: is_space_def is_digit_def)
  obtain c t where ct: "string_of_nat (nat \<bar>i\<bar>) = c # t" by (meson neq_Nil_conv string_of_nat_nonempty)
  then have c: "is_digit c" by (rule string_of_nat_hd_digit)
  then have "c \<noteq> CHR ''-''" "c \<noteq> CHR ''+''" by (auto simp: is_digit_def)
  moreover have "takeWhile is_digit (c # t) = c # t" "digits_val (c # t) = nat \<bar>i\<bar>"
    using takeWhile_string_of_nat(2) [of "nat \<bar>i\<bar>"] digits_val_string_of_nat [of "nat \<bar>i\<bar>"]
    unfolding ct by simp_all
  moreover have "\<not> is_space CHR ''-''" by (simp add: is_space_def)
  ultimately show ?thesis
    using assms sp [OF c] ct
    by (cases "i < 0") (simp_all add: strto_def string_of_int_def Let_def del: takeWhile.simps takeWhile_eq_all_conv)
qed

lemma stoll_to_string [simp]: "stoll (to_string_i64 w) = Some w"
  using strto_string_of_int [of "- (2 ^ 63)" "sint w" "2 ^ 63 - 1"] sint_range_64 [of w]
  by (simp add: stoll_def to_string_i64_def)

lemma password_verify_hash:
  assumes "pbkdf2 p salt ITERATIONS KEY_LEN = Some key" "length salt = SALT_LEN" "length key = KEY_LEN"
    and "password_hash pbkdf2 (Some salt) p = Some h"
  shows "password_verify pbkdf2 q h \<longleftrightarrow> pbkdf2 q salt ITERATIONS KEY_LEN = Some key"
proof -
  have it: "string_of_int ITERATIONS = ''100000''"
    by (simp add: string_of_int_def ITERATIONS_def string_of_nat.simps digit_char_def) code_simp
  have h: "h = ''pbkdf2:sha256:100000:'' @ to_hex salt @ CHR '':'' # to_hex key"
    using assms(1,4) by (simp add: password_hash_def it)
  have f1: "find_char CHR '':'' h 0 = Some 6" "find_char CHR '':'' h 7 = Some 13" "find_char CHR '':'' h 14 = Some 20"
    by (simp_all add: h find_char_def)
  have f4: "find_char CHR '':'' h 21 = Some 53"
    using find_char_skip [of "to_hex salt" "''pbkdf2:sha256:100000:''" 21 "to_hex key"] to_hex_no_colon assms(2)
    by (simp add: h SALT_LEN_def)
  have s: "substr h 14 6 = ''100000''" "substr h 21 32 = to_hex salt" "drop 54 h = to_hex key"
    using assms(2) by (simp_all add: h substr_def SALT_LEN_def)
  have "stoi ''100000'' = Some ITERATIONS"
    using strto_string_of_int [of "- (2 ^ 31)" ITERATIONS "2 ^ 31 - 1"]
    unfolding stoi_def it by (simp add: ITERATIONS_def)
  then show ?thesis
    using assms by (auto simp: password_verify_def f1 f4 after_def s from_hex_to_hex split: option.splits)
qed

context jwt_library
begin

lemma verify_issue:
  "jwt_verify J secret now (jwt_issue J secret uid ttl t0) =
     (if sint now div 1000 \<le> (sint t0 + ttl * 1000) div 1000 then Some uid else None)"
  by (simp add: jwt_verify_def jwt_issue_def verify_sign)

end

section \<open>A reference instance of the library\<close>

text \<open>Tokens that carry the secret and the claims in a self-delimiting form.\<close>

definition tok :: "string \<Rightarrow> string" where
  "tok s = replicate (length s) CHR ''1'' @ CHR ''0'' # s"

definition untok :: "string \<Rightarrow> string \<times> string" where
  "untok s = (let n = length (takeWhile (\<lambda>c. c = CHR ''1'') s) in (take n (drop (Suc n) s), drop (Suc n + n) s))"

definition int_tok :: "int \<Rightarrow> string" where
  "int_tok i = tok ((if i < 0 then CHR ''-'' else CHR ''+'') # replicate (nat \<bar>i\<bar>) CHR ''1'')"

definition int_untok :: "string \<Rightarrow> int" where
  "int_untok s = (if hd s = CHR ''-'' then - int (length s - 1) else int (length s - 1))"

definition ref_jwt :: jwt_lib where
  "ref_jwt = \<lparr>jw_sign = (\<lambda>secret c. tok secret @ tok (jc_issuer c) @ tok (jc_subject c) @
       int_tok (jc_issued_at c) @ int_tok (jc_expires_at c)),
     jw_verify = (\<lambda>secret iss now t.
       let (k, t) = untok t; (i, t) = untok t; (sub, t) = untok t; (iat, t) = untok t; (ex, t) = untok t
       in if k = secret \<and> i = iss \<and> now \<le> int_untok ex
          then Some \<lparr>jc_issuer = i, jc_subject = sub, jc_issued_at = int_untok iat, jc_expires_at = int_untok ex\<rparr>
          else None)\<rparr>"

lemma untok_tok [simp]: "untok (tok s @ r) = (s, r)" "untok (tok s) = (s, [])"
proof -
  have "takeWhile (\<lambda>c. c = CHR ''1'') (replicate n CHR ''1'' @ CHR ''0'' # t) = replicate n CHR ''1''" for n t
    by (induction n) auto
  then show "untok (tok s @ r) = (s, r)" "untok (tok s) = (s, [])"
    by (simp_all add: untok_def tok_def)
qed

lemma int_untok_tok [simp]:
  "untok (int_tok i @ r) = ((if i < 0 then CHR ''-'' else CHR ''+'') # replicate (nat \<bar>i\<bar>) CHR ''1'', r)"
  "untok (int_tok i) = ((if i < 0 then CHR ''-'' else CHR ''+'') # replicate (nat \<bar>i\<bar>) CHR ''1'', [])"
  "int_untok ((if i < 0 then CHR ''-'' else CHR ''+'') # replicate (nat \<bar>i\<bar>) CHR ''1'') = i"
  by (simp_all add: int_tok_def int_untok_def)

interpretation ref_jw: jwt_library ref_jwt
  by unfold_locales (simp add: ref_jwt_def Let_def del: replicate.simps)

section \<open>Properties\<close>

text \<open>Passwords: a stored hash accepts exactly the passwords whose derived key with the same salt and
  100000 iterations is the stored one; in particular the password it was made from.\<close>

theorem password_roundtrip:
  assumes "password_hash pbkdf2 (Some salt) p = Some h" and "pbkdf2 p salt ITERATIONS KEY_LEN = Some key"
    and "length salt = SALT_LEN" and "length key = KEY_LEN"
  shows "password_verify pbkdf2 p h \<and>
    (password_verify pbkdf2 q h \<longleftrightarrow> pbkdf2 q salt ITERATIONS KEY_LEN = Some key)"
  using password_verify_hash [OF assms(2,3,4,1)] assms(2) by simp

theorem password_roundtrip_witness:
  "let f = (\<lambda>p salt it n. Some (replicate n (of_nat (length p)))); h = the (password_hash f (Some (replicate 16 7)) ''secret'')
   in password_verify f ''secret'' h \<and> \<not> password_verify f ''hunter22'' h"
proof -
  let ?f = "\<lambda>p salt it n. Some (replicate n (of_nat (length p) :: u8))"
  obtain h where h: "password_hash ?f (Some (replicate 16 7)) ''secret'' = Some h"
    by (simp add: password_hash_def)
  show ?thesis
    using password_roundtrip [OF h, of "replicate 32 6" "''hunter22''"] h
    by (simp add: KEY_LEN_def SALT_LEN_def Let_def numeral_eq_Suc)
qed



end
