(* ===== verification/World.thy ===== *)
theory World
  imports Complex_Main Frames Snowflake RateLimit Registry Redis_Client Pg_Pool Database Cassandra Json Auth_Services
    Protobuf
begin

text \<open>
  The state that the sessions and the HTTP handlers share, and the primitive effects on it.  A world holds
  the registry, the session objects, Redis, Cassandra, the PostgreSQL pool, the identifier generator, how many
  readings of the clocks were taken, the detached coroutines that \<open>co_spawn(\<dots>, detached)\<close> has started
  (\<open>w_jobs\<close>) and the gauges of \<open>MetricsRegistry\<close>.  The environment \<open>env\<close> bundles what is not code of the
  repository: the Redis and Cassandra servers, libpqxx's network, the clocks, rounding, JWT, JSON, protobuf
  and OpenSSL.  An operation returns \<open>None\<close> when it never returns: the generator spins on a clock
  that stands still or the pool has no connection.  The operations here and in the theories of the
  handlers are functions on worlds that do the handling of one frame or one request as a whole; posts to other sessions
  (\<open>ss_mailbox\<close>), writes and detached coroutines are separate steps.  \<open>Interleaving\<close> has the sessions suspended inside a
  handler.  \<open>w_crashed\<close>: an exception left a posted handler, which ends \<open>io_context::run\<close> and, through
  \<open>src/server/src/main.cpp\<close>, the process.
\<close>

section \<open>Sessions\<close>

datatype kind = Tcp | Ws

datatype packet = Frame bytes | Text string

datatype phase = Handshake | Running | Ended

record session =
  ss_kind :: kind
  ss_user_id :: u64
  ss_write_queue :: "packet list"
  ss_writing :: bool
  ss_sent :: "packet list"
  ss_mailbox :: "bytes list"
  ss_bucket :: TokenBucket
  ss_open :: bool
  ss_heartbeat :: "int option"
  ss_phase :: phase

definition session_init :: "kind \<Rightarrow> int \<Rightarrow> session" where
  "session_init k now = \<lparr>ss_kind = k, ss_user_id = 0, ss_write_queue = [], ss_writing = False, ss_sent = [],
     ss_mailbox = [], ss_bucket = TokenBucket_init now, ss_open = True, ss_heartbeat = None, ss_phase = Handshake\<rparr>"

section \<open>Environment and world\<close>

text \<open>Azure Blob Storage: the configuration, the error text of the \<open>n\<close>-th upload (empty: it succeeded) and the
  signature for a download until some minute (\<open>None\<close>: it throws).\<close>

record blob_lib =
  bl_account :: string
  bl_key :: string
  bl_container :: string
  bl_sas_ttl_minutes :: int
  bl_upload :: "nat \<Rightarrow> string \<Rightarrow> string \<Rightarrow> bytes \<Rightarrow> string"
  bl_sas :: "string \<Rightarrow> string \<Rightarrow> i64 \<Rightarrow> string option \<Rightarrow> string option"

text \<open>\<open>e_rand\<close>: the outcome of the \<open>k\<close>-th call of \<open>RAND_bytes\<close> for \<open>n\<close> bytes and the buffer afterwards;
  \<open>e_rng\<close>: the draws of the pseudo-random generators; the two server names are those that sessions announce.\<close>

record ('r, 'c) env =
  e_rx :: "'r redis_exec"
  e_cx :: "'c cass_exec"
  e_pg :: pg_env
  e_clk :: clock
  e_steady :: "nat \<Rightarrow> int"
  e_rnd :: "real \<Rightarrow> real"
  e_jwt :: jwt_lib
  e_secret :: string
  e_server_id :: string
  e_ws_server_id :: string
  e_json :: json_lib
  e_pb_serialize :: "ChatMessage \<Rightarrow> bytes"
  e_pb_parse :: "bytes \<Rightarrow> int \<Rightarrow> ChatMessage option"
  e_base64 :: "bytes \<Rightarrow> string"
  e_pbkdf2 :: pbkdf2
  e_rand :: "nat \<Rightarrow> nat \<Rightarrow> bool \<times> bytes"
  e_rng :: "nat \<Rightarrow> u64"
  e_blob :: blob_lib

datatype job =
    Job_hincrby u64 u64
  | Job_store u64 u64 u64 u64 bytes i64 u8
  | Job_upsert u64 u64 u64
  | Job_activity u64 bool string
  | Job_last_seen u64 i64
  | Job_mark_read u64 u64

record ('r, 'c) world =
  w_registry :: SessionRegistry
  w_sessions :: "sid \<rightharpoonup> session"
  w_redis :: 'r
  w_cass :: 'c
  w_cc :: CassandraClient
  w_pg :: "Db PgPool"
  w_sf :: SnowflakeGen
  w_clk :: nat
  w_steady :: nat
  w_jobs :: "job list"
  w_rand :: nat
  w_rng :: nat
  w_uploads :: "(string \<times> string \<times> bytes) list"
  w_http_total :: "string \<times> nat \<Rightarrow> nat"
  w_messages_total :: nat
  w_active_sessions :: int
  w_active_connections :: int
  w_crashed :: bool

section \<open>Primitive effects\<close>

definition w_alive :: "('r, 'c) world \<Rightarrow> sid \<Rightarrow> bool" where
  "w_alive w s \<longleftrightarrow> w_sessions w s \<noteq> None"

definition w_lookup :: "('r, 'c) world \<Rightarrow> u64 \<Rightarrow> sid option" where
  "w_lookup w u = registry_lookup (w_alive w) (w_registry w) u"

definition upd_session :: "sid \<Rightarrow> (session \<Rightarrow> session) \<Rightarrow> ('r, 'c) world \<Rightarrow> ('r, 'c) world" where
  "upd_session s f w = w\<lparr>w_sessions := (w_sessions w)(s := map_option f (w_sessions w s))\<rparr>"

text \<open>Where \<open>run\<close> stands: before the token is accepted, in the message loop, or returned.\<close>

definition enter :: "phase \<Rightarrow> sid \<Rightarrow> ('r, 'c) world \<Rightarrow> ('r, 'c) world" where
  "enter p s = upd_session s (\<lambda>ss. ss\<lparr>ss_phase := p\<rparr>)"

text \<open>\<open>net::post(session->strand(), [\<dots>]{ session->enqueue(\<dots>); })\<close>\<close>

definition w_post :: "sid \<Rightarrow> bytes \<Rightarrow> ('r, 'c) world \<Rightarrow> ('r, 'c) world" where
  "w_post s b = upd_session s (\<lambda>ss. ss\<lparr>ss_mailbox := ss_mailbox ss @ [b]\<rparr>)"

definition w_spawn :: "job \<Rightarrow> ('r, 'c) world \<Rightarrow> ('r, 'c) world" where
  "w_spawn j w = w\<lparr>w_jobs := w_jobs w @ [j]\<rparr>"

definition w_now :: "('r, 'c) env \<Rightarrow> ('r, 'c) world \<Rightarrow> i64 \<times> ('r, 'c) world" where
  "w_now E w = (e_clk E (w_clk w), w\<lparr>w_clk := Suc (w_clk w)\<rparr>)"

definition w_steady_now :: "('r, 'c) env \<Rightarrow> ('r, 'c) world \<Rightarrow> int \<times> ('r, 'c) world" where
  "w_steady_now E w = (e_steady E (w_steady w), w\<lparr>w_steady := Suc (w_steady w)\<rparr>)"

definition w_snowflake :: "('r, 'c) env \<Rightarrow> ('r, 'c) world \<Rightarrow> (i64 \<times> ('r, 'c) world) option" where
  "w_snowflake E w = do {
     (i, g, k) \<leftarrow> SnowflakeGen_next (e_clk E) (w_sf w) (w_clk w);
     Some (i, w\<lparr>w_sf := g, w_clk := k\<rparr>) }"

definition w_exec ::
  "('r, 'c) env \<Rightarrow> 'a txn \<Rightarrow> RetryClass \<Rightarrow> ('r, 'c) world \<Rightarrow> ((pg_exn + 'a) \<times> ('r, 'c) world) option" where
  "w_exec E f rc w = do {
     (r, p) \<leftarrow> execute (e_pg E) f rc (w_pg w);
     Some (r, w\<lparr>w_pg := p\<rparr>) }"

definition w_lpush :: "('r, 'c) env \<Rightarrow> u64 \<Rightarrow> bytes \<Rightarrow> ('r, 'c) world \<Rightarrow> ('r, 'c) world" where
  "w_lpush E u b w = w\<lparr>w_redis := lpush (e_rx E) (w_redis w) (offline_key u) b\<rparr>"

definition w_smembers :: "('r, 'c) env \<Rightarrow> u64 \<Rightarrow> ('r, 'c) world \<Rightarrow> u64 list \<times> ('r, 'c) world" where
  "w_smembers E g w =
     (let (ms, r) = smembers_group (e_rx E) (w_redis w) g in (ms, w\<lparr>w_redis := r\<rparr>))"

text \<open>\<open>mr.messages_total().Increment()\<close>; the latency histograms are not modelled.\<close>

definition w_count_message :: "('r, 'c) world \<Rightarrow> ('r, 'c) world" where
  "w_count_message w = w\<lparr>w_messages_total := Suc (w_messages_total w)\<rparr>"

definition w_rand_bytes :: "('r, 'c) env \<Rightarrow> nat \<Rightarrow> ('r, 'c) world \<Rightarrow> (bool \<times> bytes) \<times> ('r, 'c) world" where
  "w_rand_bytes E n w = (e_rand E (w_rand w) n, w\<lparr>w_rand := Suc (w_rand w)\<rparr>)"

definition w_draw :: "('r, 'c) env \<Rightarrow> ('r, 'c) world \<Rightarrow> u64 \<times> ('r, 'c) world" where
  "w_draw E w = (e_rng E (w_rng w), w\<lparr>w_rng := Suc (w_rng w)\<rparr>)"

section \<open>Detached coroutines\<close>

text \<open>\<open>update_conv_activity\<close> and the transactions spawned with \<open>net::detached\<close>: an exception is dropped.\<close>

definition update_conv_activity ::
  "('r, 'c) env \<Rightarrow> u64 \<Rightarrow> bool \<Rightarrow> string \<Rightarrow> ('r, 'c) world \<Rightarrow> ('r, 'c) world option" where
  "update_conv_activity E conv_id is_group preview w = do {
     (r, w) \<leftarrow> w_exec E (update_activity_txn conv_id is_group preview) NonRetryableWrite w;
     Some w }"

definition upsert_conv_members ::
  "('r, 'c) env \<Rightarrow> u64 \<Rightarrow> u64 \<Rightarrow> u64 \<Rightarrow> ('r, 'c) world \<Rightarrow> ('r, 'c) world option" where
  "upsert_conv_members E conv_id user_a user_b w = do {
     (r, w) \<leftarrow> w_exec E (upsert_conv_members_txn conv_id user_a user_b) NonRetryableWrite w;
     Some w }"

fun run_job :: "('r, 'c) env \<Rightarrow> job \<Rightarrow> ('r, 'c) world \<Rightarrow> ('r, 'c) world option" where
  "run_job E (Job_hincrby u c) w = Some (w\<lparr>w_redis := hincrby_unread (e_rx E) (w_redis w) u c 1\<rparr>)"
| "run_job E (Job_store c m s r content ts ty) w =
     (let (cc, ca) = store_message_async (e_cx E) (e_base64 E) c m s r content ts ty (w_cc w) (w_cass w)
      in Some (w\<lparr>w_cc := cc, w_cass := ca\<rparr>))"
| "run_job E (Job_upsert c a b) w = upsert_conv_members E c a b w"
| "run_job E (Job_activity c is_group p) w = update_conv_activity E c is_group p w"
| "run_job E (Job_last_seen u ts) w = map_option snd (w_exec E (update_last_seen u ts) NonRetryableWrite w)"
| "run_job E (Job_mark_read c u) w = map_option snd (w_exec E (mark_receipts_read c u) NonRetryableWrite w)"

section \<open>Group members\<close>

definition load_group_members_from_pg ::
  "('r, 'c) env \<Rightarrow> u64 \<Rightarrow> ('r, 'c) world \<Rightarrow> (u64 list \<times> ('r, 'c) world) option" where
  "load_group_members_from_pg E group_id w = do {
     (rows, w) \<leftarrow> w_exec E (select_group_members group_id) ReadOnly w;
     Some (case rows of Inr ids \<Rightarrow> ids | Inl _ \<Rightarrow> [], w) }"

text \<open>Redis first, PostgreSQL when Redis has no member.\<close>

definition resolve_members ::
  "('r, 'c) env \<Rightarrow> u64 \<Rightarrow> ('r, 'c) world \<Rightarrow> (u64 list \<times> ('r, 'c) world) option" where
  "resolve_members E group_id w =
     (let (members, w) = w_smembers E group_id w
      in if members = [] then load_group_members_from_pg E group_id w else Some (members, w))"

section \<open>Fan-out of one delivery to the members that are online\<close>

definition post_if_online :: "u64 \<Rightarrow> bytes \<Rightarrow> ('r, 'c) world \<Rightarrow> ('r, 'c) world" where
  "post_if_online u b w = (case w_lookup w u of Some s \<Rightarrow> w_post s b w | None \<Rightarrow> w)"

definition relay_members :: "u64 \<Rightarrow> bytes \<Rightarrow> u64 list \<Rightarrow> ('r, 'c) world \<Rightarrow> ('r, 'c) world" where
  "relay_members self b members w =
     foldl (\<lambda>w u. if u = self then w else post_if_online u b w) w members"

section \<open>Lemmas\<close>

lemma w_sessions_upd [simp]:
  "w_sessions (upd_session s f w) t = (if t = s then map_option f (w_sessions w s) else w_sessions w t)"
  by (simp add: upd_session_def)

lemma upd_session_other [simp]:
  "w_registry (upd_session s f w) = w_registry w" "w_redis (upd_session s f w) = w_redis w"
  "w_jobs (upd_session s f w) = w_jobs w" "w_pg (upd_session s f w) = w_pg w"
  "w_cass (upd_session s f w) = w_cass w" "w_cc (upd_session s f w) = w_cc w"
  "w_sf (upd_session s f w) = w_sf w" "w_clk (upd_session s f w) = w_clk w"
  "w_crashed (upd_session s f w) = w_crashed w" "w_steady (upd_session s f w) = w_steady w"
  "w_messages_total (upd_session s f w) = w_messages_total w"
  "w_active_sessions (upd_session s f w) = w_active_sessions w"
  "w_active_connections (upd_session s f w) = w_active_connections w"
  by (simp_all add: upd_session_def)

lemma enter_simps [simp]:
  "w_sessions (enter p s w) t = (if t = s then map_option (\<lambda>ss. ss\<lparr>ss_phase := p\<rparr>) (w_sessions w s) else w_sessions w t)"
  "w_registry (enter p s w) = w_registry w" "w_jobs (enter p s w) = w_jobs w" "w_redis (enter p s w) = w_redis w"
  "w_pg (enter p s w) = w_pg w" "w_sf (enter p s w) = w_sf w"
  "w_active_sessions (enter p s w) = w_active_sessions w"
  "w_active_connections (enter p s w) = w_active_connections w" "w_crashed (enter p s w) = w_crashed w"
  by (simp_all add: enter_def)

lemma w_alive_enter [simp]: "w_alive (enter p s w) = w_alive w"
  by (auto simp: w_alive_def fun_eq_iff)

lemma w_lookup_enter [simp]: "w_lookup (enter p s w) = w_lookup w"
  by (auto simp: w_lookup_def fun_eq_iff)

lemma w_alive_upd [simp]: "w_alive (upd_session s f w) = w_alive w"
  by (auto simp: w_alive_def fun_eq_iff)

lemma w_alive_field [simp]:
  "w_alive (w\<lparr>w_steady := k\<rparr>) = w_alive w" "w_alive (w\<lparr>w_clk := k\<rparr>) = w_alive w"
  "w_alive (w\<lparr>w_redis := r\<rparr>) = w_alive w" "w_alive (w\<lparr>w_pg := p\<rparr>) = w_alive w"
  "w_alive (w\<lparr>w_jobs := js\<rparr>) = w_alive w" "w_alive (w\<lparr>w_registry := m\<rparr>) = w_alive w"
  by (simp_all add: w_alive_def fun_eq_iff)

lemma w_lookup_upd [simp]: "w_lookup (upd_session s f w) = w_lookup w"
  by (auto simp: w_lookup_def fun_eq_iff)

lemma w_post_simps [simp, world_simps]:
  "w_registry (w_post s b w) = w_registry w" "w_redis (w_post s b w) = w_redis w"
  "w_jobs (w_post s b w) = w_jobs w" "w_pg (w_post s b w) = w_pg w"
  "w_lookup (w_post s b w) = w_lookup w" "w_alive (w_post s b w) = w_alive w"
  "w_messages_total (w_post s b w) = w_messages_total w"
  "w_crashed (w_post s b w) = w_crashed w"
  by (simp_all add: w_post_def)

lemma w_lookup_alive: "w_lookup w u = Some s \<Longrightarrow> \<exists>ss. w_sessions w s = Some ss"
  by (auto simp: w_lookup_def registry_lookup_def w_alive_def split: option.splits if_splits)

lemma w_exec_outcome:
  "w_exec E f rc w = Some (r, w') \<Longrightarrow>
   \<exists>p. w' = w\<lparr>w_pg := p\<rparr> \<and> pg_free_list p = pg_free_list (w_pg w) \<and> outcome f r (pg_db (w_pg w)) (pg_db p)"
  by (auto simp: w_exec_def bind_eq_Some_conv dest!: execute_contract)

lemma w_exec_returns: "pg_free_list (w_pg w) \<noteq> [] \<Longrightarrow> \<exists>r w'. w_exec E f rc w = Some (r, w')"
  using execute_returns [of "w_pg w" "e_pg E" f rc] by (auto simp: w_exec_def)

text \<open>The messages waiting for a session.\<close>

definition mailbox :: "('r, 'c) world \<Rightarrow> sid \<Rightarrow> bytes list" where
  "mailbox w s = (case w_sessions w s of None \<Rightarrow> [] | Some ss \<Rightarrow> ss_mailbox ss)"

lemma mailbox_post [simp]:
  "w_alive w s \<Longrightarrow> mailbox (w_post s b w) t = (if t = s then mailbox w s @ [b] else mailbox w t)"
  by (auto simp: mailbox_def w_post_def w_alive_def)

lemma mailbox_cong: "w_sessions w' = w_sessions w \<Longrightarrow> mailbox w' = mailbox w"
  by (simp add: mailbox_def fun_eq_iff)

section \<open>What ordinary traffic never changes\<close>

text \<open>The registry, the gauges and who each session belongs to.\<close>

definition core :: "('r, 'c) world \<Rightarrow>
    SessionRegistry \<times> int \<times> int \<times> (sid \<Rightarrow> (kind \<times> u64 \<times> phase) option)" where
  "core w = (w_registry w, w_active_sessions w, w_active_connections w,
     \<lambda>s. map_option (\<lambda>ss. (ss_kind ss, ss_user_id ss, ss_phase ss)) (w_sessions w s))"

lemma core_session:
  "core w' = core w \<Longrightarrow> map_option (\<lambda>ss. (ss_kind ss, ss_user_id ss, ss_phase ss)) (w_sessions w' s) =
      map_option (\<lambda>ss. (ss_kind ss, ss_user_id ss, ss_phase ss)) (w_sessions w s)"
  by (simp add: core_def fun_eq_iff)

lemma core_alive: "core w' = core w \<Longrightarrow> w_alive w' = w_alive w"
proof -
  assume c: "core w' = core w"
  have "w_sessions w' s = None \<longleftrightarrow> w_sessions w s = None" for s
    using core_session [OF c, of s] by (cases "w_sessions w' s"; cases "w_sessions w s") auto
  then show ?thesis by (simp add: w_alive_def fun_eq_iff)
qed

lemma core_lookup: "core w' = core w \<Longrightarrow> w_lookup w' = w_lookup w"
  using core_alive [of w' w] by (intro ext) (simp add: w_lookup_def core_def)

lemma core_user_id:
  "core w' = core w \<Longrightarrow> map_option ss_user_id (w_sessions w' s) = map_option ss_user_id (w_sessions w s)"
  using core_session [of w' w s] by (cases "w_sessions w' s"; cases "w_sessions w s") auto

lemma core_upd_session [simp]:
  "(\<And>ss. ss_kind (f ss) = ss_kind ss \<and> ss_user_id (f ss) = ss_user_id ss \<and> ss_phase (f ss) = ss_phase ss) \<Longrightarrow>
   core (upd_session s f w) = core w"
  by (auto simp: core_def fun_eq_iff option.map_comp comp_def)

lemma core_enter:
  "core (enter p s w) = (w_registry w, w_active_sessions w, w_active_connections w,
     (snd (snd (snd (core w))))(s := map_option (\<lambda>(k, u, _). (k, u, p)) (snd (snd (snd (core w))) s)))"
  by (auto simp: core_def fun_eq_iff option.map_comp comp_def)

lemma core_enter_cong: "core w' = core w \<Longrightarrow> core (enter p s w') = core (enter p s w)"
  unfolding core_enter by (simp add: core_def)

lemma core_primitive [simp]:
  "core (w_post s b w) = core w" "core (w_spawn j w) = core w" "core (w_lpush E u b w) = core w"
  "core (snd (w_now E w)) = core w" "core (snd (w_steady_now E w)) = core w"
  "core (w_count_message w) = core w" "core (snd (w_smembers E g w)) = core w"
  "core (w\<lparr>w_redis := r\<rparr>) = core w" "core (w\<lparr>w_pg := p\<rparr>) = core w"
  "core (w\<lparr>w_sf := g', w_clk := k\<rparr>) = core w" "core (w\<lparr>w_clk := k\<rparr>) = core w"
  "core (w\<lparr>w_sf := g'\<rparr>) = core w" "core (w\<lparr>w_steady := k\<rparr>) = core w"
  by (simp_all add: w_post_def) (simp_all add: core_def w_spawn_def w_lpush_def w_now_def w_steady_now_def
      w_count_message_def w_smembers_def split_beta)

lemma core_exec: "w_exec E f rc w = Some (r, w') \<Longrightarrow> core w' = core w"
  by (auto simp: w_exec_def bind_eq_Some_conv)

lemma core_snowflake: "w_snowflake E w = Some (i, w') \<Longrightarrow> core w' = core w"
  by (auto simp: w_snowflake_def bind_eq_Some_conv)

lemma core_post_if_online [simp]: "core (post_if_online u b w) = core w"
  by (simp add: post_if_online_def split: option.splits)

lemma core_relay_members [simp]: "core (relay_members self b ms w) = core w"
  unfolding relay_members_def by (induction ms arbitrary: w) simp_all

lemma core_resolve_members: "resolve_members E g w = Some (ms, w') \<Longrightarrow> core w' = core w"
  using core_primitive(7) [of E g w]
  by (auto simp del: core_primitive(7) simp: resolve_members_def load_group_members_from_pg_def bind_eq_Some_conv
      split: prod.splits if_splits dest!: core_exec)

lemma sessions_primitive [simp]:
  "w_sessions (w_spawn j w) = w_sessions w" "w_sessions (w_lpush E u b w) = w_sessions w"
  "w_sessions (w_count_message w) = w_sessions w" "w_sessions (snd (w_now E w)) = w_sessions w"
  "w_sessions (snd (w_steady_now E w)) = w_sessions w"
  by (simp_all add: w_spawn_def w_lpush_def w_count_message_def w_now_def w_steady_now_def)

lemma lookup_primitive [simp]:
  "w_lookup (w_spawn j w) = w_lookup w" "w_lookup (w_lpush E u b w) = w_lookup w"
  "w_lookup (w_count_message w) = w_lookup w" "w_lookup (snd (w_now E w)) = w_lookup w"
  by (intro core_lookup; simp)+

lemma jobs_primitive [simp]:
  "w_jobs (w_spawn j w) = w_jobs w @ [j]" "w_jobs (w_lpush E u b w) = w_jobs w"
  "w_jobs (w_count_message w) = w_jobs w" "w_jobs (snd (w_now E w)) = w_jobs w"
  by (simp_all add: w_spawn_def w_lpush_def w_count_message_def w_now_def)

lemma redis_primitive [simp]:
  "w_redis (w_spawn j w) = w_redis w" "w_redis (w_count_message w) = w_redis w"
  "w_redis (snd (w_now E w)) = w_redis w"
  "w_redis (w_lpush E u b w) = lpush (e_rx E) (w_redis w) (offline_key u) b"
  by (simp_all add: w_spawn_def w_lpush_def w_count_message_def w_now_def)

lemma mailbox_primitive [simp]:
  "mailbox (w_spawn j w) = mailbox w" "mailbox (w_lpush E u b w) = mailbox w"
  "mailbox (w_count_message w) = mailbox w" "mailbox (snd (w_now E w)) = mailbox w"
  by (rule mailbox_cong; simp)+

lemma snowflake_same:
  "w_snowflake E w = Some (i, w') \<Longrightarrow> w_sessions w' = w_sessions w \<and> w_redis w' = w_redis w \<and>
     w_jobs w' = w_jobs w \<and> w_pg w' = w_pg w"
  by (auto simp: w_snowflake_def bind_eq_Some_conv)

section \<open>Liveness\<close>

text \<open>The generator is in a state that it can leave and the pool has a connection to lend.\<close>

definition live :: "('r, 'c) world \<Rightarrow> bool" where
  "live w \<longleftrightarrow> gen_inv (w_sf w) \<and> pg_free_list (w_pg w) \<noteq> []"

lemma live_cong: "w_sf w' = w_sf w \<Longrightarrow> w_pg w' = w_pg w \<Longrightarrow> live w' = live w"
  by (simp add: live_def)

lemma live_primitive [simp]:
  "live (upd_session s f w) = live w" "live (w_post s b w) = live w" "live (w_spawn j w) = live w"
  "live (w_lpush E u b w) = live w" "live (snd (w_now E w)) = live w" "live (snd (w_steady_now E w)) = live w"
  "live (w_count_message w) = live w" "live (w\<lparr>w_redis := r\<rparr>) = live w" "live (w\<lparr>w_registry := g\<rparr>) = live w"
  "live (w\<lparr>w_active_sessions := a\<rparr>) = live w" "live (w\<lparr>w_active_connections := a\<rparr>) = live w"
  "live (snd (w_smembers E g' w)) = live w" "live (enter p s w) = live w"
  by (rule live_cong; simp add: w_post_def w_spawn_def w_lpush_def w_now_def w_steady_now_def w_count_message_def
      w_smembers_def split_beta)+

lemma live_post_if_online [simp]: "live (post_if_online u b w) = live w"
  by (simp add: post_if_online_def split: option.splits)

lemma live_relay_members [simp]: "live (relay_members self b ms w) = live w"
  unfolding relay_members_def by (induction ms arbitrary: w) simp_all

lemma live_snowflake:
  assumes "live w" "clock_moves (e_clk E)"
  obtains i w' where "w_snowflake E w = Some (i, w')" "live w'"
proof -
  obtain i g k where n: "SnowflakeGen_next (e_clk E) (w_sf w) (w_clk w) = Some (i, g, k)"
    using next_moving [of "w_sf w" "e_clk E" "w_clk w"] assms by (auto simp: live_def)
  moreover have "gen_inv g" using gen_inv_next [OF _ n] assms by (simp add: live_def)
  ultimately show ?thesis
    using assms by (intro that [of i "w\<lparr>w_sf := g, w_clk := k\<rparr>"]) (simp_all add: w_snowflake_def live_def)
qed

lemma live_exec:
  assumes "live w"
  obtains r w' where "w_exec E f rc w = Some (r, w')" "live w'"
proof -
  obtain r w' where x: "w_exec E f rc w = Some (r, w')"
    using w_exec_returns [of w E f rc] assms by (auto simp: live_def)
  with w_exec_outcome [OF x] assms show ?thesis by (intro that [of r w']) (auto simp: live_def)
qed

lemma live_resolve_members:
  assumes "live w"
  obtains ms w' where "resolve_members E g w = Some (ms, w')" "live w'"
proof (cases "fst (w_smembers E g w) = []")
  case True
  obtain r w' where "w_exec E (select_group_members g) ReadOnly (snd (w_smembers E g w)) = Some (r, w')" "live w'"
    using live_exec [of "snd (w_smembers E g w)"] assms by (metis live_primitive(12))
  with True that show ?thesis
    by (cases "w_smembers E g w") (auto simp: resolve_members_def load_group_members_from_pg_def)
next
  case False
  with that [of "fst (w_smembers E g w)" "snd (w_smembers E g w)"] assms show ?thesis
    by (simp add: resolve_members_def split_beta)
qed

lemma live_run_job:
  assumes "live w"
  obtains w' where "run_job E j w = Some w'" "live w'"
proof -
  have x: "\<exists>r w'. w_exec E f rc w = Some (r, w') \<and> live w'" for f :: "unit txn" and rc
    by (rule live_exec [OF assms, of E f rc]) auto
  have "\<exists>w'. run_job E j w = Some w' \<and> live w'"
  proof (cases j)
    case (Job_store c m s r content ts ty)
    then show ?thesis using assms
      by (auto simp: live_def split: prod.splits)
  next
    case (Job_upsert c a b)
    then show ?thesis using x [of "upsert_conv_members_txn c a b" NonRetryableWrite] by (auto simp: upsert_conv_members_def)
  next
    case (Job_activity c g p)
    then show ?thesis using x [of "update_activity_txn c g p" NonRetryableWrite] by (auto simp: update_conv_activity_def)
  next
    case (Job_last_seen u ts)
    then show ?thesis using x [of "update_last_seen u ts" NonRetryableWrite] by auto
  next
    case (Job_mark_read c u)
    then show ?thesis using x [of "mark_receipts_read c u" NonRetryableWrite] by auto
  qed (use assms in simp)
  with that show ?thesis by blast
qed

section \<open>The effects of handlers\<close>

text \<open>
  What the handling of a frame or of a request may do to the world, as the closure of the primitive effects:
  it never touches the registry, the gauges or the identity of a session, and it writes to PostgreSQL only
  by transactions that keep the constraints of the schema.
\<close>

inductive effects :: "('r, 'c) env \<Rightarrow> ('r, 'c) world \<Rightarrow> ('r, 'c) world \<Rightarrow> bool" for E where
  eff_refl: "effects E w w"
| eff_session: "effects E w v \<Longrightarrow>
    (\<And>ss. ss_kind (f ss) = ss_kind ss \<and> ss_user_id (f ss) = ss_user_id ss \<and> ss_phase (f ss) = ss_phase ss) \<Longrightarrow>
    effects E w (upd_session s f v)"
| eff_redis: "effects E w v \<Longrightarrow> effects E w (v\<lparr>w_redis := r\<rparr>)"
| eff_cass: "effects E w v \<Longrightarrow> effects E w (v\<lparr>w_cc := cc, w_cass := ca\<rparr>)"
| eff_clk: "effects E w v \<Longrightarrow> effects E w (v\<lparr>w_clk := k\<rparr>)"
| eff_steady: "effects E w v \<Longrightarrow> effects E w (v\<lparr>w_steady := k\<rparr>)"
| eff_jobs: "effects E w v \<Longrightarrow> effects E w (v\<lparr>w_jobs := js\<rparr>)"
| eff_count: "effects E w v \<Longrightarrow> effects E w (v\<lparr>w_messages_total := n\<rparr>)"
| eff_rand: "effects E w v \<Longrightarrow> effects E w (v\<lparr>w_rand := n\<rparr>)"
| eff_rng: "effects E w v \<Longrightarrow> effects E w (v\<lparr>w_rng := n\<rparr>)"
| eff_uploads: "effects E w v \<Longrightarrow> effects E w (v\<lparr>w_uploads := us\<rparr>)"
| eff_http: "effects E w v \<Longrightarrow> effects E w (v\<lparr>w_http_total := ht\<rparr>)"
| eff_snowflake: "effects E w v \<Longrightarrow> w_snowflake E v = Some (i, v') \<Longrightarrow> effects E w v'"
| eff_pg: "effects E w v \<Longrightarrow> pg_free_list p = pg_free_list (w_pg v) \<Longrightarrow>
    (db_ok (pg_db (w_pg v)) \<Longrightarrow> db_ok (pg_db p)) \<Longrightarrow> effects E w (v\<lparr>w_pg := p\<rparr>)"

lemma eff_exec:
  assumes "effects E w v" "w_exec E f rc v = Some (r, v')" "keeps db_ok f"
  shows "effects E w v'"
proof -
  obtain p where p: "v' = v\<lparr>w_pg := p\<rparr>" "pg_free_list p = pg_free_list (w_pg v)" "outcome f r (pg_db (w_pg v)) (pg_db p)"
    using w_exec_outcome [OF assms(2)] by blast
  have "db_ok (pg_db p)" if "db_ok (pg_db (w_pg v))"
    using p(3) keepsD [OF assms(3) that] that by (auto simp: outcome_def split: sum.splits)
  with assms(1) p(1,2) show ?thesis by (simp add: eff_pg)
qed

lemma effects_trans: "effects E v w \<Longrightarrow> effects E u v \<Longrightarrow> effects E u w"
  by (induction rule: effects.induct) (auto intro: effects.intros)

lemma effects_core: "effects E w v \<Longrightarrow> core v = core w"
proof (induction rule: effects.induct)
  case (eff_session w v f s)
  then show ?case using core_upd_session [of f s v] by simp
next
  case (eff_snowflake w v i v')
  then show ?case using core_snowflake by fastforce
qed (simp_all add: core_def)

lemma effects_live: "effects E w v \<Longrightarrow> live w \<Longrightarrow> live v"
proof (induction rule: effects.induct)
  case (eff_snowflake w v i v')
  then obtain g k where "SnowflakeGen_next (e_clk E) (w_sf v) (w_clk v) = Some (i, g, k)" "v' = v\<lparr>w_sf := g, w_clk := k\<rparr>"
    by (auto simp: w_snowflake_def bind_eq_Some_conv)
  with eff_snowflake show ?case using gen_inv_next by (auto simp: live_def)
qed (simp_all add: live_def)

definition world_db_ok :: "('r, 'c) world \<Rightarrow> bool" where
  "world_db_ok w \<longleftrightarrow> db_ok (pg_db (w_pg w))"

lemma effects_db_ok: "effects E w v \<Longrightarrow> world_db_ok w \<Longrightarrow> world_db_ok v"
proof (induction rule: effects.induct)
  case (eff_snowflake w v i v')
  then show ?case using snowflake_same [of E v i v'] by (simp add: world_db_ok_def)
qed (simp_all add: world_db_ok_def)

lemma eff_primitive:
  "effects E w v \<Longrightarrow> effects E w (w_post s b v)" "effects E w v \<Longrightarrow> effects E w (w_spawn j v)"
  "effects E w v \<Longrightarrow> effects E w (w_lpush E u b v)" "effects E w v \<Longrightarrow> effects E w (snd (w_now E v))"
  "effects E w v \<Longrightarrow> effects E w (snd (w_steady_now E v))" "effects E w v \<Longrightarrow> effects E w (w_count_message v)"
  "effects E w v \<Longrightarrow> effects E w (snd (w_smembers E g v))"
  "effects E w v \<Longrightarrow> effects E w (snd (w_rand_bytes E n v))" "effects E w v \<Longrightarrow> effects E w (snd (w_draw E v))"
  by (auto simp: w_rand_bytes_def w_draw_def w_post_def w_spawn_def w_lpush_def w_now_def w_steady_now_def w_count_message_def w_smembers_def
      split_beta intro: effects.intros)

lemmas eff_intros = eff_refl eff_session eff_redis eff_clk eff_steady eff_primitive

lemma eff_post_if_online: "effects E w v \<Longrightarrow> effects E w (post_if_online u b v)"
  by (auto simp: post_if_online_def intro: eff_primitive split: option.splits)

lemma eff_relay_members: "effects E w v \<Longrightarrow> effects E w (relay_members self b ms v)"
  unfolding relay_members_def by (induction ms arbitrary: v) (auto intro: eff_post_if_online)

lemma eff_resolve_members:
  "effects E w v \<Longrightarrow> resolve_members E g v = Some (ms, v') \<Longrightarrow> effects E w v'"
  using eff_primitive(7) [of E w v g]
  by (auto simp: resolve_members_def load_group_members_from_pg_def bind_eq_Some_conv select_group_members_def
      split: prod.splits if_splits intro: eff_exec)

lemma eff_run_job:
  assumes "run_job E j v = Some v'" "effects E w v"
  shows "effects E w v'"
proof -
  have x: "effects E w v''" if "w_exec E f rc v = Some (r, v'')" "keeps db_ok f" for f :: "unit txn" and rc r v''
    using assms(2) that by (rule eff_exec)
  show ?thesis
    using assms
    by (cases j) (auto simp: upsert_conv_members_def update_conv_activity_def bind_eq_Some_conv Let_def
        split: prod.splits intro!: eff_redis eff_cass intro: x keeps_statements keeps_composed)
qed

section \<open>A small world for examples\<close>

text \<open>Users 7 and 12 are online with the sessions 1 (TCP) and 2 (WebSocket), user 9 is not; 7, 9 and 12 form
  group 5.  Every service works; the clocks advance by one unit per reading.\<close>

definition demo_user :: "i64 \<Rightarrow> string \<Rightarrow> UserRow" where
  "demo_user i n = \<lparr>us_id = i, us_username = n, us_email = n @ ''@x'', us_password_hash = ''h'',
     us_bio = None, us_avatar_url = None, us_last_seen_at = None\<rparr>"

definition demo_db :: Db where
  "demo_db = \<lparr>db_users = [demo_user 7 ''ann'', demo_user 9 ''bob'', demo_user 12 ''cy''], db_refresh_tokens = [],
     db_conversations = [\<lparr>cv_id = 3, cv_created_at = 0, cv_last_activity_at = 0, cv_last_msg_preview = None\<rparr>],
     db_conv_members = [(3, 7), (3, 9)],
     db_groups = [\<lparr>gr_id = 5, gr_name = ''g'', gr_creator_id = 7, gr_created_at = 0, gr_last_activity_at = 0,
       gr_last_msg_preview = None, gr_avatar_url = None\<rparr>],
     db_group_members = [\<lparr>gm_group_id = 5, gm_user_id = 7, gm_role = ''admin''\<rparr>,
       \<lparr>gm_group_id = 5, gm_user_id = 9, gm_role = ''member''\<rparr>, \<lparr>gm_group_id = 5, gm_user_id = 12, gm_role = ''member''\<rparr>],
     db_receipts = [], db_device_tokens = [], db_now = 0, db_ts_text = string_of_int,
     db_text_ok = ascii, db_ilike = (\<lambda>s p. take (length p - 1) s = butlast p),
     db_collate = (\<lambda>s. int (length s))\<rparr>"

text \<open>A token library in which the token is the subject itself.\<close>

definition demo_jwt :: jwt_lib where
  "demo_jwt = \<lparr>jw_sign = (\<lambda>_ c. jc_subject c),
     jw_verify = (\<lambda>_ iss now t. Some \<lparr>jc_issuer = iss, jc_subject = t, jc_issued_at = now, jc_expires_at = now\<rparr>)\<rparr>"

definition demo_env :: "(rstore, cass_ref) env" where
  "demo_env = \<lparr>e_rx = ref_exec, e_cx = ref_cass, e_pg = \<lparr>pe_event = (\<lambda>_. EvOk), pe_clock = int\<rparr>,
     e_clk = (\<lambda>k. EPOCH_MS + 1000 + of_nat k), e_steady = int, e_rnd = (\<lambda>x. x), e_jwt = demo_jwt,
     e_secret = ''k'', e_server_id = ''h:7777'', e_ws_server_id = ''h:ws'', e_json = ref_json (\<lambda>_. None),
     e_pb_serialize = ref_serialize, e_pb_parse = ref_parse, e_base64 = (\<lambda>_. ''b64''),
     e_pbkdf2 = (\<lambda>p s i n. Some (replicate n (of_nat (length p)))), e_rand = (\<lambda>k n. (True, replicate n (of_nat k))),
     e_rng = of_nat, e_blob = \<lparr>bl_account = ''acct'', bl_key = ''key'', bl_container = ''box'', bl_sas_ttl_minutes = 60,
       bl_upload = (\<lambda>_ _ _ _. []), bl_sas = (\<lambda>_ _ _ _. Some ''sig'')\<rparr>\<rparr>"

definition demo_world :: "(rstore, cass_ref) world" where
  "demo_world = \<lparr>w_registry = [7 \<mapsto> 1, 12 \<mapsto> 2],
     w_sessions = [1 \<mapsto> (session_init Tcp 0)\<lparr>ss_user_id := 7, ss_phase := Running\<rparr>,
       2 \<mapsto> (session_init Ws 0)\<lparr>ss_user_id := 12, ss_phase := Running\<rparr>],
     w_redis = rstore_empty, w_cass = \<lparr>cr_rows = [], cr_failures = 0\<rparr>, w_cc = demo_client,
     w_pg = \<lparr>pg_connections = [\<lparr>sl_conn = Some True, sl_created_at = 0, sl_last_used_at = 0, sl_last_validated_at = 0\<rparr>],
       pg_free_list = [0], pg_db = demo_db, pg_ev_index = 0, pg_clk_index = 0\<rparr>,
     w_sf = SnowflakeGen_init 1, w_clk = 0, w_steady = 0, w_jobs = [], w_rand = 0, w_rng = 0, w_uploads = [], w_http_total = (\<lambda>_. 0),
     w_messages_total = 0,
     w_active_sessions = 2, w_active_connections = 2, w_crashed = False\<rparr>"

lemma demo_snowflake:
  "w_snowflake demo_env demo_world = Some (snowflake_id 1000 1 0,
     demo_world\<lparr>w_sf := \<lparr>sf_machine_id = 1, sf_last_ms = 1000, sf_sequence = 0\<rparr>, w_clk := 1\<rparr>)"
  by (simp add: w_snowflake_def SnowflakeGen_next_def demo_env_def demo_world_def SnowflakeGen_init_def EPOCH_MS_def)

lemma demo_lookup [simp]:
  "w_lookup demo_world 7 = Some 1" "w_lookup demo_world 12 = Some 2" "w_lookup demo_world 9 = None"
  by (simp_all add: w_lookup_def registry_lookup_def demo_world_def w_alive_def)

lemma demo_fields [simp]:
  "mailbox demo_world s = []" "w_redis demo_world = rstore_empty" "w_jobs demo_world = []"
  "e_rx demo_env = ref_exec" "e_clk demo_env k = EPOCH_MS + 1000 + of_nat k"
  "pg_free_list (w_pg demo_world) = [0]" "pg_db (w_pg demo_world) = demo_db" "w_clk demo_world = 0"
  by (simp_all add: mailbox_def demo_world_def demo_env_def session_init_def)

lemma demo_live: "live demo_world" "clock_moves (e_clk demo_env)"
proof -
  show "live demo_world" by (simp add: live_def demo_world_def gen_inv_init)
  have "\<exists>j\<ge>k. EPOCH_MS + 1000 + of_nat j \<noteq> (t :: i64)" for k t
    by (cases "EPOCH_MS + 1000 + of_nat k = t") (auto intro: exI [of _ k] exI [of _ "Suc k"])
  then show "clock_moves (e_clk demo_env)" by (simp add: clock_moves_def)
qed

lemma demo_execute:
  "f demo_db = Inr (x, d) \<Longrightarrow> \<exists>p. execute (e_pg demo_env) f rc (w_pg demo_world) = Some (Inr x, p) \<and> pg_db p = d"
  by (simp add: pg_exec_simps demo_env_def demo_world_def Let_def)

lemma demo_resolve:
  assumes "w_pg w = w_pg demo_world" "w_redis w = rstore_empty"
  shows "\<exists>w'. resolve_members demo_env 5 w = Some ([7, 9, 12], w') \<and> w_sessions w' = w_sessions w"
proof -
  have s: "fst (smembers_group ref_exec rstore_empty 5) = []"
    by (simp add: smembers_group_def rstore_empty_def ref_exec_def ref_live_def split_beta)
  obtain p where "execute (e_pg demo_env) (select_group_members 5) ReadOnly (w_pg demo_world) = Some (Inr [7, 9, 12], p)"
    using demo_execute [of "select_group_members 5" "[7, 9, 12]" demo_db ReadOnly]
    by (auto simp: select_group_members_def query_def demo_db_def)
  with assms s show ?thesis
    by (simp add: resolve_members_def w_smembers_def load_group_members_from_pg_def w_exec_def split_beta Let_def)
qed

lemma demo_db_ok: "db_ok demo_db"
  by (simp add: demo_db_def demo_user_def db_ok_def users_ok_def tokens_ok_def convs_ok_def groups_ok_def
      members_ok_def receipts_ok_def devices_ok_def user_ids_def group_ids_def)

end
