(* ===== verification/Tcp_Session.thy ===== *)
theory Tcp_Session
  imports World
begin

text \<open>
  \<open>src/server/src/tcp/Session.cpp\<close>: a TLS client connection.  \<open>Session::run\<close> is split at its comments into
  authentication (\<open>tcp_auth\<close>), one round of the message loop (\<open>tcp_frame\<close>) and the clean-up
  (\<open>session_cleanup\<close>), and put together again in \<open>tcp_run\<close>; its input is the sequence of bytes that the
  client sends before it closes.  A \<open>co_return\<close> inside the \<open>try\<close> block (\<open>RunReturn\<close>) leaves \<open>run\<close> at once,
  an exception (\<open>RunThrow\<close>) goes on to the clean-up.
\<close>

datatype run_exit = RunReturn | RunThrow

section \<open>Writing\<close>

definition msg_header :: "u8 \<Rightarrow> FrameHeader" where
  "msg_header ty = FrameHeader_zero\<lparr>fh_msg_type := ty\<rparr>"

text \<open>\<open>co_await write_frame(socket_, hdr, {})\<close>; \<open>False\<close>: it throws because the socket is closed.\<close>

definition tcp_write :: "sid \<Rightarrow> FrameHeader \<Rightarrow> ('r, 'c) world \<Rightarrow> bool \<times> ('r, 'c) world" where
  "tcp_write s hdr w =
     (case w_sessions w s of
        None \<Rightarrow> (False, w)
      | Some ss \<Rightarrow>
          if ss_open ss
          then (True, upd_session s (\<lambda>ss. ss\<lparr>ss_sent := ss_sent ss @ [Frame (write_frame hdr [])]\<rparr>) w)
          else (False, w))"

definition tcp_wire_frame :: "(ChatMessage \<Rightarrow> bytes) \<Rightarrow> OutboundMessage \<Rightarrow> bytes" where
  "tcp_wire_frame pb_serialize message =
     (if om_msg_type message = MsgType_DELIVERED \<or> om_msg_type message = MsgType_READ \<or>
         om_msg_type message = MsgType_TYPING
      then header_bytes (FrameHeader_zero
        \<lparr>fh_payload_len := 0, fh_msg_type := om_msg_type message, fh_flags := om_flags message,
         fh_msg_id := om_msg_id message, fh_sender_id := om_sender_id message,
         fh_recipient_id := om_recipient_id message\<rparr>)
      else build_chat_frame pb_serialize message)"

definition tcp_enqueue :: "('r, 'c) env \<Rightarrow> bytes \<Rightarrow> session \<Rightarrow> session" where
  "tcp_enqueue E frame ss =
     (case deserialize_delivery (e_pb_parse E) frame of
        None \<Rightarrow> ss
      | Some message \<Rightarrow>
          (let ss = ss\<lparr>ss_write_queue := ss_write_queue ss @ [Frame (tcp_wire_frame (e_pb_serialize E) message)]\<rparr>
           in if \<not> ss_writing ss then ss\<lparr>ss_writing := True\<rparr> else ss))"

text \<open>One round of the loop of \<open>do_write\<close>, and the whole loop while the socket stays open.\<close>

definition do_write_step :: "session \<Rightarrow> session" where
  "do_write_step ss =
     (case ss_write_queue ss of
        [] \<Rightarrow> ss\<lparr>ss_writing := False\<rparr>
      | frame # rest \<Rightarrow>
          if ss_open ss then ss\<lparr>ss_write_queue := rest, ss_sent := ss_sent ss @ [frame]\<rparr>
          else ss\<lparr>ss_write_queue := rest, ss_writing := False\<rparr>)"

function do_write :: "session \<Rightarrow> session" where
  "do_write ss = (if ss_writing ss then do_write (do_write_step ss) else ss)"
  by pat_completeness auto

termination
  by (relation "measure (\<lambda>ss. length (ss_write_queue ss) + (if ss_writing ss then 1 else 0))")
    (auto simp: do_write_step_def split: list.splits)

declare do_write.simps [simp del]

section \<open>Heartbeat\<close>

definition heartbeat_start :: "int \<Rightarrow> session \<Rightarrow> session" where
  "heartbeat_start now ss = ss\<lparr>ss_heartbeat := Some (now + 30 * 1000000000)\<rparr>"

text \<open>A cancelled wait starts the next round of \<open>heartbeat_loop\<close>, with a new deadline.\<close>

definition reset_heartbeat :: "int \<Rightarrow> session \<Rightarrow> session" where
  "reset_heartbeat now ss = (if ss_heartbeat ss = None then ss else heartbeat_start now ss)"

definition heartbeat_expire :: "int \<Rightarrow> session \<Rightarrow> session" where
  "heartbeat_expire now ss =
     (case ss_heartbeat ss of
        Some t \<Rightarrow> if t \<le> now then ss\<lparr>ss_open := False, ss_heartbeat := None\<rparr> else ss
      | None \<Rightarrow> ss)"

section \<open>Routing of a chat message\<close>

definition receipt_for :: "u64 \<Rightarrow> u64 \<Rightarrow> u64 \<Rightarrow> u64 \<Rightarrow> u8 \<Rightarrow> OutboundMessage" where
  "receipt_for msg_id sender recipient conv flags = OutboundMessage_init
     \<lparr>om_msg_type := MsgType_DELIVERED, om_msg_id := msg_id, om_sender_id := sender,
      om_recipient_id := recipient, om_conv_id := conv, om_flags := flags\<rparr>"

definition preview :: "bytes \<Rightarrow> string" where
  "preview content = chars_of_bytes (if length content > 128 then take 128 content else content)"

text \<open>The loop over the members of a group.\<close>

fun group_fanout ::
  "('r, 'c) env \<Rightarrow> u64 \<Rightarrow> u64 \<Rightarrow> u64 \<Rightarrow> bytes \<Rightarrow> u64 list \<Rightarrow> ('r, 'c) world \<Rightarrow> ('r, 'c) world" where
  "group_fanout E user_id group_id msg_id delivery [] w = w"
| "group_fanout E user_id group_id msg_id delivery (member_id # members) w =
     (let w = (if member_id = user_id then w
               else case w_lookup w member_id of
                 Some session \<Rightarrow>
                   (let w = w_post session delivery w;
                        receipt = serialize_delivery (receipt_for msg_id member_id user_id group_id kFlagIsGroup)
                    in case w_lookup w user_id of
                         Some sender_sess \<Rightarrow> w_post sender_sess receipt w
                       | None \<Rightarrow> w)
               | None \<Rightarrow> w_spawn (Job_hincrby member_id group_id) (w_lpush E member_id delivery w))
      in group_fanout E user_id group_id msg_id delivery members w)"

definition route_group ::
  "('r, 'c) env \<Rightarrow> u64 \<Rightarrow> FrameHeader \<Rightarrow> bytes \<Rightarrow> ('r, 'c) world \<Rightarrow> ('r, 'c) world option" where
  "route_group E user_id hdr payload w = do {
     let group_id = fh_recipient_id hdr;
     (msg_id, w) \<leftarrow> w_snowflake E w;
     let (ts_ms, w) = w_now E w;
     let message = OutboundMessage_init
       \<lparr>om_conv_id := group_id, om_msg_id := msg_id, om_sender_id := user_id, om_recipient_id := group_id,
        om_timestamp_ms := ts_ms, om_msg_type := MsgType_CHAT, om_flags := kFlagIsGroup, om_content := payload\<rparr>;
     let delivery_bytes = serialize_delivery message;
     (members, w) \<leftarrow> resolve_members E group_id w;
     let w = group_fanout E user_id group_id msg_id delivery_bytes members w;
     let w = w_spawn (Job_store group_id msg_id user_id group_id payload ts_ms MsgType_CHAT) w;
     let w = w_spawn (Job_activity group_id True (preview payload)) w;
     Some (w_count_message w) }"

definition dm_message :: "u64 \<Rightarrow> u64 \<Rightarrow> u64 \<Rightarrow> i64 \<Rightarrow> bytes \<Rightarrow> OutboundMessage" where
  "dm_message user_id recipient_id msg_id ts_ms payload = OutboundMessage_init
     \<lparr>om_conv_id := min user_id recipient_id, om_msg_id := msg_id, om_sender_id := user_id,
      om_recipient_id := recipient_id, om_timestamp_ms := ts_ms, om_msg_type := MsgType_CHAT,
      om_flags := 0, om_content := payload\<rparr>"

definition dm_deliver ::
  "('r, 'c) env \<Rightarrow> u64 \<Rightarrow> u64 \<Rightarrow> u64 \<Rightarrow> u64 \<Rightarrow> bytes \<Rightarrow> ('r, 'c) world \<Rightarrow> ('r, 'c) world" where
  "dm_deliver E user_id recipient_id conv_id msg_id delivery w =
     (case w_lookup w recipient_id of
        Some recipient \<Rightarrow>
          (let w = w_post recipient delivery w;
               receipt = serialize_delivery (receipt_for msg_id recipient_id user_id conv_id 0)
           in case w_lookup w user_id of
                Some sender_sess \<Rightarrow> w_post sender_sess receipt w
              | None \<Rightarrow> w)
      | None \<Rightarrow> w_spawn (Job_hincrby recipient_id conv_id) (w_lpush E recipient_id delivery w))"

definition route_dm ::
  "('r, 'c) env \<Rightarrow> u64 \<Rightarrow> FrameHeader \<Rightarrow> bytes \<Rightarrow> ('r, 'c) world \<Rightarrow> ('r, 'c) world option" where
  "route_dm E user_id hdr payload w = do {
     let recipient_id = fh_recipient_id hdr;
     let conv_id = min user_id recipient_id;
     (msg_id, w) \<leftarrow> w_snowflake E w;
     let (ts_ms, w) = w_now E w;
     let delivery_bytes = serialize_delivery (dm_message user_id recipient_id msg_id ts_ms payload);
     let w = dm_deliver E user_id recipient_id conv_id msg_id delivery_bytes w;
     let w = w_spawn (Job_store conv_id msg_id user_id recipient_id payload ts_ms MsgType_CHAT) w;
     let w = w_spawn (Job_upsert conv_id user_id recipient_id) w;
     let w = w_spawn (Job_activity conv_id False (preview payload)) w;
     Some (w_count_message w) }"

definition tcp_route_message ::
  "('r, 'c) env \<Rightarrow> u64 \<Rightarrow> FrameHeader \<Rightarrow> bytes \<Rightarrow> ('r, 'c) world \<Rightarrow> ('r, 'c) world option" where
  "tcp_route_message E user_id hdr payload w =
     (if fh_flags hdr AND kFlagIsGroup \<noteq> 0 then route_group E user_id hdr payload w
      else route_dm E user_id hdr payload w)"

section \<open>Typing indicators\<close>

definition typing_message :: "u64 \<Rightarrow> u64 \<Rightarrow> u8 \<Rightarrow> OutboundMessage" where
  "typing_message user_id target flags = OutboundMessage_init
     \<lparr>om_msg_type := MsgType_TYPING, om_conv_id := target, om_sender_id := user_id,
      om_recipient_id := target, om_flags := flags\<rparr>"

definition tcp_typing ::
  "('r, 'c) env \<Rightarrow> u64 \<Rightarrow> FrameHeader \<Rightarrow> ('r, 'c) world \<Rightarrow> ('r, 'c) world option" where
  "tcp_typing E user_id hdr w =
     (let target_id = fh_recipient_id hdr
      in if fh_flags hdr AND kFlagIsGroup = 0
         then Some (post_if_online target_id (serialize_delivery (typing_message user_id target_id 0)) w)
         else do {
           (members, w) \<leftarrow> resolve_members E target_id w;
           Some (relay_members user_id (serialize_delivery (typing_message user_id target_id kFlagIsGroup)) members w) })"

section \<open>run\<close>

definition tcp_flush_offline_queue :: "('r, 'c) env \<Rightarrow> sid \<Rightarrow> u64 \<Rightarrow> ('r, 'c) world \<Rightarrow> ('r, 'c) world" where
  "tcp_flush_offline_queue E s user_id w =
     (let (frames, r) = lrange_and_del (e_rx E) (w_redis w) (offline_key user_id)
      in upd_session s (\<lambda>ss. foldl (\<lambda>ss f. tcp_enqueue E f ss) ss frames) (w\<lparr>w_redis := r\<rparr>))"

text \<open>What both kinds of session do once the token is accepted.\<close>

definition session_online :: "('r, 'c) env \<Rightarrow> sid \<Rightarrow> u64 \<Rightarrow> ('r, 'c) world \<Rightarrow> ('r, 'c) world" where
  "session_online E s user_id w =
     (let w = upd_session s (\<lambda>ss. ss\<lparr>ss_user_id := user_id\<rparr>) w;
          w = w\<lparr>w_registry := registry_insert (w_registry w) user_id s,
                w_active_sessions := w_active_sessions w + 1\<rparr>
      in w\<lparr>w_redis := set_presence (e_rx E) (w_redis w) user_id (e_server_id E)\<rparr>)"

definition tcp_auth ::
  "('r, 'c) env \<Rightarrow> sid \<Rightarrow> bytes \<Rightarrow> ('r, 'c) world \<Rightarrow> (run_exit + bytes) \<times> ('r, 'c) world" where
  "tcp_auth E s input w =
     (case read_frame_header input of
        None \<Rightarrow> (Inl RunThrow, w)
      | Some (auth_hdr, input) \<Rightarrow>
          if fh_msg_type auth_hdr \<noteq> MsgType_AUTH then (Inl RunReturn, w)
          else if unat (fh_payload_len auth_hdr) > 4096 then (Inl RunReturn, w)
          else case read_frame_payload (fh_payload_len auth_hdr) input of
             None \<Rightarrow> (Inl RunThrow, w)
           | Some (auth_payload, input) \<Rightarrow>
               (let token = chars_of_bytes auth_payload;
                    (now, w) = w_now E w
                in case jwt_verify (e_jwt E) (e_secret E) now token of
                     None \<Rightarrow>
                       (let (ok, w) = tcp_write s (msg_header MsgType_ERROR) w
                        in (Inl (if ok then RunReturn else RunThrow), w))
                   | Some user_id \<Rightarrow>
                       (let w = session_online E s user_id w;
                            (ok, w) = tcp_write s (msg_header MsgType_PONG) w
                        in if \<not> ok then (Inl RunThrow, w)
                           else let w = tcp_flush_offline_queue E s user_id w;
                                    (t, w) = w_steady_now E w
                                in (Inr input, enter Running s (upd_session s (heartbeat_start t) w)))))"

definition tcp_frame ::
  "('r, 'c) env \<Rightarrow> sid \<Rightarrow> u64 \<Rightarrow> bytes \<Rightarrow> ('r, 'c) world \<Rightarrow> ((run_exit + bytes) \<times> ('r, 'c) world) option" where
  "tcp_frame E s user_id input w =
     (case read_frame_header input of
        None \<Rightarrow> Some (Inl RunThrow, w)
      | Some (hdr, input) \<Rightarrow>
          if fh_msg_type hdr = MsgType_PING then
            (let (t, w) = w_steady_now E w;
                 w = upd_session s (reset_heartbeat t) w;
                 w = w\<lparr>w_redis := refresh_presence (e_rx E) (w_redis w) user_id\<rparr>;
                 (ok, w) = tcp_write s (msg_header MsgType_PONG) w
             in Some (if ok then Inr input else Inl RunThrow, w))
          else if fh_msg_type hdr = MsgType_CHAT then
            (if unat (fh_payload_len hdr) > 2 ^ 20 then Some (Inl RunReturn, w)
             else case read_frame_payload (fh_payload_len hdr) input of
                None \<Rightarrow> Some (Inl RunThrow, w)
              | Some (payload, input) \<Rightarrow>
                  (case w_sessions w s of
                     None \<Rightarrow> Some (Inl RunThrow, w)
                   | Some ss \<Rightarrow>
                       (let (t, w) = w_steady_now E w;
                            (allowed, tb) = consume (e_rnd E) (ss_bucket ss) t;
                            w = upd_session s (\<lambda>ss. ss\<lparr>ss_bucket := tb\<rparr>) w
                        in if allowed
                           then do { w \<leftarrow> tcp_route_message E user_id hdr payload w; Some (Inr input, w) }
                           else let (ok, w) = tcp_write s (msg_header MsgType_ERROR) w
                                in Some (if ok then Inr input else Inl RunThrow, w))))
          else if fh_msg_type hdr = MsgType_TYPING then
            do { w \<leftarrow> tcp_typing E user_id hdr w; Some (Inr input, w) }
          else if unat (fh_payload_len hdr) > 0 \<and> unat (fh_payload_len hdr) \<le> 2 ^ 20 then
            (case read_frame_payload (fh_payload_len hdr) input of
               None \<Rightarrow> Some (Inl RunThrow, w)
             | Some (_, input) \<Rightarrow> Some (Inr input, w))
          else Some (Inr input, w))"

text \<open>Every round reads a header: the input gets shorter.\<close>

lemma tcp_frame_consumes:
  assumes "tcp_frame E s u input w = Some (Inr input', w')"
  shows "length input' < length input"
proof -
  obtain hdr rest where h: "read_frame_header input = Some (hdr, rest)"
    using assms by (cases "read_frame_header input") (auto simp: tcp_frame_def)
  then have l: "length rest < length input" by (auto simp: read_frame_header_def split: if_splits)
  have "length (snd p) \<le> length rest" if "read_frame_payload n rest = Some p" for n p
    using that by (auto simp: read_frame_payload_def split: if_splits)
  then have "length input' \<le> length rest"
    using assms h
    by (fastforce simp: tcp_frame_def Let_def bind_eq_Some_conv split: if_splits option.splits prod.splits)
  with l show ?thesis by simp
qed

function tcp_loop ::
  "('r, 'c) env \<Rightarrow> sid \<Rightarrow> u64 \<Rightarrow> bytes \<Rightarrow> ('r, 'c) world \<Rightarrow> (run_exit \<times> ('r, 'c) world) option" where
  "tcp_loop E s user_id input w =
     (case tcp_frame E s user_id input w of
        None \<Rightarrow> None
      | Some (Inl e, w) \<Rightarrow> Some (e, w)
      | Some (Inr input, w) \<Rightarrow> tcp_loop E s user_id input w)"
  by pat_completeness auto

termination
  by (relation "measure (\<lambda>(E, s, u, input, w). length input)") (auto dest: tcp_frame_consumes)

declare tcp_loop.simps [simp del]

definition session_cleanup :: "('r, 'c) env \<Rightarrow> sid \<Rightarrow> ('r, 'c) world \<Rightarrow> ('r, 'c) world" where
  "session_cleanup E s w =
     (let (t, w) = w_steady_now E w;
          w = upd_session s (reset_heartbeat t) w;
          user_id = (case w_sessions w s of Some ss \<Rightarrow> ss_user_id ss | None \<Rightarrow> 0)
      in if user_id \<noteq> 0
         then let w = w\<lparr>w_active_sessions := w_active_sessions w - 1,
                        w_active_connections := w_active_connections w - 1,
                        w_registry := registry_remove (w_alive w) (w_registry w) user_id (Some s),
                        w_redis := del_presence (e_rx E) (w_redis w) user_id\<rparr>;
                  (ts_ms, w) = w_now E w;
                  w = w\<lparr>w_redis := set_last_seen (e_rx E) (w_redis w) user_id ts_ms\<rparr>
              in w_spawn (Job_last_seen user_id ts_ms) w
         else w)"

text \<open>What follows the \<open>try\<close> block.\<close>

definition leave :: "('r, 'c) env \<Rightarrow> sid \<Rightarrow> run_exit \<Rightarrow> ('r, 'c) world \<Rightarrow> ('r, 'c) world" where
  "leave E s e w = enter Ended s (case e of RunReturn \<Rightarrow> w | RunThrow \<Rightarrow> session_cleanup E s w)"

definition tcp_run :: "('r, 'c) env \<Rightarrow> sid \<Rightarrow> bytes \<Rightarrow> ('r, 'c) world \<Rightarrow> ('r, 'c) world option" where
  "tcp_run E s input w = do {
     let (r, w) = tcp_auth E s input w;
     (e, w) \<leftarrow> (case r of
        Inl e \<Rightarrow> Some (e, w)
      | Inr input \<Rightarrow>
          tcp_loop E s (case w_sessions w s of Some ss \<Rightarrow> ss_user_id ss | None \<Rightarrow> 0) input w);
     Some (leave E s e w) }"

section \<open>Lemmas on writing\<close>

lemma do_write_open:
  "ss_open ss \<Longrightarrow> ss_writing ss \<Longrightarrow>
   do_write ss = ss\<lparr>ss_write_queue := [], ss_writing := False, ss_sent := ss_sent ss @ ss_write_queue ss\<rparr>"
proof (induction "length (ss_write_queue ss)" arbitrary: ss)
  case 0
  then show ?case by (subst do_write.simps) (simp add: do_write_step_def do_write.simps)
next
  case (Suc n)
  then obtain f q where q: "ss_write_queue ss = f # q" by (cases "ss_write_queue ss") auto
  let ?ss = "ss\<lparr>ss_write_queue := q, ss_sent := ss_sent ss @ [f]\<rparr>"
  have "do_write ss = do_write ?ss"
    using Suc.prems by (subst do_write.simps) (simp add: do_write_step_def q)
  also have "\<dots> = ?ss\<lparr>ss_write_queue := [], ss_writing := False, ss_sent := ss_sent ?ss @ q\<rparr>"
    using Suc.hyps(1) [of ?ss] Suc.hyps(2) Suc.prems q by simp
  finally show ?case using q by simp
qed

lemma tcp_enqueue_fields [simp]:
  "ss_kind (tcp_enqueue E f ss) = ss_kind ss" "ss_user_id (tcp_enqueue E f ss) = ss_user_id ss"
  "ss_phase (tcp_enqueue E f ss) = ss_phase ss" "ss_open (tcp_enqueue E f ss) = ss_open ss"
  "ss_sent (tcp_enqueue E f ss) = ss_sent ss" "ss_mailbox (tcp_enqueue E f ss) = ss_mailbox ss"
  by (simp_all add: tcp_enqueue_def Let_def split: option.splits)

lemma tcp_enqueue_delivery:
  "length (om_content m) < 2 ^ 32 \<Longrightarrow>
   tcp_enqueue E (serialize_delivery m) ss =
     ss\<lparr>ss_write_queue := ss_write_queue ss @ [Frame (tcp_wire_frame (e_pb_serialize E) m)], ss_writing := True\<rparr>"
  by (cases ss) (simp add: tcp_enqueue_def deserialize_delivery_serialize Let_def)

lemma foldl_tcp_enqueue_fields [simp]:
  "ss_kind (foldl (\<lambda>ss f. tcp_enqueue E f ss) ss fs) = ss_kind ss"
  "ss_user_id (foldl (\<lambda>ss f. tcp_enqueue E f ss) ss fs) = ss_user_id ss"
  "ss_phase (foldl (\<lambda>ss f. tcp_enqueue E f ss) ss fs) = ss_phase ss"
  "ss_open (foldl (\<lambda>ss f. tcp_enqueue E f ss) ss fs) = ss_open ss"
  "ss_sent (foldl (\<lambda>ss f. tcp_enqueue E f ss) ss fs) = ss_sent ss"
  by (induction fs arbitrary: ss) simp_all

lemma foldl_tcp_enqueue:
  assumes "\<forall>m \<in> set ms. length (om_content m) < 2 ^ 32"
  shows "ss_write_queue (foldl (\<lambda>ss f. tcp_enqueue E f ss) ss (map serialize_delivery ms)) =
    ss_write_queue ss @ map (\<lambda>m. Frame (tcp_wire_frame (e_pb_serialize E) m)) ms"
  using assms by (induction ms arbitrary: ss) (simp_all add: tcp_enqueue_delivery)

section \<open>Lemmas on routing\<close>

lemma core_tcp_write [simp]: "core (snd (tcp_write s h w)) = core w"
  by (auto simp: tcp_write_def split: option.splits)

lemma eff_tcp_write: "effects E w v \<Longrightarrow> effects E w (snd (tcp_write s h v))"
  by (auto simp: tcp_write_def intro: eff_session split: option.splits)

lemma eff_group_fanout: "effects E w v \<Longrightarrow> effects E w (group_fanout E u g i b ms v)"
proof (induction ms arbitrary: v)
  case (Cons m ms)
  show ?case
    by (auto simp: Let_def split: option.splits intro!: Cons.IH eff_primitive Cons.prems)
qed simp

lemma eff_dm_deliver: "effects E w v \<Longrightarrow> effects E w (dm_deliver E u r c i b v)"
  by (auto simp: dm_deliver_def Let_def intro: eff_primitive split: option.splits)

lemma eff_route: "tcp_route_message E u hdr p v = Some v' \<Longrightarrow> effects E w v \<Longrightarrow> effects E w v'"
  by (auto simp: tcp_route_message_def route_group_def route_dm_def bind_eq_Some_conv Let_def split_beta
      intro!: eff_primitive eff_dm_deliver eff_group_fanout
      intro: eff_snowflake eff_resolve_members [rotated] split: if_splits)

lemma eff_typing: "tcp_typing E u hdr v = Some v' \<Longrightarrow> effects E w v \<Longrightarrow> effects E w v'"
  by (auto simp: tcp_typing_def bind_eq_Some_conv Let_def
      intro!: eff_post_if_online eff_relay_members intro: eff_resolve_members split: if_splits)

lemma eff_heartbeat:
  "effects E w v \<Longrightarrow> effects E w (upd_session s (reset_heartbeat t) v)"
  "effects E w v \<Longrightarrow> effects E w (upd_session s (heartbeat_start t) v)"
  by (auto intro!: eff_session simp: reset_heartbeat_def heartbeat_start_def)

lemma eff_tcp_frame:
  assumes "tcp_frame E s u input v = Some (r, v')" "effects E w v"
  shows "effects E w v'"
proof -
  have st: "effects E w (upd_session s (\<lambda>ss. ss\<lparr>ss_bucket := tb\<rparr>) (snd (w_steady_now E v)))" for tb
    using assms(2) by (auto intro!: eff_session eff_primitive)
  have hb: "effects E w (snd (tcp_write s h ((upd_session s (reset_heartbeat t) (snd (w_steady_now E v)))\<lparr>w_redis := q\<rparr>)))"
    for h t q using assms(2) by (intro eff_tcp_write eff_redis eff_heartbeat eff_primitive)
  show ?thesis
    using assms st hb
    by (auto simp: tcp_frame_def Let_def split_beta bind_eq_Some_conv
        intro: eff_route eff_typing eff_tcp_write split: option.splits if_splits)
qed

lemma eff_tcp_loop: "tcp_loop E s u input v = Some (e, v') \<Longrightarrow> effects E w v \<Longrightarrow> effects E w v'"
proof (induction E s u input v rule: tcp_loop.induct)
  case (1 E s u input v)
  obtain r v1 where f: "tcp_frame E s u input v = Some (r, v1)"
    using "1.prems" by (cases "tcp_frame E s u input v") (auto simp: tcp_loop.simps [of E s u input v])
  have e1: "effects E w v1" using f "1.prems"(2) by (rule eff_tcp_frame)
  show ?case
  proof (cases r)
    case (Inl e')
    with "1.prems" f e1 show ?thesis by (simp add: tcp_loop.simps [of E s u input v])
  next
    case (Inr input')
    then have "tcp_loop E s u input' v1 = Some (e, v')"
      using "1.prems" f by (simp add: tcp_loop.simps [of E s u input v])
    then show ?thesis using "1.IH" [OF f] Inr e1 by simp
  qed
qed

lemma core_tcp_loop: "tcp_loop E s u input w = Some (e, w') \<Longrightarrow> core w' = core w"
  using eff_tcp_loop [OF _ eff_refl] effects_core by blast

text \<open>The fan-out to a group: one copy for every member but the sender, online or queued.\<close>

lemma group_fanout_redis:
  "w_redis (group_fanout E u g i b ms w) =
     foldl (\<lambda>r m. lpush (e_rx E) r (offline_key m) b) (w_redis w) (filter (\<lambda>m. m \<noteq> u \<and> w_lookup w m = None) ms)"
  by (induction ms arbitrary: w) (simp_all add: Let_def split: option.splits)

lemma group_fanout_jobs:
  "w_jobs (group_fanout E u g i b ms w) =
     w_jobs w @ map (\<lambda>m. Job_hincrby m g) (filter (\<lambda>m. m \<noteq> u \<and> w_lookup w m = None) ms)"
  by (induction ms arbitrary: w) (simp_all add: Let_def split: option.splits)

lemma w_lookup_w_alive: "w_lookup w u = Some s \<Longrightarrow> w_alive w s"
  by (auto simp: w_lookup_def registry_lookup_def split: option.splits if_splits)

lemma group_fanout_mailbox:
  "w_lookup w u \<noteq> Some s \<Longrightarrow>
   mailbox (group_fanout E u g i b ms w) s =
     mailbox w s @ replicate (length (filter (\<lambda>m. m \<noteq> u \<and> w_lookup w m = Some s) ms)) b"
proof (induction ms arbitrary: w)
  case (Cons m ms)
  show ?case
  proof (cases "w_lookup w m")
    case None
    with Cons show ?thesis by (simp add: Let_def)
  next
    case (Some t)
    then have t: "w_alive w t" by (rule w_lookup_w_alive)
    show ?thesis
    proof (cases "w_lookup w u")
      case None
      with Cons Some t show ?thesis by (simp add: Let_def)
    next
      case (Some v)
      with Cons \<open>w_lookup w m = Some t\<close> t w_lookup_w_alive [OF Some] show ?thesis by (simp add: Let_def)
    qed
  qed
qed simp

lemma dm_deliver_effect:
  "w_redis (dm_deliver E u r c i b w) =
     (if w_lookup w r = None then lpush (e_rx E) (w_redis w) (offline_key r) b else w_redis w)"
  "w_jobs (dm_deliver E u r c i b w) = w_jobs w @ (if w_lookup w r = None then [Job_hincrby r c] else [])"
  "mailbox (dm_deliver E u r c i b w) s = mailbox w s @
     (if w_lookup w r = Some s then [b] else []) @
     (if w_lookup w r \<noteq> None \<and> w_lookup w u = Some s then [serialize_delivery (receipt_for i r u c 0)] else [])"
proof -
  have m: "mailbox (w_post t x v) s = mailbox v s @ (if t = s then [x] else [])" if "w_alive v t" for t x and v :: "('a, 'b) world"
    using that by simp
  show "mailbox (dm_deliver E u r c i b w) s = mailbox w s @
     (if w_lookup w r = Some s then [b] else []) @
     (if w_lookup w r \<noteq> None \<and> w_lookup w u = Some s then [serialize_delivery (receipt_for i r u c 0)] else [])"
    by (auto simp: dm_deliver_def Let_def m w_lookup_w_alive split: option.splits)
qed (simp_all add: dm_deliver_def Let_def split: option.splits)

lemma snowflake_lookup: "w_snowflake E w = Some (i, w1) \<Longrightarrow> w_lookup w1 = w_lookup w \<and> mailbox w1 = mailbox w"
  using core_lookup [OF core_snowflake] mailbox_cong snowflake_same by blast

lemma core_session_online:
  "core (session_online E s u w) = (registry_insert (w_registry w) u s, w_active_sessions w + 1, w_active_connections w,
     (snd (snd (snd (core w))))(s := map_option (\<lambda>(k, _, p). (k, u, p)) (snd (snd (snd (core w))) s)))"
  by (auto simp: core_def session_online_def Let_def fun_eq_iff option.map_comp comp_def)

lemma core_session_online_cong: "core w' = core w \<Longrightarrow> core (session_online E s u w') = core (session_online E s u w)"
  unfolding core_session_online by (simp add: core_def)

lemma core_heartbeat [simp]:
  "core (upd_session s (reset_heartbeat t) w) = core w" "core (upd_session s (heartbeat_start t) w) = core w"
  by (auto intro!: core_upd_session simp: reset_heartbeat_def heartbeat_start_def)

lemma core_tcp_flush [simp]: "core (tcp_flush_offline_queue E s u w) = core w"
proof -
  have "core (upd_session s (\<lambda>ss. foldl (\<lambda>ss f. tcp_enqueue E f ss) ss fs) (w\<lparr>w_redis := r\<rparr>)) = core w" for fs r
    by (subst core_upd_session) simp_all
  then show ?thesis by (simp add: tcp_flush_offline_queue_def split_beta Let_def)
qed

text \<open>The three ways in which the login ends: refused, failed while the session was being set up, accepted.\<close>

lemma tcp_auth_core:
  assumes "tcp_auth E s input w = (r, w1)"
  obtains e where "r = Inl e" "core w1 = core w"
  | u where "r = Inl RunThrow" "core w1 = core (session_online E s u w)"
  | u rest where "r = Inr rest" "core w1 = core (enter Running s (session_online E s u w))"
proof (cases "\<exists>u hdr input1 pl input2. read_frame_header input = Some (hdr, input1) \<and> fh_msg_type hdr = MsgType_AUTH \<and>
    \<not> 4096 < unat (fh_payload_len hdr) \<and> read_frame_payload (fh_payload_len hdr) input1 = Some (pl, input2) \<and>
    jwt_verify (e_jwt E) (e_secret E) (fst (w_now E w)) (chars_of_bytes pl) = Some u")
  case False
  then have "\<exists>e. r = Inl e \<and> core w1 = core w"
    using assms by (auto simp: tcp_auth_def Let_def split_beta split: option.splits if_splits)
  with that show ?thesis by blast
next
  case True
  then obtain u hdr input1 pl input2 where h: "read_frame_header input = Some (hdr, input1)" "fh_msg_type hdr = MsgType_AUTH"
    "\<not> 4096 < unat (fh_payload_len hdr)" "read_frame_payload (fh_payload_len hdr) input1 = Some (pl, input2)"
    "jwt_verify (e_jwt E) (e_secret E) (fst (w_now E w)) (chars_of_bytes pl) = Some u" by blast
  define w0 where "w0 = session_online E s u (snd (w_now E w))"
  have w0: "core w0 = core (session_online E s u w)"
    unfolding w0_def by (rule core_session_online_cong) simp
  define v where "v = tcp_flush_offline_queue E s u (snd (tcp_write s (msg_header MsgType_PONG) w0))"
  have v: "core (enter Running s (upd_session s (heartbeat_start t) (snd (w_steady_now E v)))) =
      core (enter Running s (session_online E s u w))" for t
    by (rule core_enter_cong) (simp add: v_def w0)
  show ?thesis
  proof (cases "fst (tcp_write s (msg_header MsgType_PONG) w0)")
    case True
    then have "r = Inr input2 \<and> w1 = enter Running s (upd_session s (heartbeat_start (fst (w_steady_now E v))) (snd (w_steady_now E v)))"
      using assms h by (simp add: tcp_auth_def Let_def split_beta w0_def v_def)
    with v that(3) show ?thesis by blast
  next
    case False
    then have "r = Inl RunThrow \<and> w1 = snd (tcp_write s (msg_header MsgType_PONG) w0)"
      using assms h by (simp add: tcp_auth_def Let_def split_beta w0_def)
    with w0 that(2) show ?thesis by simp
  qed
qed

lemma tcp_auth_Inr:
  assumes "tcp_auth E s input w = (Inr rest, w1)" "w_alive w s"
  obtains u where "ss_user_id (the (w_sessions w1 s)) = u" "w_alive w1 s"
    "w_registry w1 = registry_insert (w_registry w) u s" "w_active_sessions w1 = w_active_sessions w + 1"
    "w_active_connections w1 = w_active_connections w" "w_sessions w1 s \<noteq> None" "w_alive w1 = w_alive w"
proof -
  obtain u where c: "core w1 = core (enter Running s (session_online E s u w))"
    using assms(1) by (cases rule: tcp_auth_core) auto
  obtain ss where ss: "w_sessions w s = Some ss" using assms(2) by (auto simp: w_alive_def)
  have al: "w_alive w1 = w_alive w"
    unfolding core_alive [OF c] w_alive_enter
    by (auto simp: session_online_def Let_def w_alive_def fun_eq_iff)
  obtain ss1 where "w_sessions w1 s = Some ss1" "ss_user_id ss1 = u"
    using core_user_id [OF c, of s] ss
    by (cases "w_sessions w1 s") (auto simp: session_online_def Let_def)
  with al c assms(2) show ?thesis
    by (intro that [of u]) (auto simp: core_def session_online_def Let_def)
qed

lemma session_cleanup_effect:
  assumes "w_sessions w s = Some ss" "ss_user_id ss = u" "u \<noteq> 0"
  shows "w_registry (session_cleanup E s w) = registry_remove (w_alive w) (w_registry w) u (Some s)"
    "w_active_sessions (session_cleanup E s w) = w_active_sessions w - 1"
    "w_active_connections (session_cleanup E s w) = w_active_connections w - 1"
    "w_alive (session_cleanup E s w) = w_alive w"
    "w_jobs (session_cleanup E s w) = w_jobs w @ [Job_last_seen u (e_clk E (w_clk w))]"
proof -
  have u: "ss_user_id (reset_heartbeat t ss) = u" for t
    using assms(2) by (simp add: reset_heartbeat_def heartbeat_start_def)
  show "w_registry (session_cleanup E s w) = registry_remove (w_alive w) (w_registry w) u (Some s)"
    "w_active_sessions (session_cleanup E s w) = w_active_sessions w - 1"
    "w_active_connections (session_cleanup E s w) = w_active_connections w - 1"
    "w_alive (session_cleanup E s w) = w_alive w"
    "w_jobs (session_cleanup E s w) = w_jobs w @ [Job_last_seen u (e_clk E (w_clk w))]"
    using assms(1,3) u
    by (auto simp: session_cleanup_def Let_def w_steady_now_def w_now_def w_spawn_def w_alive_def fun_eq_iff)
qed

lemma leave_simps [simp]:
  "leave E s RunReturn w = enter Ended s w" "leave E s RunThrow w = enter Ended s (session_cleanup E s w)"
  by (simp_all add: leave_def)

lemma core_leave:
  assumes "w_sessions w s = Some ss"
  shows "core (leave E s e w) =
    ((if e = RunThrow \<and> ss_user_id ss \<noteq> 0 then registry_remove (w_alive w) (w_registry w) (ss_user_id ss) (Some s) else w_registry w),
     w_active_sessions w - (if e = RunThrow \<and> ss_user_id ss \<noteq> 0 then 1 else 0),
     w_active_connections w - (if e = RunThrow \<and> ss_user_id ss \<noteq> 0 then 1 else 0),
     (snd (snd (snd (core w))))(s \<mapsto> (ss_kind ss, ss_user_id ss, Ended)))"
proof -
  have u: "ss_user_id (reset_heartbeat t ss) = ss_user_id ss" "ss_kind (reset_heartbeat t ss) = ss_kind ss" for t
    by (simp_all add: reset_heartbeat_def heartbeat_start_def)
  show ?thesis
    using assms u
    by (auto simp: leave_def core_def session_cleanup_def Let_def w_steady_now_def w_now_def w_spawn_def fun_eq_iff
        split: run_exit.splits)
qed

lemma session_cleanup_restores:
  assumes "w_alive w s" "w_registry w2 = registry_insert (w_registry w) u s" "w_alive w2 = w_alive w"
    "w_sessions w2 s = Some ss" "ss_user_id ss = u" "u \<noteq> 0"
  shows "w_lookup (session_cleanup E s w2) v = (if v = u then None else w_lookup w v)"
  using assms session_cleanup_effect(1,4) [OF assms(4-6), of E]
  by (simp add: w_lookup_def registry_lookup_remove registry_lookup_insert)

section \<open>Lemmas on liveness\<close>

lemma live_tcp_write [simp]: "live (snd (tcp_write s h w)) = live w"
  by (auto simp: tcp_write_def split: option.splits)

lemma live_group_fanout [simp]: "live (group_fanout E u g i b ms w) = live w"
  by (induction ms arbitrary: w) (simp_all add: Let_def split: option.splits)

lemma live_dm_deliver [simp]: "live (dm_deliver E u r c i b w) = live w"
  by (simp add: dm_deliver_def Let_def split: option.splits)

lemma live_tcp_route:
  assumes "live w" "clock_moves (e_clk E)"
  obtains w' where "tcp_route_message E u hdr p w = Some w'" "live w'"
proof -
  obtain i w1 where s: "w_snowflake E w = Some (i, w1)" "live w1"
    using assms by (rule live_snowflake)
  have "live (snd (w_now E w1))" using s by simp
  then obtain ms w2 where m: "resolve_members E (fh_recipient_id hdr) (snd (w_now E w1)) = Some (ms, w2)" "live w2"
    by (rule live_resolve_members)
  show ?thesis
  proof (cases "fh_flags hdr AND kFlagIsGroup = 0")
    case True
    with s that show ?thesis
      by (simp add: tcp_route_message_def route_dm_def Let_def split_beta)
  next
    case False
    with s m that show ?thesis
      by (simp add: tcp_route_message_def route_group_def Let_def split_beta)
  qed
qed

lemma live_tcp_typing:
  assumes "live w"
  obtains w' where "tcp_typing E u hdr w = Some w'" "live w'"
proof -
  obtain ms w2 where "resolve_members E (fh_recipient_id hdr) w = Some (ms, w2)" "live w2"
    using assms by (rule live_resolve_members)
  with assms that show ?thesis by (cases "fh_flags hdr AND kFlagIsGroup = 0") (simp_all add: tcp_typing_def Let_def)
qed

lemma live_tcp_chat:
  assumes "live w" "clock_moves (e_clk E)" "read_frame_header input = Some (hdr, rest)"
    and "fh_msg_type hdr = MsgType_CHAT" "fh_msg_type hdr \<noteq> MsgType_PING"
  obtains r w' where "tcp_frame E s u input w = Some (r, w')" "live w'"
proof (cases "unat (fh_payload_len hdr) > 2 ^ 20 \<or> read_frame_payload (fh_payload_len hdr) rest = None \<or> w_sessions w s = None")
  case True
  then have "tcp_frame E s u input w = Some (Inl RunReturn, w) \<or> tcp_frame E s u input w = Some (Inl RunThrow, w)"
    using assms(3,4,5) by (cases "read_frame_payload (fh_payload_len hdr) rest"; cases "w_sessions w s")
      (auto simp: tcp_frame_def)
  with assms(1) that show ?thesis by blast
next
  case False
  then obtain pl rest' ss where p: "read_frame_payload (fh_payload_len hdr) rest = Some (pl, rest')"
    "w_sessions w s = Some ss" by auto
  define w1 where "w1 = upd_session s (\<lambda>ss'. ss'\<lparr>ss_bucket :=
     snd (consume (e_rnd E) (ss_bucket ss) (fst (w_steady_now E w)))\<rparr>) (snd (w_steady_now E w))"
  then have "live w1" using assms(1) by simp
  moreover then obtain w' where "tcp_route_message E u hdr pl w1 = Some w'" "live w'"
    using live_tcp_route assms(2) by blast
  ultimately show ?thesis
    using assms(3,4,5) False p that
    by (cases "fst (consume (e_rnd E) (ss_bucket ss) (fst (w_steady_now E w)))")
      (simp_all add: tcp_frame_def Let_def split_beta w1_def)
qed

lemma live_tcp_frame:
  assumes "live w" "clock_moves (e_clk E)"
  obtains r w' where "tcp_frame E s u input w = Some (r, w')" "live w'"
proof (cases "read_frame_header input")
  case None
  with assms that show ?thesis by (simp add: tcp_frame_def)
next
  case (Some p)
  then obtain hdr rest where h: "read_frame_header input = Some (hdr, rest)" by (cases p) auto
  note d = tcp_frame_def h Let_def split_beta
  consider "fh_msg_type hdr = MsgType_PING" | "fh_msg_type hdr = MsgType_CHAT" "fh_msg_type hdr \<noteq> MsgType_PING"
    | "fh_msg_type hdr = MsgType_TYPING" "fh_msg_type hdr \<noteq> MsgType_PING" "fh_msg_type hdr \<noteq> MsgType_CHAT"
    | "fh_msg_type hdr \<noteq> MsgType_PING" "fh_msg_type hdr \<noteq> MsgType_CHAT" "fh_msg_type hdr \<noteq> MsgType_TYPING"
    by blast
  then show ?thesis
  proof cases
    case 1
    with assms that show ?thesis by (simp add: d)
  next
    case 2
    then show ?thesis using live_tcp_chat [OF assms h, of s u] that by blast
  next
    case 3
    obtain w' where "tcp_typing E u hdr w = Some w'" "live w'" using assms(1) by (rule live_tcp_typing)
    with 3 that show ?thesis by (simp add: d)
  next
    case 4
    then have "\<exists>r. tcp_frame E s u input w = Some (r, w)"
      by (cases "read_frame_payload (fh_payload_len hdr) rest") (auto simp: d)
    with assms that show ?thesis by blast
  qed
qed

lemma live_tcp_loop:
  "live w \<Longrightarrow> clock_moves (e_clk E) \<Longrightarrow> \<exists>e w'. tcp_loop E s u input w = Some (e, w') \<and> live w'"
proof (induction E s u input w rule: tcp_loop.induct)
  case (1 E s u input w)
  obtain r w1 where f: "tcp_frame E s u input w = Some (r, w1)" "live w1"
    using "1.prems" by (rule live_tcp_frame)
  show ?case
  proof (cases r)
    case (Inl e)
    with f show ?thesis by (simp add: tcp_loop.simps [of E s u input w])
  next
    case (Inr input')
    with f "1.IH" [OF f(1) refl Inr f(2) "1.prems"(2)] show ?thesis
      by (simp add: tcp_loop.simps [of E s u input w])
  qed
qed

lemma live_tcp_auth: "live w \<Longrightarrow> live (snd (tcp_auth E s input w))"
  by (auto simp: tcp_auth_def session_online_def tcp_flush_offline_queue_def Let_def split_beta
      split: option.splits if_splits)

lemma live_session_cleanup: "live w \<Longrightarrow> live (session_cleanup E s w)"
  by (simp add: session_cleanup_def Let_def split_beta live_def w_spawn_def w_now_def w_steady_now_def)

section \<open>A login for the examples\<close>

text \<open>A new TCP connection, session 3, and the bytes of an \<open>AUTH\<close> frame for user 7.\<close>

definition demo_accepted :: "(rstore, cass_ref) world" where
  "demo_accepted = demo_world\<lparr>w_sessions := (w_sessions demo_world)(3 \<mapsto> session_init Tcp 0)\<rparr>"

definition demo_login :: bytes where
  "demo_login = write_frame (FrameHeader_zero\<lparr>fh_payload_len := 1, fh_msg_type := MsgType_AUTH\<rparr>) [55]"

definition demo_oversize :: bytes where
  "demo_oversize = header_bytes (FrameHeader_zero\<lparr>fh_payload_len := 1048577, fh_msg_type := MsgType_CHAT\<rparr>)"

lemma demo_login_read:
  "read_frame_header (demo_login @ rest) =
     Some (FrameHeader_zero\<lparr>fh_payload_len := 1, fh_msg_type := MsgType_AUTH\<rparr>, 55 # rest)"
  by (simp add: demo_login_def write_frame_def)

lemma demo_auth_at:
  assumes "w_sessions w 3 = Some (session_init Tcp 0)"
  shows "\<exists>w1. tcp_auth demo_env 3 (demo_login @ rest) w = (Inr rest, w1) \<and> map_option ss_user_id (w_sessions w1 3) = Some 7"
proof -
  have p: "read_frame_payload 1 (55 # rest) = Some ([55], rest)"
    by (simp add: read_frame_payload_def)
  have v: "jwt_verify demo_jwt x y (chars_of_bytes [55]) = Some 7" for x y
    by (simp add: jwt_verify_def demo_jwt_def) code_simp
  have e: "e_jwt demo_env = demo_jwt" by (simp add: demo_env_def)
  show ?thesis
    unfolding tcp_auth_def demo_login_read
    by (simp add: p e v split_beta Let_def FrameHeader_zero_def tcp_write_def session_online_def
        tcp_flush_offline_queue_def assms w_now_def session_init_def heartbeat_start_def)
qed

lemma demo_auth:
  "\<exists>w1. tcp_auth demo_env 3 (demo_login @ rest) demo_accepted = (Inr rest, w1) \<and>
     map_option ss_user_id (w_sessions w1 3) = Some 7"
  by (rule demo_auth_at) (simp add: demo_accepted_def)

lemma demo_accepted_simps [simp]:
  "w_alive demo_accepted 3" "w_lookup demo_accepted 12 = Some 2" "w_active_sessions demo_accepted = 2"
  by (simp_all add: demo_accepted_def w_alive_def w_lookup_def demo_world_def registry_lookup_def)

section \<open>Properties\<close>

text \<open>C11. A direct message is delivered exactly once: as soon as the identifier generator returns, routing
  succeeds, and either the recipient's live session is handed one copy and the sender's session a
  delivery receipt, or one copy is pushed to the recipient's offline queue and its unread counter will be
  incremented; in both cases the message is also scheduled for the history, its conversation is
  recorded, and no other session receives anything.\<close>

theorem tcp_dm_delivery:
  assumes "fh_flags hdr AND kFlagIsGroup = 0" and "w_snowflake E w = Some (i, w1)"
  shows "\<exists>w'. tcp_route_message E u hdr p w = Some w' \<and>
    (let r = fh_recipient_id hdr; c = min u r; ts = e_clk E (w_clk w1);
         b = serialize_delivery (dm_message u r i ts p)
     in w_redis w' = (if w_lookup w r = None then lpush (e_rx E) (w_redis w) (offline_key r) b else w_redis w) \<and>
        (\<forall>s. mailbox w' s = mailbox w s @ (if w_lookup w r = Some s then [b] else []) @
           (if w_lookup w r \<noteq> None \<and> w_lookup w u = Some s
            then [serialize_delivery (receipt_for i r u c 0)] else [])) \<and>
        w_jobs w' = w_jobs w @ (if w_lookup w r = None then [Job_hincrby r c] else []) @
          [Job_store c i u r p ts MsgType_CHAT, Job_upsert c u r, Job_activity c False (preview p)])"
proof -
  note s = snowflake_same [OF assms(2)] snowflake_lookup [OF assms(2)]
  show ?thesis
    using assms(1) s
    by (simp add: tcp_route_message_def route_dm_def assms(2) Let_def split_beta dm_deliver_effect)
      (simp add: w_now_def)
qed

theorem tcp_dm_delivery_witness:
  "\<exists>w'. tcp_route_message demo_env 7 (FrameHeader_zero\<lparr>fh_recipient_id := 9\<rparr>) [104, 105] demo_world = Some w' \<and>
     mailbox w' 1 = [] \<and>
     w_redis w' = lpush ref_exec rstore_empty (offline_key 9)
       (serialize_delivery (dm_message 7 9 (snowflake_id 1000 1 0) (1001 + EPOCH_MS) [104, 105]))"
  using tcp_dm_delivery [OF _ demo_snowflake, of "FrameHeader_zero\<lparr>fh_recipient_id := 9\<rparr>" 7 "[104, 105]"]
  by (auto simp: FrameHeader_zero_def Let_def)



text \<open>C29. Ending a session undoes its beginning.  When the client closes the connection after it has been
  authenticated as user \<open>u\<close>, the session is no longer found for \<open>u\<close> and nobody else's entry has
  changed; the gauge of active sessions is back where it was, the gauge of connections is one lower, and the
  time of departure is recorded in PostgreSQL.\<close>

theorem tcp_run_cleans_up:
  assumes "w_alive w s" and "tcp_auth E s input w = (Inr rest, w1)"
    and "u = ss_user_id (the (w_sessions w1 s))" and "u \<noteq> 0"
    and "tcp_loop E s u rest w1 = Some (RunThrow, w2)"
  shows "\<exists>w' ts. tcp_run E s input w = Some w' \<and> w_lookup w' u \<noteq> Some s \<and>
    (\<forall>v. v \<noteq> u \<longrightarrow> w_lookup w' v = w_lookup w v) \<and>
    w_active_sessions w' = w_active_sessions w \<and> w_active_connections w' = w_active_connections w - 1 \<and>
    w_jobs w' = w_jobs w2 @ [Job_last_seen u ts]"
proof -
  obtain a: "w_alive w1 s" "w_registry w1 = registry_insert (w_registry w) u s" "w_sessions w1 s \<noteq> None"
    "w_active_sessions w1 = w_active_sessions w + 1" "w_active_connections w1 = w_active_connections w"
    "w_alive w1 = w_alive w"
    using tcp_auth_Inr [OF assms(2,1)] assms(3) by metis
  have c: "core w2 = core w1" using assms(5) by (rule core_tcp_loop)
  obtain ss where ss: "w_sessions w2 s = Some ss" "ss_user_id ss = u"
    using a(3) core_user_id [OF c, of s] assms(3) by (cases "w_sessions w1 s"; cases "w_sessions w2 s") auto
  note e = session_cleanup_effect [OF ss assms(4)]
  define w' where "w' = leave E s RunThrow w2"
  have r: "tcp_run E s input w = Some w'"
    using assms(2,5) a(3) assms(3) by (auto simp: tcp_run_def w'_def)
  have cc: "w_registry w2 = w_registry w1" "w_active_sessions w2 = w_active_sessions w1"
    "w_active_connections w2 = w_active_connections w1" using c by (simp_all add: core_def)
  have al: "w_alive w2 = w_alive w" using core_alive [OF c] a(6) by simp
  have "w_lookup w' v = (if v = u then None else w_lookup w v)" for v
    using a(2) cc al ss by (simp add: w'_def session_cleanup_restores [OF assms(1) _ _ ss assms(4)])
  then show ?thesis using r e a cc by (auto simp: w'_def)
qed

theorem tcp_run_cleans_up_witness:
  "\<exists>w'. tcp_run demo_env 3 demo_login demo_accepted = Some w' \<and> w_lookup w' 7 \<noteq> Some 3 \<and>
     w_lookup w' 12 = Some 2 \<and> w_active_sessions w' = 2"
proof -
  obtain w1 where a: "tcp_auth demo_env 3 (demo_login @ []) demo_accepted = (Inr [], w1)"
    "map_option ss_user_id (w_sessions w1 3) = Some 7" using demo_auth by blast
  have "tcp_loop demo_env 3 7 [] w1 = Some (RunThrow, w1)"
    by (simp add: tcp_loop.simps tcp_frame_def read_frame_header_def)
  with a show ?thesis
    using tcp_run_cleans_up [of demo_accepted 3 demo_env demo_login "[]" w1 7 w1] by force
qed

text \<open>An oversize chat frame leaves \<open>run\<close> without the clean-up: the session is over, yet the user is
  still registered with it, the gauge of active sessions stays one too high and the connection gauge is
  not lowered.\<close>

theorem tcp_run_abandoned:
  assumes "w_alive w s" and "tcp_auth E s input w = (Inr rest, w1)"
    and "u = ss_user_id (the (w_sessions w1 s))"
    and "read_frame_header rest = Some (hdr, rest2)" and "fh_msg_type hdr = MsgType_CHAT"
    and "unat (fh_payload_len hdr) > 2 ^ 20"
  shows "\<exists>w'. tcp_run E s input w = Some w' \<and> w_lookup w' u = Some s \<and>
    map_option ss_phase (w_sessions w' s) = Some Ended \<and>
    w_active_sessions w' = w_active_sessions w + 1 \<and> w_active_connections w' = w_active_connections w"
proof -
  obtain a: "w_alive w1 s" "w_registry w1 = registry_insert (w_registry w) u s" "w_sessions w1 s \<noteq> None"
    "w_active_sessions w1 = w_active_sessions w + 1" "w_active_connections w1 = w_active_connections w"
    "w_alive w1 = w_alive w"
    using tcp_auth_Inr [OF assms(2,1)] assms(3) by metis
  have "tcp_frame E s u rest w1 = Some (Inl RunReturn, w1)"
    using assms(4-6) by (simp add: tcp_frame_def MsgType_CHAT_def MsgType_PING_def)
  then have "tcp_loop E s u rest w1 = Some (RunReturn, w1)"
    by (simp add: tcp_loop.simps [of E s u rest w1])
  then have r: "tcp_run E s input w = Some (leave E s RunReturn w1)"
    using assms(2,3) a(3) by (auto simp: tcp_run_def)
  have "w_lookup w1 u = Some s"
    using a(1,2) by (simp add: w_lookup_def registry_lookup_insert)
  with r a show ?thesis by auto
qed

theorem tcp_run_abandoned_witness:
  "\<exists>w'. tcp_run demo_env 3 (demo_login @ demo_oversize) demo_accepted = Some w' \<and> w_lookup w' 7 = Some 3 \<and>
     w_active_sessions w' = 3"
proof -
  obtain w1 where a: "tcp_auth demo_env 3 (demo_login @ demo_oversize) demo_accepted = (Inr demo_oversize, w1)"
    "map_option ss_user_id (w_sessions w1 3) = Some 7" using demo_auth by blast
  have "read_frame_header demo_oversize =
      Some (FrameHeader_zero\<lparr>fh_payload_len := 1048577, fh_msg_type := MsgType_CHAT\<rparr>, [])"
    using read_frame_header_append [of _ "[]"] by (simp add: demo_oversize_def)
  with a show ?thesis
    using tcp_run_abandoned [of demo_accepted 3 demo_env "demo_login @ demo_oversize" demo_oversize w1 7
        "FrameHeader_zero\<lparr>fh_payload_len := 1048577, fh_msg_type := MsgType_CHAT\<rparr>" "[]"] by force
qed

text \<open>A session always ends: when the clock keeps moving and the pool has a connection to lend, \<open>run\<close>
  returns on every finite input, whatever the client sends, and leaves the server able to serve the next
  session.\<close>

theorem tcp_run_returns:
  assumes "live w" "clock_moves (e_clk E)"
  shows "\<exists>w'. tcp_run E s input w = Some w' \<and> live w'"
proof -
  obtain r w1 where a: "tcp_auth E s input w = (r, w1)" by fastforce
  then have l: "live w1" using live_tcp_auth [OF assms(1), of E s input] by simp
  show ?thesis
  proof (cases r)
    case (Inl e)
    with a l show ?thesis
      by (cases e) (simp_all add: tcp_run_def live_session_cleanup)
  next
    case (Inr rest)
    obtain e w2 where "tcp_loop E s (case w_sessions w1 s of Some ss \<Rightarrow> ss_user_id ss | None \<Rightarrow> 0) rest w1 = Some (e, w2)"
      "live w2" using live_tcp_loop [OF l assms(2)] by blast
    with a Inr show ?thesis by (cases e) (simp_all add: tcp_run_def live_session_cleanup)
  qed
qed

theorem tcp_run_returns_witness:
  "live demo_world \<and> (\<exists>w'. tcp_run demo_env 1 [0, 0, 0] demo_world = Some w' \<and> live w')"
  using tcp_run_returns [OF demo_live, of 1 "[0, 0, 0]"] demo_live by simp

end
