(* ===== verification/Ws_Session.thy ===== *)
theory Ws_Session
  imports Tcp_Session
begin

text \<open>
  \<open>src/server/src/ws/WebSocketSession.cpp\<close>: a browser connection that speaks JSON.  The input is the list of
  frames that the client sends before it closes, each with the flag \<open>got_text()\<close>.  A routine that can throw
  returns \<open>False\<close> with the state it leaves behind; \<open>run\<close> then goes on to its clean-up.
\<close>

section \<open>Writing\<close>

definition ws_push :: "string \<Rightarrow> session \<Rightarrow> session" where
  "ws_push text ss =
     (let ss = ss\<lparr>ss_write_queue := ss_write_queue ss @ [Text text]\<rparr>
      in if \<not> ss_writing ss then ss\<lparr>ss_writing := True\<rparr> else ss)"

definition jstr_u64 :: "u64 \<Rightarrow> json" where
  "jstr_u64 n = JStr (to_string_u64 n)"

definition ws_delivery_json :: "OutboundMessage \<Rightarrow> json" where
  "ws_delivery_json message =
     (if om_msg_type message = MsgType_DELETE_NOTIFY then
        JObj [(''type'', JStr ''delete_notify''), (''msg_id'', jstr_u64 (om_msg_id message)),
              (''conv_id'', jstr_u64 (om_conv_id message))]
      else if om_msg_type message = MsgType_DELIVERED then
        JObj [(''type'', JStr ''delivered''), (''msg_id'', jstr_u64 (om_msg_id message)),
              (''conv_id'', jstr_u64 (om_conv_id message)), (''user_id'', jstr_u64 (om_sender_id message))]
      else if om_msg_type message = MsgType_READ then
        JObj [(''type'', JStr ''read''), (''conv_id'', jstr_u64 (om_conv_id message)),
              (''user_id'', jstr_u64 (om_sender_id message))]
      else if om_msg_type message = MsgType_TYPING then
        JObj [(''type'', JStr ''typing''), (''conv_id'', jstr_u64 (om_conv_id message)),
              (''user_id'', jstr_u64 (om_sender_id message)),
              (''is_group'', JBool (om_flags message AND kFlagIsGroup \<noteq> 0))]
      else
        JObj ([(''type'', JStr ''chat''), (''msg_id'', jstr_u64 (om_msg_id message)),
               (''conv_id'', jstr_u64 (om_conv_id message)), (''sender_id'', jstr_u64 (om_sender_id message)),
               (''content'', JStr (chars_of_bytes (om_content message))),
               (''ts_ms'', JInt (sint (om_timestamp_ms message)))] @
              (if om_flags message AND kFlagIsGroup \<noteq> 0
               then [(''group_id'', jstr_u64 (om_conv_id message))] else [])))"

text \<open>\<open>None\<close>: \<open>j.dump()\<close> throws.\<close>

definition ws_enqueue :: "('r, 'c) env \<Rightarrow> bytes \<Rightarrow> session \<Rightarrow> session option" where
  "ws_enqueue E frame ss =
     (case deserialize_delivery (e_pb_parse E) frame of
        None \<Rightarrow> Some ss
      | Some message \<Rightarrow>
          (case jl_dump (e_json E) (ws_delivery_json message) of
             None \<Rightarrow> None
           | Some text \<Rightarrow> Some (ws_push text ss)))"

text \<open>\<open>do_write\<close>: one round of its loop; a failed write has taken the text from the queue.\<close>

definition ws_do_write_step :: "session \<Rightarrow> session" where
  "ws_do_write_step ss =
     (if ss_write_queue ss \<noteq> []
      then let text = hd (ss_write_queue ss); ss = ss\<lparr>ss_write_queue := tl (ss_write_queue ss)\<rparr>
           in if ss_open ss then ss\<lparr>ss_sent := ss_sent ss @ [text]\<rparr> else ss\<lparr>ss_writing := False\<rparr>
      else ss\<lparr>ss_writing := False\<rparr>)"

text \<open>\<open>heartbeat_loop\<close> from one wait to the next: \<open>cancelled\<close> is the error code of the wait.\<close>

definition ws_heartbeat_round :: "bool \<Rightarrow> int \<Rightarrow> session \<Rightarrow> session" where
  "ws_heartbeat_round cancelled now ss =
     (if ss_heartbeat ss = None then ss
      else if \<not> cancelled then ss\<lparr>ss_open := False, ss_heartbeat := None\<rparr>
      else ss\<lparr>ss_heartbeat := Some (now + 30 * 1000000000)\<rparr>)"

text \<open>Both kinds of session write and time out in the same way, so that the steps of the system need not tell them apart.\<close>

lemma ws_do_write_step_eq: "ws_do_write_step = do_write_step"
  by (auto simp: fun_eq_iff ws_do_write_step_def do_write_step_def Let_def split: list.splits)

lemma ws_heartbeat_round_eq:
  "ws_heartbeat_round True now ss = reset_heartbeat now ss"
  "ss_heartbeat ss = Some t \<Longrightarrow> t \<le> now \<Longrightarrow> ws_heartbeat_round False now ss = heartbeat_expire now ss"
  by (simp_all add: ws_heartbeat_round_def reset_heartbeat_def heartbeat_start_def heartbeat_expire_def)

text \<open>A direct \<open>co_await ws_.async_write\<close>.\<close>

definition ws_write :: "sid \<Rightarrow> string \<Rightarrow> ('r, 'c) world \<Rightarrow> bool \<times> ('r, 'c) world" where
  "ws_write s text w =
     (case w_sessions w s of
        None \<Rightarrow> (False, w)
      | Some ss \<Rightarrow>
          if ss_open ss then (True, upd_session s (\<lambda>ss. ss\<lparr>ss_sent := ss_sent ss @ [Text text]\<rparr>) w)
          else (False, w))"

section \<open>Routing\<close>

text \<open>\<open>load_group_members_from_pg\<close> is written out again in this class; it is the function of the TCP session.\<close>

definition ws_load_group_members_from_pg ::
  "('r, 'c) env \<Rightarrow> u64 \<Rightarrow> ('r, 'c) world \<Rightarrow> (u64 list \<times> ('r, 'c) world) option" where
  "ws_load_group_members_from_pg E group_id w = do {
     (rows, w) \<leftarrow> w_exec E (select_group_members group_id) ReadOnly w;
     Some (case rows of Inl e \<Rightarrow> ([], w) | Inr ids \<Rightarrow> (ids, w)) }"

lemma ws_load_group_members_eq: "ws_load_group_members_from_pg = load_group_members_from_pg"
  by (auto simp: fun_eq_iff ws_load_group_members_from_pg_def load_group_members_from_pg_def split: sum.split
      intro!: Option.bind_cong)

text \<open>The text of the receipt that \<open>route_message\<close> queues on its own session.\<close>

definition ws_receipt_text :: "('r, 'c) env \<Rightarrow> bytes \<Rightarrow> string option" where
  "ws_receipt_text E receipt_bytes =
     (case deserialize_delivery (e_pb_parse E) receipt_bytes of
        None \<Rightarrow> Some []
      | Some msg \<Rightarrow> jl_dump (e_json E) (JObj [(''type'', JStr ''delivered''), (''msg_id'', jstr_u64 (om_msg_id msg)),
          (''conv_id'', jstr_u64 (om_conv_id msg)), (''user_id'', jstr_u64 (om_sender_id msg))]))"

text \<open>The members of the JSON object that \<open>route_message\<close> and \<open>route_group_message\<close> read: \<open>None\<close> when
  \<open>value\<close> throws, \<open>Some None\<close> when the message is ignored.\<close>

definition ws_chat_fields :: "json_lib \<Rightarrow> string \<Rightarrow> json \<Rightarrow> (u64 \<times> string) option option" where
  "ws_chat_fields L id_key j = do {
     id_str \<leftarrow> jl_value_str L j id_key [];
     content \<leftarrow> jl_value_str L j ''content'' [];
     Some (if id_str = [] \<or> content = [] then None
           else map_option (\<lambda>i. (i, content)) (from_chars_u64 id_str)) }"

definition ws_message :: "u64 \<Rightarrow> u64 \<Rightarrow> u64 \<Rightarrow> u64 \<Rightarrow> i64 \<Rightarrow> u8 \<Rightarrow> string \<Rightarrow> OutboundMessage" where
  "ws_message conv_id msg_id sender recipient ts_ms flags content = OutboundMessage_init
     \<lparr>om_conv_id := conv_id, om_msg_id := msg_id, om_sender_id := sender, om_recipient_id := recipient,
      om_timestamp_ms := ts_ms, om_msg_type := MsgType_CHAT, om_flags := flags, om_content := bytes_of_chars content\<rparr>"

definition ws_deliver ::
  "('r, 'c) env \<Rightarrow> sid \<Rightarrow> u64 \<Rightarrow> u64 \<Rightarrow> u64 \<Rightarrow> u64 \<Rightarrow> bytes \<Rightarrow> ('r, 'c) world \<Rightarrow> bool \<times> ('r, 'c) world" where
  "ws_deliver E s user_id recipient_id conv_id msg_id delivery w =
     (case w_lookup w recipient_id of
        Some recipient_session \<Rightarrow>
          (let w = w_post recipient_session delivery w
           in case ws_receipt_text E (serialize_delivery (receipt_for msg_id recipient_id user_id conv_id 0)) of
                None \<Rightarrow> (False, w)
              | Some text \<Rightarrow> (True, upd_session s (ws_push text) w))
      | None \<Rightarrow> (True, w_spawn (Job_hincrby recipient_id conv_id) (w_lpush E recipient_id delivery w)))"

definition ws_route_message ::
  "('r, 'c) env \<Rightarrow> sid \<Rightarrow> u64 \<Rightarrow> string \<Rightarrow> ('r, 'c) world \<Rightarrow> (bool \<times> ('r, 'c) world) option" where
  "ws_route_message E s user_id text w =
     (case jl_parse (e_json E) text of
        None \<Rightarrow> Some (True, w)
      | Some j \<Rightarrow>
     (case ws_chat_fields (e_json E) ''conv_id'' j of
        None \<Rightarrow> Some (False, w)
      | Some None \<Rightarrow> Some (True, w)
      | Some (Some (conv_id, content)) \<Rightarrow> do {
          (rows, w) \<leftarrow> w_exec E (select_conv_peer conv_id user_id) ReadOnly w;
          (case rows of
             Inl _ \<Rightarrow> Some (True, w)
           | Inr [] \<Rightarrow> Some (True, w)
           | Inr (recipient_id # _) \<Rightarrow> do {
               (msg_id, w) \<leftarrow> w_snowflake E w;
               let (ts_ms, w) = w_now E w;
               let message = ws_message conv_id msg_id user_id recipient_id ts_ms 0 content;
               let w = w_spawn (Job_store conv_id msg_id user_id recipient_id (om_content message) ts_ms MsgType_CHAT) w;
               let (ok, w) = ws_deliver E s user_id recipient_id conv_id msg_id (serialize_delivery message) w;
               Some (if ok
                     then (True, w_count_message (w_spawn (Job_activity conv_id False (preview (om_content message))) w))
                     else (False, w)) }) }))"

fun ws_group_fanout ::
  "('r, 'c) env \<Rightarrow> u64 \<Rightarrow> u64 \<Rightarrow> bytes \<Rightarrow> u64 list \<Rightarrow> ('r, 'c) world \<Rightarrow> ('r, 'c) world" where
  "ws_group_fanout E user_id group_id delivery [] w = w"
| "ws_group_fanout E user_id group_id delivery (member_id # members) w =
     (let w = (if member_id = user_id then w
               else case w_lookup w member_id of
                 Some session \<Rightarrow> w_post session delivery w
               | None \<Rightarrow> w_spawn (Job_hincrby member_id group_id) (w_lpush E member_id delivery w))
      in ws_group_fanout E user_id group_id delivery members w)"

definition ws_route_group_message ::
  "('r, 'c) env \<Rightarrow> u64 \<Rightarrow> string \<Rightarrow> ('r, 'c) world \<Rightarrow> (bool \<times> ('r, 'c) world) option" where
  "ws_route_group_message E user_id text w =
     (case jl_parse (e_json E) text of
        None \<Rightarrow> Some (True, w)
      | Some j \<Rightarrow>
     (case ws_chat_fields (e_json E) ''group_id'' j of
        None \<Rightarrow> Some (False, w)
      | Some None \<Rightarrow> Some (True, w)
      | Some (Some (group_id, content)) \<Rightarrow> do {
          (msg_id, w) \<leftarrow> w_snowflake E w;
          let (ts_ms, w) = w_now E w;
          let message = ws_message group_id msg_id user_id group_id ts_ms kFlagIsGroup content;
          let w = w_spawn (Job_store group_id msg_id user_id group_id (om_content message) ts_ms MsgType_CHAT) w;
          (members, w) \<leftarrow> resolve_members E group_id w;
          let w = ws_group_fanout E user_id group_id (serialize_delivery message) members w;
          let w = w_spawn (Job_activity group_id True (preview (om_content message))) w;
          Some (True, w_count_message w) }))"

text \<open>\<open>conv_id\<close> and \<open>is_group\<close> of a typing indicator or a read receipt.\<close>

definition ws_event_fields :: "json_lib \<Rightarrow> json \<Rightarrow> (u64 \<times> bool) option option" where
  "ws_event_fields L j = do {
     conv_id_str \<leftarrow> jl_value_str L j ''conv_id'' [];
     is_group \<leftarrow> jl_value_bool L j ''is_group'' False;
     Some (if conv_id_str = [] then None
           else map_option (\<lambda>c. (c, is_group)) (from_chars_u64 conv_id_str)) }"

definition ws_event :: "u8 \<Rightarrow> u64 \<Rightarrow> u64 \<Rightarrow> bool \<Rightarrow> OutboundMessage" where
  "ws_event ty conv_id user_id is_group = OutboundMessage_init
     \<lparr>om_msg_type := ty, om_conv_id := conv_id, om_sender_id := user_id, om_recipient_id := conv_id,
      om_flags := (if is_group then kFlagIsGroup else 0)\<rparr>"

definition ws_relay ::
  "('r, 'c) env \<Rightarrow> u64 \<Rightarrow> u64 \<Rightarrow> bool \<Rightarrow> bytes \<Rightarrow> ('r, 'c) world \<Rightarrow> ('r, 'c) world option" where
  "ws_relay E user_id conv_id is_group b w =
     (if \<not> is_group then do {
        (rows, w) \<leftarrow> w_exec E (select_conv_peer conv_id user_id) ReadOnly w;
        Some (case rows of Inr (peer_id # _) \<Rightarrow> post_if_online peer_id b w | _ \<Rightarrow> w) }
      else do {
        (members, w) \<leftarrow> resolve_members E conv_id w;
        Some (relay_members user_id b members w) })"

definition ws_route_typing ::
  "('r, 'c) env \<Rightarrow> u64 \<Rightarrow> json \<Rightarrow> ('r, 'c) world \<Rightarrow> (bool \<times> ('r, 'c) world) option" where
  "ws_route_typing E user_id j w =
     (case ws_event_fields (e_json E) j of
        None \<Rightarrow> Some (False, w)
      | Some None \<Rightarrow> Some (True, w)
      | Some (Some (conv_id, is_group)) \<Rightarrow> do {
          w \<leftarrow> ws_relay E user_id conv_id is_group
                 (serialize_delivery (ws_event MsgType_TYPING conv_id user_id is_group)) w;
          Some (True, w) })"

definition ws_route_read_receipt ::
  "('r, 'c) env \<Rightarrow> u64 \<Rightarrow> json \<Rightarrow> ('r, 'c) world \<Rightarrow> (bool \<times> ('r, 'c) world) option" where
  "ws_route_read_receipt E user_id j w =
     (case ws_event_fields (e_json E) j of
        None \<Rightarrow> Some (False, w)
      | Some None \<Rightarrow> Some (True, w)
      | Some (Some (conv_id, is_group)) \<Rightarrow> do {
          let w = w\<lparr>w_redis := hdel_unread (e_rx E) (w_redis w) user_id conv_id\<rparr>;
          let w = w_spawn (Job_mark_read conv_id user_id) w;
          w \<leftarrow> ws_relay E user_id conv_id is_group
                 (serialize_delivery (ws_event MsgType_READ conv_id user_id is_group)) w;
          Some (True, w) })"

section \<open>run\<close>

fun ws_enqueue_all :: "('r, 'c) env \<Rightarrow> bytes list \<Rightarrow> session \<Rightarrow> bool \<times> session" where
  "ws_enqueue_all E [] ss = (True, ss)"
| "ws_enqueue_all E (frame # frames) ss =
     (case ws_enqueue E frame ss of None \<Rightarrow> (False, ss) | Some ss \<Rightarrow> ws_enqueue_all E frames ss)"

definition ws_flush_offline_queue :: "('r, 'c) env \<Rightarrow> sid \<Rightarrow> u64 \<Rightarrow> ('r, 'c) world \<Rightarrow> bool \<times> ('r, 'c) world" where
  "ws_flush_offline_queue E s user_id w =
     (let (frames, r) = lrange_and_del (e_rx E) (w_redis w) (offline_key user_id);
          w = w\<lparr>w_redis := r\<rparr>
      in case w_sessions w s of
           None \<Rightarrow> (False, w)
         | Some ss \<Rightarrow>
             (let (ok, ss') = ws_enqueue_all E frames ss in (ok, upd_session s (\<lambda>_. ss') w)))"

text \<open>A WebSocket session announces the server under another name, and its connection is counted only now.\<close>

definition ws_online :: "('r, 'c) env \<Rightarrow> sid \<Rightarrow> u64 \<Rightarrow> ('r, 'c) world \<Rightarrow> ('r, 'c) world" where
  "ws_online E s user_id w =
     (let w = session_online (E\<lparr>e_server_id := e_ws_server_id E\<rparr>) s user_id w
      in w\<lparr>w_active_connections := w_active_connections w + 1\<rparr>)"

definition ws_auth ::
  "('r, 'c) env \<Rightarrow> sid \<Rightarrow> string \<Rightarrow> ('r, 'c) world \<Rightarrow> (run_exit + unit) \<times> ('r, 'c) world" where
  "ws_auth E s auth_text w =
     (case jl_parse (e_json E) auth_text of
        None \<Rightarrow> (Inl RunReturn, w)
      | Some auth_j \<Rightarrow>
     (case jl_value_str (e_json E) auth_j ''type'' [] of
        None \<Rightarrow> (Inl RunThrow, w)
      | Some ty \<Rightarrow>
          if ty \<noteq> ''auth'' then (Inl RunReturn, w)
          else case jl_value_str (e_json E) auth_j ''token'' [] of
             None \<Rightarrow> (Inl RunThrow, w)
           | Some token \<Rightarrow>
               (let (now, w) = w_now E w
                in case jwt_verify (e_jwt E) (e_secret E) now token of
                     None \<Rightarrow>
                       (case jl_dump (e_json E) (JObj [(''type'', JStr ''error''), (''msg'', JStr ''invalid token'')]) of
                          None \<Rightarrow> (Inl RunThrow, w)
                        | Some text \<Rightarrow>
                            (let (ok, w) = ws_write s text w in (Inl (if ok then RunReturn else RunThrow), w)))
                   | Some user_id \<Rightarrow>
                       (let w = ws_online E s user_id w;
                            (ok, w) = ws_flush_offline_queue E s user_id w
                        in if \<not> ok then (Inl RunThrow, w)
                           else let (t, w) = w_steady_now E w
                                in (Inr (), enter Running s (upd_session s (heartbeat_start t) w))))))"

definition ws_frame ::
  "('r, 'c) env \<Rightarrow> sid \<Rightarrow> u64 \<Rightarrow> bool \<times> string \<Rightarrow> ('r, 'c) world \<Rightarrow> (bool \<times> ('r, 'c) world) option" where
  "ws_frame E s user_id frame w =
     (let (got_text, text) = frame
      in if \<not> got_text then Some (True, w)
         else case jl_parse (e_json E) text of
            None \<Rightarrow> Some (True, w)
          | Some j \<Rightarrow>
         (case jl_value_str (e_json E) j ''type'' [] of
            None \<Rightarrow> Some (False, w)
          | Some type \<Rightarrow>
              if type = ''ping'' then
                (let (t, w) = w_steady_now E w;
                     w = upd_session s (reset_heartbeat t) w
                 in case jl_dump (e_json E) (JObj [(''type'', JStr ''pong'')]) of
                      None \<Rightarrow> Some (False, w)
                    | Some pong \<Rightarrow> Some (True, upd_session s (ws_push pong) w))
              else if type = ''chat'' then ws_route_message E s user_id text w
              else if type = ''group_chat'' then ws_route_group_message E user_id text w
              else if type = ''typing'' then ws_route_typing E user_id j w
              else if type = ''read'' then ws_route_read_receipt E user_id j w
              else Some (True, w)))"

text \<open>\<open>read_loop\<close> only ends with an exception.\<close>

fun read_loop ::
  "('r, 'c) env \<Rightarrow> sid \<Rightarrow> u64 \<Rightarrow> (bool \<times> string) list \<Rightarrow> ('r, 'c) world \<Rightarrow> ('r, 'c) world option" where
  "read_loop E s user_id [] w = Some w"
| "read_loop E s user_id (frame # input) w = do {
     (ok, w) \<leftarrow> ws_frame E s user_id frame w;
     if ok then read_loop E s user_id input w else Some w }"

text \<open>\<open>accepted\<close>: the WebSocket handshake succeeded.\<close>

definition ws_run ::
  "('r, 'c) env \<Rightarrow> sid \<Rightarrow> bool \<Rightarrow> (bool \<times> string) list \<Rightarrow> ('r, 'c) world \<Rightarrow> ('r, 'c) world option" where
  "ws_run E s accepted input w = do {
     (e, w) \<leftarrow> (if \<not> accepted then Some (RunThrow, w)
       else case input of
              [] \<Rightarrow> Some (RunThrow, w)
            | frame # input \<Rightarrow>
                (case ws_auth E s (snd frame) w of
                   (Inl e, w) \<Rightarrow> Some (e, w)
                 | (Inr _, w) \<Rightarrow>
                     map_option (\<lambda>w. (RunThrow, w))
                       (read_loop E s (case w_sessions w s of Some ss \<Rightarrow> ss_user_id ss | None \<Rightarrow> 0) input w)));
     Some (leave E s e w) }"

section \<open>Lemmas\<close>

lemma ws_push_eq:
  "ws_push text ss = ss\<lparr>ss_write_queue := ss_write_queue ss @ [Text text], ss_writing := True\<rparr>"
  by (cases ss) (simp add: ws_push_def Let_def)

context json_library
begin

lemma utf8_to_string [simp]: "utf8 (to_string_u64 n)"
  by (simp add: ascii_utf8)

lemma utf8_literals [simp]:
  "utf8 ''type''" "utf8 ''msg_id''" "utf8 ''conv_id''" "utf8 ''user_id''" "utf8 ''sender_id''" "utf8 ''group_id''"
  "utf8 ''content''" "utf8 ''ts_ms''" "utf8 ''is_group''" "utf8 ''delete_notify''" "utf8 ''delivered''"
  "utf8 ''read''" "utf8 ''typing''" "utf8 ''chat''" "utf8 ''pong''" "utf8 ''error''" "utf8 ''msg''"
  "utf8 ''invalid token''"
  by (rule ascii_utf8, simp add: ascii_def)+

text \<open>Which deliveries cannot be written as JSON: a chat whose content is not UTF-8, and nothing else.\<close>

lemma delivery_dump:
  "jl_dump L (ws_delivery_json m) = None \<longleftrightarrow>
     om_msg_type m \<notin> {MsgType_DELETE_NOTIFY, MsgType_DELIVERED, MsgType_READ, MsgType_TYPING} \<and>
     \<not> utf8 (chars_of_bytes (om_content m))"
  unfolding dump_utf8 by (auto simp: ws_delivery_json_def jstr_u64_def)

lemma enqueue_throws:
  assumes "e_json E = L" "length (om_content m) < 2 ^ 32"
  shows "ws_enqueue E (serialize_delivery m) ss = None \<longleftrightarrow>
     om_msg_type m \<notin> {MsgType_DELETE_NOTIFY, MsgType_DELIVERED, MsgType_READ, MsgType_TYPING} \<and>
     \<not> utf8 (chars_of_bytes (om_content m))"
  using assms delivery_dump [of m]
  by (cases "jl_dump L (ws_delivery_json m)") (simp_all add: ws_enqueue_def deserialize_delivery_serialize)

lemma receipt_text: "e_json E = L \<Longrightarrow> \<exists>t. ws_receipt_text E (serialize_delivery (receipt_for i r u c f)) = Some t"
  using dump_utf8 [of "JObj [(''type'', JStr ''delivered''), (''msg_id'', jstr_u64 i), (''conv_id'', jstr_u64 c),
      (''user_id'', jstr_u64 r)]"]
  by (simp add: ws_receipt_text_def receipt_for_def deserialize_delivery_serialize OutboundMessage_init_def jstr_u64_def)

end

lemma eff_ws_push: "effects E w v \<Longrightarrow> effects E w (upd_session s (ws_push t) v)"
  by (auto intro!: eff_session simp: ws_push_eq)

lemma eff_ws_write: "effects E w v \<Longrightarrow> effects E w (snd (ws_write s t v))"
  by (auto simp: ws_write_def intro: eff_session split: option.splits)

lemma eff_ws_group_fanout: "effects E w v \<Longrightarrow> effects E w (ws_group_fanout E u g b ms v)"
proof (induction ms arbitrary: v)
  case (Cons m ms)
  show ?case
    by (auto simp: Let_def split: option.splits intro!: Cons.IH eff_primitive Cons.prems)
qed simp

lemma eff_ws_deliver: "effects E w v \<Longrightarrow> effects E w (snd (ws_deliver E s u r c i b v))"
  by (auto simp: ws_deliver_def Let_def intro: eff_primitive eff_ws_push split: option.splits)

lemma eff_select_peer:
  "w_exec E (select_conv_peer c u) rc v = Some (r, v') \<Longrightarrow> effects E w v \<Longrightarrow> effects E w v'"
  by (rule eff_exec) (auto simp: select_conv_peer_def)

lemma eff_ws_relay:
  assumes "ws_relay E u c g b v = Some v'" "effects E w v"
  shows "effects E w v'"
proof (cases g)
  case True
  with assms show ?thesis
    by (auto simp: ws_relay_def bind_eq_Some_conv intro: eff_relay_members eff_resolve_members)
next
  case False
  with assms obtain rows v1 where "w_exec E (select_conv_peer c u) ReadOnly v = Some (rows, v1)"
    "v' = (case rows of Inr (p # _) \<Rightarrow> post_if_online p b v1 | _ \<Rightarrow> v1)"
    by (auto simp: ws_relay_def bind_eq_Some_conv)
  with eff_select_peer [OF _ assms(2)] show ?thesis
    by (auto intro: eff_post_if_online split: sum.splits list.splits)
qed

lemma eff_ws_route_message:
  assumes "ws_route_message E s u t v = Some (ok, v')" "effects E w v"
  shows "effects E w v'"
proof (cases "jl_parse (e_json E) t")
  case None
  with assms show ?thesis by (simp add: ws_route_message_def)
next
  case (Some j)
  note d = ws_route_message_def Some Let_def
  show ?thesis
  proof (cases "ws_chat_fields (e_json E) ''conv_id'' j")
    case None
    with assms show ?thesis by (simp add: d)
  next
    case (Some f)
    show ?thesis
    proof (cases f)
      case None
      with assms Some show ?thesis by (simp add: d)
    next
      case (Some cc)
      then obtain c x where f: "ws_chat_fields (e_json E) ''conv_id'' j = Some (Some (c, x))"
        using \<open>ws_chat_fields _ _ _ = Some f\<close> by (cases cc) simp
      then obtain rows v1 where x: "w_exec E (select_conv_peer c u) ReadOnly v = Some (rows, v1)"
        using assms(1) by (auto simp: d bind_eq_Some_conv)
      note e1 = eff_select_peer [OF x assms(2)]
      show ?thesis
      proof (cases "\<exists>r rs. rows = Inr (r # rs)")
        case False
        then have "v' = v1" using assms(1) f x by (auto simp: d split: sum.splits list.splits)
        with e1 show ?thesis by simp
      next
        case True
        then obtain r rs where r: "rows = Inr (r # rs)" by blast
        then obtain i v2 where i: "w_snowflake E v1 = Some (i, v2)"
          using assms(1) f x by (auto simp: d bind_eq_Some_conv)
        have e2: "effects E w v2" using e1 i by (rule eff_snowflake)
        show ?thesis
          using assms(1) f x r i e2
          by (auto simp: d split_beta split: if_splits intro!: eff_primitive eff_ws_deliver)
      qed
    qed
  qed
qed

lemma eff_ws_route_group: "ws_route_group_message E u t v = Some (ok, v') \<Longrightarrow> effects E w v \<Longrightarrow> effects E w v'"
  by (auto simp: ws_route_group_message_def bind_eq_Some_conv Let_def split_beta split: option.splits
      intro!: eff_primitive eff_ws_group_fanout intro: eff_resolve_members [rotated] eff_snowflake)

lemma eff_ws_events:
  "ws_route_typing E u j v = Some (ok, v') \<Longrightarrow> effects E w v \<Longrightarrow> effects E w v'"
  "ws_route_read_receipt E u j v = Some (ok, v') \<Longrightarrow> effects E w v \<Longrightarrow> effects E w v'"
  by (auto simp: ws_route_typing_def ws_route_read_receipt_def bind_eq_Some_conv Let_def
      split: option.splits elim!: eff_ws_relay intro!: eff_primitive eff_redis)

lemma eff_ws_frame:
  assumes "ws_frame E s u frame v = Some (ok, v')" "effects E w v"
  shows "effects E w v'"
proof -
  have "effects E w (upd_session s (reset_heartbeat t) (snd (w_steady_now E v)))" for t
    using assms(2) by (intro eff_heartbeat eff_primitive)
  then show ?thesis
    using assms
    by (auto simp: ws_frame_def Let_def split_beta intro: eff_ws_push
        dest: eff_ws_route_message eff_ws_route_group eff_ws_events split: if_splits option.splits)
qed

lemma eff_read_loop: "read_loop E s u input v = Some v' \<Longrightarrow> effects E w v \<Longrightarrow> effects E w v'"
  by (induction input arbitrary: v) (auto simp: bind_eq_Some_conv split: if_splits dest!: eff_ws_frame)

section \<open>Liveness\<close>

lemma ws_relay_returns: "live w \<Longrightarrow> \<exists>w'. ws_relay E u c g b w = Some w'"
proof (cases g)
  case True
  assume "live w"
  then obtain ms w2 where "resolve_members E c w = Some (ms, w2)" by (rule live_resolve_members)
  with True show ?thesis by (simp add: ws_relay_def)
next
  case False
  assume "live w"
  then obtain r w2 where "w_exec E (select_conv_peer c u) ReadOnly w = Some (r, w2)" by (rule live_exec)
  with False show ?thesis by (simp add: ws_relay_def)
qed

lemma ws_route_message_returns:
  assumes "live w" "clock_moves (e_clk E)"
  shows "\<exists>r. ws_route_message E s u t w = Some r"
proof (cases "\<exists>j c x. jl_parse (e_json E) t = Some j \<and> ws_chat_fields (e_json E) ''conv_id'' j = Some (Some (c, x))")
  case False
  then show ?thesis
    by (cases "jl_parse (e_json E) t"; cases "ws_chat_fields (e_json E) ''conv_id'' (the (jl_parse (e_json E) t))")
      (auto simp: ws_route_message_def split: option.splits)
next
  case True
  then obtain j c x where f: "jl_parse (e_json E) t = Some j" "ws_chat_fields (e_json E) ''conv_id'' j = Some (Some (c, x))"
    by blast
  obtain rows w1 where x: "w_exec E (select_conv_peer c u) ReadOnly w = Some (rows, w1)" "live w1"
    using assms(1) by (rule live_exec)
  obtain i w2 where "w_snowflake E w1 = Some (i, w2)" using x(2) assms(2) by (rule live_snowflake)
  with f x show ?thesis
    by (cases rows) (auto simp: ws_route_message_def Let_def split_beta split: list.splits)
qed

lemma ws_route_group_returns:
  assumes "live w" "clock_moves (e_clk E)"
  shows "\<exists>r. ws_route_group_message E u t w = Some r"
proof (cases "\<exists>j c x. jl_parse (e_json E) t = Some j \<and> ws_chat_fields (e_json E) ''group_id'' j = Some (Some (c, x))")
  case False
  then show ?thesis
    by (cases "jl_parse (e_json E) t"; cases "ws_chat_fields (e_json E) ''group_id'' (the (jl_parse (e_json E) t))")
      (auto simp: ws_route_group_message_def split: option.splits)
next
  case True
  then obtain j c x where f: "jl_parse (e_json E) t = Some j" "ws_chat_fields (e_json E) ''group_id'' j = Some (Some (c, x))"
    by blast
  obtain i w2 where i: "w_snowflake E w = Some (i, w2)" "live w2" using assms by (rule live_snowflake)
  let ?jb = "Job_store c i u c (om_content (ws_message c i u c (fst (w_now E w2)) kFlagIsGroup x)) (fst (w_now E w2)) MsgType_CHAT"
  obtain ms w3 where "resolve_members E c (w_spawn ?jb (snd (w_now E w2))) = Some (ms, w3)"
    using live_resolve_members [of "w_spawn ?jb (snd (w_now E w2))" E c] i(2) by (metis live_primitive(3,5))
  with f i show ?thesis
    by (auto simp: ws_route_group_message_def Let_def split_beta)
qed

lemma ws_events_return:
  assumes "live w"
  shows "\<exists>r. ws_route_typing E u j w = Some r" "\<exists>r. ws_route_read_receipt E u j w = Some r"
proof -
  have r: "\<exists>v'. ws_relay E u c g b v = Some v'" if "live v" for c g b v
    using that by (rule ws_relay_returns)
  show "\<exists>r. ws_route_typing E u j w = Some r"
    using assms r [of w] by (auto simp: ws_route_typing_def split: option.splits) (metis bind.bind_lunit)
  show "\<exists>r. ws_route_read_receipt E u j w = Some r"
    using assms r [of "w_spawn _ (w\<lparr>w_redis := _\<rparr>)"]
    by (auto simp: ws_route_read_receipt_def Let_def split: option.splits)
      (metis bind.bind_lunit live_primitive(3,8))
qed

lemma ws_frame_returns:
  assumes "live w" "clock_moves (e_clk E)"
  shows "\<exists>ok w'. ws_frame E s u frame w = Some (ok, w')"
proof -
  obtain g t where fr: "frame = (g, t)" by (cases frame)
  show ?thesis
  proof (cases "\<exists>j ty. g \<and> jl_parse (e_json E) t = Some j \<and> jl_value_str (e_json E) j ''type'' [] = Some ty")
    case False
    then show ?thesis by (auto simp: ws_frame_def fr split: option.splits)
  next
    case True
    then obtain j ty where j: "g" "jl_parse (e_json E) t = Some j" "jl_value_str (e_json E) j ''type'' [] = Some ty"
      by blast
    obtain a b c d where
      "ws_route_message E s u t w = Some a" "ws_route_group_message E u t w = Some b"
      "ws_route_typing E u j w = Some c" "ws_route_read_receipt E u j w = Some d"
      using ws_route_message_returns [OF assms, of s u t] ws_route_group_returns [OF assms, of u t]
        ws_events_return [OF assms(1), of E u j] by blast
    with j have "ws_frame E s u frame w \<noteq> None"
      by (cases "jl_dump (e_json E) (JObj [(''type'', JStr ''pong'')])") (simp_all add: ws_frame_def fr Let_def split_beta del: not_None_eq)
    then show ?thesis by (cases "ws_frame E s u frame w") auto
  qed
qed

lemma read_loop_returns:
  "live w \<Longrightarrow> clock_moves (e_clk E) \<Longrightarrow> \<exists>w'. read_loop E s u input w = Some w'"
proof (induction input arbitrary: w)
  case (Cons f input)
  obtain ok w1 where f: "ws_frame E s u f w = Some (ok, w1)" using ws_frame_returns Cons.prems by blast
  have "live w1" using effects_live [OF eff_ws_frame [OF f eff_refl]] Cons.prems(1) by blast
  then show ?case using f Cons by (cases ok) simp_all
qed simp

section \<open>Delivery\<close>

lemma ws_deliver_effect:
  assumes "ws_receipt_text E (serialize_delivery (receipt_for i r u c 0)) = Some tx"
  shows "fst (ws_deliver E s u r c i b w)"
    "w_redis (snd (ws_deliver E s u r c i b w)) =
       (if w_lookup w r = None then lpush (e_rx E) (w_redis w) (offline_key r) b else w_redis w)"
    "w_jobs (snd (ws_deliver E s u r c i b w)) = w_jobs w @ (if w_lookup w r = None then [Job_hincrby r c] else [])"
    "mailbox (snd (ws_deliver E s u r c i b w)) t = mailbox w t @ (if w_lookup w r = Some t then [b] else [])"
proof -
  have m: "mailbox (upd_session s (ws_push x) v) = mailbox v" for x and v :: "('a, 'b) world"
    by (auto simp: mailbox_def ws_push_eq fun_eq_iff split: option.splits)
  show "mailbox (snd (ws_deliver E s u r c i b w)) t = mailbox w t @ (if w_lookup w r = Some t then [b] else [])"
    using assms by (auto simp: ws_deliver_def Let_def m w_lookup_w_alive split: option.splits)
qed (use assms in \<open>simp_all add: ws_deliver_def Let_def split: option.splits\<close>)

lemma exec_same:
  "w_exec E f rc w = Some (r, w') \<Longrightarrow> w_lookup w' = w_lookup w \<and> mailbox w' = mailbox w \<and> w_redis w' = w_redis w \<and>
     w_jobs w' = w_jobs w"
proof -
  assume x: "w_exec E f rc w = Some (r, w')"
  then obtain p where p: "w' = w\<lparr>w_pg := p\<rparr>" using w_exec_outcome by blast
  then have "mailbox w' = mailbox w" by (intro mailbox_cong) simp
  with p show ?thesis using core_lookup [OF core_exec [OF x]] by simp
qed

lemma ws_dm_effect:
  assumes "json_library (e_json E) utf8" and "jl_parse (e_json E) text = Some j"
    and "ws_chat_fields (e_json E) ''conv_id'' j = Some (Some (c, content))"
    and "w_exec E (select_conv_peer c u) ReadOnly w = Some (Inr (r # rs), w1)"
    and "w_snowflake E w1 = Some (i, w2)"
  shows "\<exists>w'. ws_route_message E s u text w = Some (True, w') \<and>
    (let ts = e_clk E (w_clk w2); m = ws_message c i u r ts 0 content; b = serialize_delivery m
     in w_redis w' = (if w_lookup w r = None then lpush (e_rx E) (w_redis w) (offline_key r) b else w_redis w) \<and>
        (\<forall>t. mailbox w' t = mailbox w t @ (if w_lookup w r = Some t then [b] else [])) \<and>
        w_jobs w' = w_jobs w @ [Job_store c i u r (om_content m) ts MsgType_CHAT] @
          (if w_lookup w r = None then [Job_hincrby r c] else []) @ [Job_activity c False (preview (om_content m))])"
proof -
  obtain tx where tx: "ws_receipt_text E (serialize_delivery (receipt_for i r u c 0)) = Some tx"
    using json_library.receipt_text [OF assms(1) refl] by blast
  note d = ws_deliver_effect [OF tx]
  have l: "w_lookup w2 = w_lookup w" "mailbox w2 = mailbox w" "w_redis w2 = w_redis w" "w_jobs w2 = w_jobs w"
    using snowflake_same [OF assms(5)] snowflake_lookup [OF assms(5)] exec_same [OF assms(4)] by simp_all
  show ?thesis
    by (simp add: ws_route_message_def assms(2-5) Let_def split_beta d l) (simp add: w_now_def)
qed

lemma select_conv_peer_outsider:
  assumes "(c, u) \<notin> set (db_conv_members d)" "(c, r) \<in> set (db_conv_members d)"
  shows "\<exists>r'. (c, r') \<in> set (db_conv_members d) \<and> select_conv_peer c u d = Inr ([r'], d)"
proof -
  let ?xs = "filter (\<lambda>(cv, v). cv = c \<and> v \<noteq> u) (db_conv_members d)"
  have "(c, r) \<in> set ?xs" using assms by auto
  then obtain p ps where p: "?xs = p # ps" by (cases ?xs) auto
  then have "p \<in> set ?xs" by simp
  then have "(c, snd p) \<in> set (db_conv_members d)" by auto
  with p show ?thesis by (auto simp: select_conv_peer_def query_def)
qed

section \<open>Registration and clean-up\<close>

lemma ws_enqueue_fields:
  "ws_enqueue E f ss = Some ss' \<Longrightarrow> ss_kind ss' = ss_kind ss \<and> ss_user_id ss' = ss_user_id ss \<and> ss_phase ss' = ss_phase ss"
  by (auto simp: ws_enqueue_def ws_push_eq split: option.splits)

lemma ws_enqueue_all_fields:
  "ws_enqueue_all E fs ss = (ok, ss') \<Longrightarrow>
     ss_kind ss' = ss_kind ss \<and> ss_user_id ss' = ss_user_id ss \<and> ss_phase ss' = ss_phase ss"
  by (induction fs arbitrary: ss) (auto dest: ws_enqueue_fields split: option.splits)

lemma core_ws_flush [simp]: "core (snd (ws_flush_offline_queue E s u w)) = core w"
proof (cases "w_sessions w s")
  case None
  then show ?thesis by (simp add: ws_flush_offline_queue_def Let_def split_beta)
next
  case (Some ss)
  obtain ok ss' where e: "ws_enqueue_all E (fst (lrange_and_del (e_rx E) (w_redis w) (offline_key u))) ss = (ok, ss')"
    by fastforce
  with Some ws_enqueue_all_fields [OF e] show ?thesis
    by (auto simp: ws_flush_offline_queue_def Let_def split_beta core_def fun_eq_iff)
qed

lemma ws_flush_other:
  "w_pg (snd (ws_flush_offline_queue E s u w)) = w_pg w" "w_sf (snd (ws_flush_offline_queue E s u w)) = w_sf w"
  by (simp_all add: ws_flush_offline_queue_def Let_def split_beta split: option.splits)

lemma ws_auth_other:
  "w_pg (snd (ws_auth E s text w)) = w_pg w" "w_sf (snd (ws_auth E s text w)) = w_sf w"
  by (auto simp: ws_auth_def ws_online_def session_online_def ws_write_def w_now_def w_steady_now_def Let_def split_beta ws_flush_other
      split: option.splits)

lemma live_ws_auth: "live w \<Longrightarrow> live (snd (ws_auth E s text w))"
  using live_cong [OF ws_auth_other(2,1)] by blast

lemma core_ws_online:
  "core (ws_online E s u w) = (registry_insert (w_registry w) u s, w_active_sessions w + 1, w_active_connections w + 1,
     (snd (snd (snd (core w))))(s := map_option (\<lambda>(k, _, p). (k, u, p)) (snd (snd (snd (core w))) s)))"
proof -
  have "core (v\<lparr>w_active_connections := c\<rparr>) = (w_registry v, w_active_sessions v, c, snd (snd (snd (core v))))"
    for v :: "('a, 'b) world" and c
    by (simp add: core_def)
  then show ?thesis
    by (simp add: ws_online_def core_session_online Let_def) (simp add: session_online_def Let_def)
qed

lemma core_ws_online_cong: "core w' = core w \<Longrightarrow> core (ws_online E s u w') = core (ws_online E s u w)"
  unfolding core_ws_online by (simp add: core_def)

lemma ws_auth_core:
  assumes "ws_auth E s text w = (r, w1)"
  obtains e where "r = Inl e" "core w1 = core w"
  | u where "r = Inl RunThrow" "core w1 = core (ws_online E s u w)"
  | u where "r = Inr ()" "core w1 = core (enter Running s (ws_online E s u w))"
proof (cases "\<exists>u j tk. jl_parse (e_json E) text = Some j \<and> jl_value_str (e_json E) j ''type'' [] = Some ''auth'' \<and>
    jl_value_str (e_json E) j ''token'' [] = Some tk \<and> jwt_verify (e_jwt E) (e_secret E) (fst (w_now E w)) tk = Some u")
  case False
  have "core (snd (ws_write s t v)) = core v" for t and v :: "('a, 'b) world"
    by (auto simp: ws_write_def split: option.splits)
  with False have "\<exists>e. r = Inl e \<and> core w1 = core w"
    using assms by (auto simp: ws_auth_def Let_def split_beta split: option.splits if_splits)
  with that show ?thesis by blast
next
  case True
  then obtain u j tk where h: "jl_parse (e_json E) text = Some j" "jl_value_str (e_json E) j ''type'' [] = Some ''auth''"
    "jl_value_str (e_json E) j ''token'' [] = Some tk" "jwt_verify (e_jwt E) (e_secret E) (fst (w_now E w)) tk = Some u"
    by blast
  define f where "f = ws_flush_offline_queue E s u (ws_online E s u (snd (w_now E w)))"
  have c: "core (snd f) = core (ws_online E s u w)"
    unfolding f_def by (simp add: core_ws_online_cong [of "snd (w_now E w)" w])
  have v: "core (enter Running s (upd_session s (heartbeat_start t) (snd (w_steady_now E (snd f))))) =
      core (enter Running s (ws_online E s u w))" for t
    by (rule core_enter_cong) (simp add: c)
  show ?thesis
  proof (cases "fst f")
    case True
    then have "r = Inr () \<and> w1 = enter Running s (upd_session s (heartbeat_start (fst (w_steady_now E (snd f)))) (snd (w_steady_now E (snd f))))"
      using assms h by (simp add: ws_auth_def Let_def split_beta f_def ws_online_def)
    with v that(3) show ?thesis by blast
  next
    case False
    then have "r = Inl RunThrow \<and> w1 = snd f"
      using assms h by (simp add: ws_auth_def Let_def split_beta f_def ws_online_def)
    with c that(2) show ?thesis by simp
  qed
qed

lemma ws_auth_Inr:
  assumes "ws_auth E s text w = (Inr x, w1)" "w_alive w s"
  obtains u where "map_option ss_user_id (w_sessions w1 s) = Some u" "w_alive w1 = w_alive w"
    "w_registry w1 = registry_insert (w_registry w) u s" "w_active_sessions w1 = w_active_sessions w + 1"
    "w_active_connections w1 = w_active_connections w + 1"
proof -
  obtain u where c: "core w1 = core (enter Running s (ws_online E s u w))"
    using assms(1) by (cases rule: ws_auth_core) auto
  have o: "w_sessions (ws_online E s u w) t = (if t = s then map_option (\<lambda>ss. ss\<lparr>ss_user_id := u\<rparr>) (w_sessions w s) else w_sessions w t)" for t
    by (simp add: ws_online_def session_online_def Let_def)
  have "w_alive w1 = w_alive w"
    unfolding core_alive [OF c] w_alive_enter by (auto simp: o w_alive_def fun_eq_iff)
  moreover have "map_option ss_user_id (w_sessions w1 s) = Some u"
    using core_user_id [OF c, of s] assms(2) by (auto simp: o w_alive_def)
  ultimately show ?thesis
    using c by (intro that [of u]) (simp_all add: core_def ws_online_def session_online_def Let_def)
qed

section \<open>A chat message for the examples\<close>

text \<open>The text \<open>m\<close> is parsed as a chat message for conversation 3.\<close>

definition chat_env :: "(rstore, cass_ref) env" where
  "chat_env = demo_env\<lparr>e_json := ref_json (\<lambda>t. if t = ''m'' then
     Some (JObj [(''type'', JStr ''chat''), (''conv_id'', JStr ''3''), (''content'', JStr ''hi'')]) else None)\<rparr>"

definition ping_env :: "(rstore, cass_ref) env" where
  "ping_env = demo_env\<lparr>e_json := ref_json (\<lambda>t. if t = ''m'' then Some (JObj [(''type'', JStr ''ping'')]) else None)\<rparr>"

definition login_env :: "(rstore, cass_ref) env" where
  "login_env = demo_env\<lparr>e_json := ref_json (\<lambda>t. if t = ''m'' then
     Some (JObj [(''type'', JStr ''auth''), (''token'', JStr ''7'')]) else None)\<rparr>"

lemma chat_env_json: "json_library (e_json chat_env) ascii"
  by (simp add: chat_env_def ref_jl.json_library_axioms)

lemma chat_env_parse:
  "jl_parse (e_json chat_env) ''m'' =
     Some (JObj [(''type'', JStr ''chat''), (''conv_id'', JStr ''3''), (''content'', JStr ''hi'')])"
  by (simp add: chat_env_def ref_json_def)

lemma chat_env_fields:
  "ws_chat_fields (e_json chat_env) ''conv_id'' (JObj [(''type'', JStr ''chat''), (''conv_id'', JStr ''3''), (''content'', JStr ''hi'')]) =
     Some (Some (3, ''hi''))"
proof -
  have "to_string_u64 3 = ''3''" by (simp add: to_string_u64_def string_of_nat.simps digit_char_def) code_simp
  then have "from_chars_u64 ''3'' = Some 3" by (metis from_chars_to_string_u64)
  then show ?thesis by (simp add: chat_env_def ref_json_def ws_chat_fields_def)
qed

lemma chat_env_exec:
  assumes "f demo_db = Inr (x, d)"
  obtains p where "w_exec chat_env f rc demo_world = Some (Inr x, demo_world\<lparr>w_pg := p\<rparr>)"
proof -
  obtain p where "execute (e_pg demo_env) f rc (w_pg demo_world) = Some (Inr x, p)"
    using demo_execute [of f x d rc, OF assms] by blast
  then show ?thesis by (intro that [of p]) (simp add: w_exec_def chat_env_def)
qed

lemma chat_env_snowflake: "\<exists>i w. w_snowflake chat_env (demo_world\<lparr>w_pg := p\<rparr>) = Some (i, w)"
  using demo_snowflake by (auto simp: w_snowflake_def chat_env_def bind_eq_Some_conv)

section \<open>Properties\<close>

text \<open>The only deliveries that a WebSocket session cannot write as JSON are chat messages whose content is
  not UTF-8; on these \<open>enqueue\<close> throws, every other delivery is queued.\<close>

theorem ws_enqueue_throws:
  assumes "json_library (e_json E) utf8" and "length (om_content m) < 2 ^ 32"
  shows "ws_enqueue E (serialize_delivery m) ss = None \<longleftrightarrow>
     om_msg_type m \<notin> {MsgType_DELETE_NOTIFY, MsgType_DELIVERED, MsgType_READ, MsgType_TYPING} \<and>
     \<not> utf8 (chars_of_bytes (om_content m))"
  by (rule json_library.enqueue_throws [OF assms(1) refl assms(2)])

theorem ws_enqueue_throws_witness:
  "ws_enqueue demo_env (serialize_delivery (dm_message 7 12 1 1 [255])) (session_init Ws 0) = None"
proof -
  have j: "json_library (e_json demo_env) ascii" by (simp add: demo_env_def ref_jl.json_library_axioms)
  have "om_msg_type (dm_message 7 12 1 1 [255]) = MsgType_CHAT" "om_content (dm_message 7 12 1 1 [255]) = [255]"
    by (simp_all add: dm_message_def)
  then show ?thesis
    using ws_enqueue_throws [OF j, of "dm_message 7 12 1 1 [255]"]
    by (simp add: MsgType_CHAT_def MsgType_DELETE_NOTIFY_def MsgType_DELIVERED_def MsgType_READ_def MsgType_TYPING_def)
      code_simp
qed



text \<open>\<open>route_message\<close> looks up "the other member of this conversation" without checking that the sender is a
  member: a user outside conversation \<open>c\<close> who names it reaches its first member.\<close>

theorem ws_outsider_delivery:
  assumes "json_library (e_json E) utf8" and "jl_parse (e_json E) text = Some j"
    and "ws_chat_fields (e_json E) ''conv_id'' j = Some (Some (c, content))"
    and "w_exec E (select_conv_peer c u) ReadOnly w = Some (Inr rows, w1)"
    and "w_snowflake E w1 = Some (i, w2)"
    and "(c, u) \<notin> set (db_conv_members (pg_db (w_pg w)))" and "(c, r0) \<in> set (db_conv_members (pg_db (w_pg w)))"
  shows "\<exists>r w'. (c, r) \<in> set (db_conv_members (pg_db (w_pg w))) \<and> ws_route_message E s u text w = Some (True, w') \<and>
    (\<forall>t. w_lookup w r = Some t \<longrightarrow>
       mailbox w' t = mailbox w t @ [serialize_delivery (ws_message c i u r (e_clk E (w_clk w2)) 0 content)])"
proof -
  obtain r where r: "(c, r) \<in> set (db_conv_members (pg_db (w_pg w)))" "select_conv_peer c u (pg_db (w_pg w)) = Inr ([r], pg_db (w_pg w))"
    using select_conv_peer_outsider [OF assms(6,7)] by blast
  have "rows = [r]" using w_exec_outcome [OF assms(4)] r(2) by (auto simp: outcome_def)
  with ws_dm_effect [OF assms(1-3) _ assms(5), of u w r "[]" s] assms(4) r(1) show ?thesis
    by (auto simp: Let_def)
qed

theorem ws_outsider_delivery_witness:
  "\<exists>r w'. (3, r) \<in> set (db_conv_members demo_db) \<and> ws_route_message chat_env 2 12 ''m'' demo_world = Some (True, w')"
proof -
  obtain p where p: "w_exec chat_env (select_conv_peer 3 12) ReadOnly demo_world = Some (Inr [7], demo_world\<lparr>w_pg := p\<rparr>)"
    using chat_env_exec [of "select_conv_peer 3 12" "[7]" demo_db] by (auto simp: select_conv_peer_def query_def demo_db_def)
  obtain i w2 where "w_snowflake chat_env (demo_world\<lparr>w_pg := p\<rparr>) = Some (i, w2)" using chat_env_snowflake by blast
  moreover have "(3, 12) \<notin> set (db_conv_members (pg_db (w_pg demo_world)))"
    "(3, 7) \<in> set (db_conv_members (pg_db (w_pg demo_world)))" by (simp_all add: demo_db_def)
  ultimately show ?thesis
    using ws_outsider_delivery [OF chat_env_json chat_env_parse chat_env_fields p, of i w2 7 2] by (auto simp: Let_def)
qed

text \<open>A browser's \<open>ping\<close> keeps its connection open but, unlike the \<open>PING\<close> of a TCP client, does not renew its
  presence: 60 seconds after the login the user is reported offline, however often it pings.\<close>

theorem ws_presence_lapses:
  assumes "redis_server (e_rx E) up content ttl pass" and "up r"
    and "w_redis w = set_presence (e_rx E) r u (e_ws_server_id E)"
    and "jl_parse (e_json E) text = Some j" and "jl_value_str (e_json E) j ''type'' [] = Some ''ping''"
  shows "\<exists>ok w'. ws_frame E s u (True, text) w = Some (ok, w') \<and>
    fst (get_presence (e_rx E) (pass 60 (w_redis w')) u) = None"
proof -
  obtain ok w' where f: "ws_frame E s u (True, text) w = Some (ok, w')" "w_redis w' = w_redis w"
    using assms(4,5)
    by (cases "jl_dump (e_json E) (JObj [(''type'', JStr ''pong'')])")
      (auto simp: ws_frame_def Let_def split_beta w_steady_now_def)
  then show ?thesis
    using redis_server.presence_window [OF assms(1,2), of 60 u "e_ws_server_id E"] assms(3) by simp
qed

theorem ws_presence_lapses_witness:
  "\<exists>ok w'. ws_frame ping_env 1 7 (True, ''m'') (demo_world\<lparr>w_redis := set_presence ref_exec rstore_empty 7 ''h:ws''\<rparr>) = Some (ok, w') \<and>
     fst (get_presence ref_exec (ref_pass 60 (w_redis w')) 7) = None"
proof -
  have e: "e_rx ping_env = ref_exec" "e_ws_server_id ping_env = ''h:ws''"
    "jl_parse (e_json ping_env) ''m'' = Some (JObj [(''type'', JStr ''ping'')])"
    "jl_value_str (e_json ping_env) (JObj [(''type'', JStr ''ping'')]) ''type'' [] = Some ''ping''"
    by (simp_all add: ping_env_def demo_env_def ref_json_def)
  show ?thesis
    using ws_presence_lapses [of ping_env rs_up ref_content ref_ttl ref_pass rstore_empty
        "demo_world\<lparr>w_redis := set_presence ref_exec rstore_empty 7 ''h:ws''\<rparr>" 7 "''m''"
        "JObj [(''type'', JStr ''ping'')]" 1] e ref_redis.redis_server_axioms
    by (simp add: rstore_empty_def)
qed

text \<open>A WebSocket session that was authenticated always cleans up after itself, whatever ended it: it is no
  longer registered, nobody else's entry has changed and both gauges are back where they were.\<close>

theorem ws_run_cleans_up:
  assumes "w_alive w s" and "ws_auth E s (snd frame) w = (Inr (), w1)"
    and "u = ss_user_id (the (w_sessions w1 s))" and "u \<noteq> 0"
    and "live w" "clock_moves (e_clk E)"
  shows "\<exists>w'. ws_run E s True (frame # input) w = Some w' \<and> w_lookup w' u \<noteq> Some s \<and>
    (\<forall>v. v \<noteq> u \<longrightarrow> w_lookup w' v = w_lookup w v) \<and>
    w_active_sessions w' = w_active_sessions w \<and> w_active_connections w' = w_active_connections w"
proof -
  obtain a: "map_option ss_user_id (w_sessions w1 s) = Some u" "w_alive w1 = w_alive w"
    "w_registry w1 = registry_insert (w_registry w) u s" "w_active_sessions w1 = w_active_sessions w + 1"
    "w_active_connections w1 = w_active_connections w + 1"
    using ws_auth_Inr [OF assms(2,1)] assms(3) by (metis option.map_sel option.sel option.simps(8) option.distinct(1))
  have "live w1" using live_ws_auth [OF assms(5), of E s "snd frame"] assms(2) by simp
  then obtain w2 where l: "read_loop E s u input w1 = Some w2"
    using read_loop_returns assms(6) by blast
  have c: "core w2 = core w1" using effects_core [OF eff_read_loop [OF l eff_refl]] .
  obtain ss where ss: "w_sessions w2 s = Some ss" "ss_user_id ss = u"
    using a(1) core_user_id [OF c, of s] by auto
  define w' where "w' = leave E s RunThrow w2"
  have r: "ws_run E s True (frame # input) w = Some w'"
    using assms(2) l a(1) by (auto simp: ws_run_def w'_def)
  have "w_registry w2 = w_registry w1" "w_active_sessions w2 = w_active_sessions w1"
    "w_active_connections w2 = w_active_connections w1" "w_alive w2 = w_alive w"
    using c core_alive [OF c] a(2) by (simp_all add: core_def)
  then show ?thesis
    using r a session_cleanup_restores [OF assms(1) _ _ ss assms(4)] session_cleanup_effect(2,3) [OF ss assms(4)]
    by (auto simp: w'_def)
qed

theorem ws_run_cleans_up_witness:
  "\<exists>w'. ws_run login_env 3 True [(True, ''m''), (False, ''x'')] demo_accepted = Some w' \<and> w_lookup w' 7 \<noteq> Some 3 \<and>
     w_lookup w' 12 = Some 2 \<and> w_active_sessions w' = 2"
proof -
  have v: "jwt_verify (e_jwt login_env) x y ''7'' = Some 7" for x y
    by (simp add: jwt_verify_def login_env_def demo_env_def demo_jwt_def) code_simp
  have e: "jl_parse (e_json login_env) ''m'' = Some (JObj [(''type'', JStr ''auth''), (''token'', JStr ''7'')])"
    "e_rx login_env = ref_exec" "clock_moves (e_clk login_env)"
    "jl_value_str (e_json login_env) (JObj [(''type'', JStr ''auth''), (''token'', JStr ''7'')]) ''type'' [] = Some ''auth''"
    "jl_value_str (e_json login_env) (JObj [(''type'', JStr ''auth''), (''token'', JStr ''7'')]) ''token'' [] = Some ''7''"
    using demo_live(2) by (simp_all add: login_env_def ref_json_def demo_env_def)
  have o: "fst (lrange_and_del ref_exec (set_presence ref_exec rstore_empty 7 z) (offline_key 7)) = []" for z
  proof -
    have "rs_up rstore_empty" "ref_content rstore_empty (offline_key 7) = None"
      by (simp_all add: rstore_empty_def ref_content_def ref_live_def)
    then have "list_at (ref_content (set_presence ref_exec rstore_empty 7 z)) (offline_key 7) = Some []"
      "rs_up (set_presence ref_exec rstore_empty 7 z)"
      by (simp add: ref_redis.content_presence(1) list_at_def) (simp add: \<open>rs_up rstore_empty\<close> set_presence_def ref_redis.stays_up(1))
    then show ?thesis using ref_redis.offline_queue_fifo [of _ "offline_key 7" "[]"] by simp
  qed
  obtain w1 where "ws_auth login_env 3 ''m'' demo_accepted = (Inr (), w1)" "ss_user_id (the (w_sessions w1 3)) = 7"
    unfolding ws_auth_def e
    by (simp add: v split_beta Let_def ws_online_def session_online_def ws_flush_offline_queue_def demo_accepted_def w_now_def
        session_init_def heartbeat_start_def o e)
  moreover have "live demo_accepted" using demo_live(1) by (simp add: demo_accepted_def live_def)
  ultimately obtain w' where "ws_run login_env 3 True [(True, ''m''), (False, ''x'')] demo_accepted = Some w'"
    "w_lookup w' 7 \<noteq> Some 3" "\<forall>v. v \<noteq> 7 \<longrightarrow> w_lookup w' v = w_lookup demo_accepted v"
    "w_active_sessions w' = w_active_sessions demo_accepted"
    using ws_run_cleans_up [of demo_accepted 3 login_env "(True, ''m'')" w1 7 "[(False, ''x'')]"] e(3) by auto
  then show ?thesis by simp
qed

end
