(* ===== verification/Http_Server.thy ===== *)
theory Http_Server
  imports World
begin

text \<open>
  \<open>src/server/src/http/HttpServer.cpp\<close> and \<open>src/server/src/util/Uuid.cpp\<close>: requests and responses, the route
  table with its path patterns, and \<open>handle_connection\<close>.  A handler returns \<open>None\<close> when it never returns, and
  otherwise the response (\<open>None\<close>: an exception leaves the handler) with the world it leaves behind.  The
  combinators below are the steps that all handlers repeat: the check of the token, the parsing of
  the body, one transaction.
\<close>

section \<open>Requests and responses\<close>

datatype verb = Get | Post | Put | Patch | Delete | Options | OtherVerb string

record Request =
  rq_method :: verb
  rq_target :: string
  rq_authorization :: string
  rq_content_type :: string
  rq_body :: string
  rq_upgrade :: bool

record Response =
  re_status :: nat
  re_headers :: "(string \<times> string) list"
  re_body :: string

type_synonym PathParams = "string \<rightharpoonup> string"

type_synonym ('r, 'c) reply = "(Response option \<times> ('r, 'c) world) option"

definition make_json :: "nat \<Rightarrow> string \<Rightarrow> Response" where
  "make_json status body = \<lparr>re_status = status, re_headers = [(''Content-Type'', ''application/json'')], re_body = body\<rparr>"

definition make_error :: "json_lib \<Rightarrow> nat \<Rightarrow> string \<Rightarrow> Response option" where
  "make_error L status msg = map_option (make_json status) (jl_dump L (JObj [(''error'', JStr msg)]))"

definition empty_response :: "nat \<Rightarrow> Response" where
  "empty_response status = \<lparr>re_status = status, re_headers = [], re_body = []\<rparr>"

text \<open>\<open>res.set(name, value)\<close> replaces the header.\<close>

definition set_header :: "string \<Rightarrow> string \<Rightarrow> Response \<Rightarrow> Response" where
  "set_header name val res = res\<lparr>re_headers := filter (\<lambda>h. fst h \<noteq> name) (re_headers res) @ [(name, val)]\<rparr>"

section \<open>Paths\<close>

function split_path :: "string \<Rightarrow> char \<Rightarrow> string list" where
  "split_path s delim =
     (if s = [] then []
      else case find_index (\<lambda>c. c = delim) s of
             None \<Rightarrow> [s]
           | Some pos \<Rightarrow>
               (if pos > 0 then [take pos s] else []) @ split_path (drop (pos + 1) s) delim)"
  by pat_completeness auto

termination
  by (relation "measure (\<lambda>(s, _). length s)") auto

declare split_path.simps [simp del]

fun match_parts :: "(string \<times> string) list \<Rightarrow> PathParams \<Rightarrow> PathParams option" where
  "match_parts [] params = Some params"
| "match_parts ((p, t) # rest) params =
     (if length p \<ge> 2 \<and> hd p = CHR ''{'' \<and> last p = CHR ''}''
      then match_parts rest (params(substr p 1 (length p - 2) \<mapsto> t))
      else if p \<noteq> t then None
      else match_parts rest params)"

definition strip_query :: "string \<Rightarrow> string" where
  "strip_query target = (case find_index (\<lambda>c. c = CHR ''?'') target of None \<Rightarrow> target | Some q \<Rightarrow> take q target)"

definition match_path :: "string \<Rightarrow> string \<Rightarrow> PathParams option" where
  "match_path pattern target =
     (let target = strip_query target;
          pat_parts = split_path pattern CHR ''/'';
          tgt_parts = split_path target CHR ''/''
      in if length pat_parts \<noteq> length tgt_parts then None
         else match_parts (zip pat_parts tgt_parts) Map.empty)"

section \<open>Request identifiers\<close>

fun hex_word :: "nat \<Rightarrow> nat \<Rightarrow> string" where
  "hex_word 0 n = []"
| "hex_word (Suc k) n = hex_word k (n div 16) @ [hex_digit (n mod 16)]"

text \<open>\<open>hex_word k n\<close> is \<open>%0kx\<close> for a value that fits \<open>k\<close> digits.\<close>

definition generate_uuid_v4 :: "u64 \<Rightarrow> u64 \<Rightarrow> string" where
  "generate_uuid_v4 hi lo =
     (let hi = (hi AND 0xFFFFFFFFFFFF0FFF) OR 0x0000000000004000;
          lo = (lo AND 0x3FFFFFFFFFFFFFFF) OR 0x8000000000000000
      in hex_word 8 (unat (drop_bit 32 hi)) @ ''-'' @
         hex_word 4 (unat (drop_bit 16 hi AND 0xFFFF)) @ ''-'' @
         hex_word 4 (unat (hi AND 0xFFFF)) @ ''-'' @
         hex_word 4 (unat (drop_bit 48 lo)) @ ''-'' @
         hex_word 12 (unat (lo AND 0x0000FFFFFFFFFFFF)))"

section \<open>Steps of the handlers\<close>

definition fail :: "('r, 'c) env \<Rightarrow> nat \<Rightarrow> string \<Rightarrow> ('r, 'c) world \<Rightarrow> ('r, 'c) reply" where
  "fail E status msg w = Some (make_error (e_json E) status msg, w)"

definition throws :: "('r, 'c) world \<Rightarrow> ('r, 'c) reply" where
  "throws w = Some (None, w)"

text \<open>\<open>co_return make_json(status, j.dump())\<close>, outside and inside a \<open>try\<close> block that answers \<open>database error\<close>.\<close>

definition answer :: "('r, 'c) env \<Rightarrow> nat \<Rightarrow> json \<Rightarrow> ('r, 'c) world \<Rightarrow> ('r, 'c) reply" where
  "answer E status j w = Some (map_option (make_json status) (jl_dump (e_json E) j), w)"

definition db_error :: "('r, 'c) env \<Rightarrow> ('r, 'c) world \<Rightarrow> ('r, 'c) reply" where
  "db_error E = fail E 500 ''database error''"

definition try_answer :: "('r, 'c) env \<Rightarrow> nat \<Rightarrow> json \<Rightarrow> ('r, 'c) world \<Rightarrow> ('r, 'c) reply" where
  "try_answer E status j w =
     (case jl_dump (e_json E) j of None \<Rightarrow> db_error E w | Some b \<Rightarrow> Some (Some (make_json status b), w))"

definition with_user ::
  "('r, 'c) env \<Rightarrow> Request \<Rightarrow> (i64 \<Rightarrow> ('r, 'c) world \<Rightarrow> ('r, 'c) reply) \<Rightarrow> ('r, 'c) world \<Rightarrow> ('r, 'c) reply" where
  "with_user E req k w =
     (let (now, w) = w_now E w
      in case require_auth (e_jwt E) (e_secret E) now (rq_authorization req) of
           None \<Rightarrow> fail E 403 ''missing or invalid token'' w
         | Some uid \<Rightarrow> k uid w)"

definition with_json ::
  "('r, 'c) env \<Rightarrow> Request \<Rightarrow> (json \<Rightarrow> ('r, 'c) world \<Rightarrow> ('r, 'c) reply) \<Rightarrow> ('r, 'c) world \<Rightarrow> ('r, 'c) reply" where
  "with_json E req k w =
     (case jl_parse (e_json E) (rq_body req) of
        None \<Rightarrow> fail E 400 ''invalid JSON'' w
      | Some body \<Rightarrow> k body w)"

text \<open>\<open>body.value(key, std::string{})\<close>\<close>

definition with_str ::
  "('r, 'c) env \<Rightarrow> json \<Rightarrow> string \<Rightarrow> (string \<Rightarrow> ('r, 'c) world \<Rightarrow> ('r, 'c) reply) \<Rightarrow> ('r, 'c) world \<Rightarrow> ('r, 'c) reply" where
  "with_str E body key k w =
     (case jl_value_str (e_json E) body key [] of None \<Rightarrow> throws w | Some s \<Rightarrow> k s w)"

text \<open>\<open>params.at(key)\<close> read as a number.\<close>

definition with_id ::
  "('r, 'c) env \<Rightarrow> PathParams \<Rightarrow> string \<Rightarrow> string \<Rightarrow> (u64 \<Rightarrow> ('r, 'c) world \<Rightarrow> ('r, 'c) reply) \<Rightarrow>
   ('r, 'c) world \<Rightarrow> ('r, 'c) reply" where
  "with_id E params key msg k w =
     (case params key of
        None \<Rightarrow> throws w
      | Some s \<Rightarrow> (case from_chars_u64 s of None \<Rightarrow> fail E 400 msg w | Some i \<Rightarrow> k i w))"

text \<open>One transaction; \<open>h\<close> is the \<open>catch\<close> block.\<close>

definition with_exec ::
  "('r, 'c) env \<Rightarrow> 'a txn \<Rightarrow> RetryClass \<Rightarrow> (('r, 'c) world \<Rightarrow> ('r, 'c) reply) \<Rightarrow>
   ('a \<Rightarrow> ('r, 'c) world \<Rightarrow> ('r, 'c) reply) \<Rightarrow> ('r, 'c) world \<Rightarrow> ('r, 'c) reply" where
  "with_exec E f rc h k w = do {
     (r, w) \<leftarrow> w_exec E f rc w;
     (case r of Inl _ \<Rightarrow> h w | Inr x \<Rightarrow> k x w) }"

definition with_snowflake ::
  "('r, 'c) env \<Rightarrow> (i64 \<Rightarrow> ('r, 'c) world \<Rightarrow> ('r, 'c) reply) \<Rightarrow> ('r, 'c) world \<Rightarrow> ('r, 'c) reply" where
  "with_snowflake E k w = do { (i, w) \<leftarrow> w_snowflake E w; k i w }"

section \<open>The server\<close>

record ('r, 'c) Route =
  rt_method :: verb
  rt_path :: string
  rt_handler :: "('r, 'c) env \<Rightarrow> Request \<Rightarrow> PathParams \<Rightarrow> ('r, 'c) world \<Rightarrow> ('r, 'c) reply"

fun find_route :: "('r, 'c) Route list \<Rightarrow> verb \<Rightarrow> string \<Rightarrow> (('r, 'c) Route \<times> PathParams) option" where
  "find_route [] meth target = None"
| "find_route (route # routes) meth target =
     (if rt_method route \<noteq> meth then find_route routes meth target
      else case match_path (rt_path route) target of
             None \<Rightarrow> find_route routes meth target
           | Some params \<Rightarrow> Some (route, params))"

definition allow_methods :: string where
  "allow_methods = ''GET, POST, PUT, DELETE, OPTIONS''"

definition cors :: "string \<Rightarrow> Response \<Rightarrow> Response" where
  "cors request_id res =
     set_header ''X-Request-ID'' request_id
       (set_header ''Access-Control-Allow-Headers'' ''Content-Type, Authorization''
         (set_header ''Access-Control-Allow-Methods'' allow_methods
           (set_header ''Access-Control-Allow-Origin'' ''*'' res)))"

definition preflight :: "string \<Rightarrow> Response" where
  "preflight request_id =
     set_header ''X-Request-ID'' request_id
       (set_header ''Access-Control-Max-Age'' ''86400''
         (set_header ''Access-Control-Allow-Headers'' ''Content-Type, Authorization''
           (set_header ''Access-Control-Allow-Methods'' allow_methods
             (set_header ''Access-Control-Allow-Origin'' ''*'' (empty_response 204)))))"

definition verb_string :: "verb \<Rightarrow> string" where
  "verb_string v = (case v of Get \<Rightarrow> ''GET'' | Post \<Rightarrow> ''POST'' | Put \<Rightarrow> ''PUT'' | Patch \<Rightarrow> ''PATCH''
     | Delete \<Rightarrow> ''DELETE'' | Options \<Rightarrow> ''OPTIONS'' | OtherVerb s \<Rightarrow> s)"

definition count_request :: "verb \<Rightarrow> nat \<Rightarrow> ('r, 'c) world \<Rightarrow> ('r, 'c) world" where
  "count_request v status w =
     w\<lparr>w_http_total := (w_http_total w)((verb_string v, status) := w_http_total w (verb_string v, status) + 1)\<rparr>"

datatype conn_result = Upgraded | Replied Response | Dropped

text \<open>The loop over the routes.\<close>

definition dispatch ::
  "('r, 'c) env \<Rightarrow> ('r, 'c) Route list \<Rightarrow> Request \<Rightarrow> ('r, 'c) world \<Rightarrow> ('r, 'c) reply" where
  "dispatch E routes req =
     (case find_route routes (rq_method req) (rq_target req) of
        Some (route, params) \<Rightarrow> rt_handler route E req params
      | None \<Rightarrow> fail E 404 ''not found'')"

text \<open>\<open>handle_connection\<close> from the request on; \<open>Upgraded\<close>: the socket is handed to a WebSocket session.\<close>

definition handle_connection ::
  "('r, 'c) env \<Rightarrow> ('r, 'c) Route list \<Rightarrow> Request \<Rightarrow> ('r, 'c) world \<Rightarrow> (conn_result \<times> ('r, 'c) world) option" where
  "handle_connection E routes req w = do {
     let (hi, w) = w_draw E w;
     let (lo, w) = w_draw E w;
     let request_id = generate_uuid_v4 hi lo;
     if rq_upgrade req \<and> rq_target req = ''/ws'' then Some (Upgraded, w)
     else if rq_method req = Options then Some (Replied (preflight request_id), w)
     else do {
       (res, w) \<leftarrow> dispatch E routes req w;
       Some (case res of
           None \<Rightarrow> (Dropped, w)
         | Some res \<Rightarrow>
             (Replied (cors request_id res), count_request (rq_method req) (re_status res) w)) } }"

section \<open>Handlers in general\<close>

lemma eff_cass_state: "effects E w v \<Longrightarrow> effects E w (v\<lparr>w_cass := ca\<rparr>)"
proof -
  assume "effects E w v"
  then have "effects E w (v\<lparr>w_cc := w_cc v, w_cass := ca\<rparr>)" by (rule eff_cass)
  then show ?thesis by (cases v) simp
qed

text \<open>A handler is good when it changes the world only by \<open>effects\<close>, and returns when the pool and the
  identifier generator do.\<close>

definition good :: "('r, 'c) env \<Rightarrow> (('r, 'c) world \<Rightarrow> ('r, 'c) reply) \<Rightarrow> bool" where
  "good E k \<longleftrightarrow> (\<forall>w. (\<forall>r w'. k w = Some (r, w') \<longrightarrow> effects E w w') \<and>
     (live w \<and> clock_moves (e_clk E) \<longrightarrow> k w \<noteq> None))"

lemma goodI:
  "(\<And>w r w'. k w = Some (r, w') \<Longrightarrow> effects E w w') \<Longrightarrow>
   (\<And>w. live w \<Longrightarrow> clock_moves (e_clk E) \<Longrightarrow> k w \<noteq> None) \<Longrightarrow> good E k"
  by (simp add: good_def)

lemma good_effects: "good E k \<Longrightarrow> k w = Some (r, w') \<Longrightarrow> effects E w w'"
  by (simp add: good_def)

lemma good_returns: "good E k \<Longrightarrow> live w \<Longrightarrow> clock_moves (e_clk E) \<Longrightarrow> \<exists>r w'. k w = Some (r, w') \<and> live w'"
proof -
  assume g: "good E k" and l: "live w" "clock_moves (e_clk E)"
  then obtain r w' where "k w = Some (r, w')" by (cases "k w") (auto simp: good_def)
  with g l show ?thesis using effects_live good_effects by blast
qed

lemma good_const: "good E (\<lambda>w. Some (r, w))"
  by (simp add: good_def eff_refl)

lemma good_simple [handler_intros]:
  "good E (fail E st msg)" "good E throws" "good E (answer E st j)" "good E (db_error E)" "good E (try_answer E st j)"
  by (auto intro!: goodI eff_refl simp: fail_def throws_def answer_def db_error_def try_answer_def split: option.splits)

lemma good_simple' [handler_intros]:
  "good E (\<lambda>w. fail E st msg w)" "good E (\<lambda>w. throws w)" "good E (\<lambda>w. answer E st j w)" "good E (\<lambda>w. db_error E w)"
  "good E (\<lambda>w. try_answer E st j w)" "good E (\<lambda>w. Some (r, w))"
  by (simp_all add: good_simple good_const)

lemma good_seq:
  fixes E :: "('r, 'c) env"
  assumes "\<And>w. effects E w (g w)" "good E k"
  shows "good E (\<lambda>w. k (g w))"
proof (rule goodI)
  fix w r w'
  assume "k (g w) = Some (r, w')"
  then show "effects E w w'" using effects_trans [OF good_effects [OF assms(2)] assms(1)] by blast
next
  fix w :: "('r, 'c) world"
  assume l: "live w" "clock_moves (e_clk E)"
  then have "live (g w)" using effects_live [OF assms(1)] by blast
  with l assms(2) show "k (g w) \<noteq> None" by (simp add: good_def)
qed

text \<open>An effect right before the answer.\<close>

lemma good_then_answer [handler_intros]:
  "(\<And>w. effects E w (g w)) \<Longrightarrow> good E (\<lambda>w. answer E st (j w) (g w))"
  "(\<And>w. effects E w (g w)) \<Longrightarrow> good E (\<lambda>w. try_answer E st (j w) (g w))"
  "(\<And>w. effects E w (g w)) \<Longrightarrow> good E (\<lambda>w. Some (r w, g w))"
  by (auto intro!: goodI simp: answer_def try_answer_def db_error_def fail_def split: option.splits)

lemma good_read:
  fixes E :: "('r, 'c) env"
  assumes "\<And>w. effects E w (snd (g w))" "\<And>x. good E (k x)"
  shows "good E (\<lambda>w. k (fst (g w)) (snd (g w)))"
proof (rule goodI)
  fix w r w'
  assume "k (fst (g w)) (snd (g w)) = Some (r, w')"
  then show "effects E w w'" using effects_trans [OF good_effects [OF assms(2)] assms(1)] by blast
next
  fix w :: "('r, 'c) world"
  assume l: "live w" "clock_moves (e_clk E)"
  then have "live (snd (g w))" using effects_live [OF assms(1)] by blast
  with l assms(2) show "k (fst (g w)) (snd (g w)) \<noteq> None" by (simp add: good_def)
qed

lemma good_if [handler_intros]: "good E h \<Longrightarrow> good E k \<Longrightarrow> good E (\<lambda>w. if b then h w else k w)"
  by (cases b) simp_all

lemma good_if' [handler_intros]: "good E h \<Longrightarrow> good E k \<Longrightarrow> good E (if b then h else k)"
  by simp

lemma good_option [handler_intros]:
  "good E h \<Longrightarrow> (\<And>x. good E (k x)) \<Longrightarrow> good E (\<lambda>w. case m of None \<Rightarrow> h w | Some x \<Rightarrow> k x w)"
  by (cases m) simp_all

lemma good_list [handler_intros]:
  "good E h \<Longrightarrow> (\<And>x xs. good E (k x xs)) \<Longrightarrow> good E (\<lambda>w. case m of [] \<Rightarrow> h w | x # xs \<Rightarrow> k x xs w)"
  by (cases m) simp_all

lemma good_prod [handler_intros]: "(\<And>x y. good E (k x y)) \<Longrightarrow> good E (\<lambda>w. case p of (x, y) \<Rightarrow> k x y w)"
  by (cases p) simp

lemma good_with_user [handler_intros]: "(\<And>uid. good E (k uid)) \<Longrightarrow> good E (with_user E req k)"
proof -
  assume k: "\<And>uid. good E (k uid)"
  have "with_user E req k = (\<lambda>w. (\<lambda>now w. case require_auth (e_jwt E) (e_secret E) now (rq_authorization req) of
      None \<Rightarrow> fail E 403 ''missing or invalid token'' w | Some uid \<Rightarrow> k uid w) (fst (w_now E w)) (snd (w_now E w)))"
    by (simp add: fun_eq_iff with_user_def split_beta Let_def)
  then show ?thesis
    using k by (simp only:) (rule good_read, auto intro: handler_intros eff_primitive eff_refl)
qed

lemma good_with_json [handler_intros]: "(\<And>b. good E (k b)) \<Longrightarrow> good E (with_json E req k)"
  unfolding with_json_def by (cases "jl_parse (e_json E) (rq_body req)") (auto intro: handler_intros)

lemma good_with_str [handler_intros]: "(\<And>s. good E (k s)) \<Longrightarrow> good E (with_str E b key k)"
  unfolding with_str_def by (cases "jl_value_str (e_json E) b key []") (auto intro: handler_intros)

lemma good_with_id [handler_intros]: "(\<And>i. good E (k i)) \<Longrightarrow> good E (with_id E ps key msg k)"
  unfolding with_id_def by (auto intro!: handler_intros)

lemma good_with_exec [handler_intros]:
  fixes E :: "('r, 'c) env"
  assumes "keeps db_ok f" "good E h" "\<And>x. good E (k x)"
  shows "good E (with_exec E f rc h k)"
proof (rule goodI)
  fix w r w'
  assume "with_exec E f rc h k w = Some (r, w')"
  then obtain x w1 where x: "w_exec E f rc w = Some (x, w1)" "(case x of Inl _ \<Rightarrow> h w1 | Inr y \<Rightarrow> k y w1) = Some (r, w')"
    by (auto simp: with_exec_def bind_eq_Some_conv)
  have "effects E w w1" using eff_exec [OF eff_refl x(1) assms(1)] .
  moreover have "effects E w1 w'" using x(2) good_effects [OF assms(2)] good_effects [OF assms(3)] by (cases x) auto
  ultimately show "effects E w w'" using effects_trans by blast
next
  fix w :: "('r, 'c) world"
  assume l: "live w" "clock_moves (e_clk E)"
  obtain x w1 where "w_exec E f rc w = Some (x, w1)" "live w1" using l(1) by (rule live_exec)
  with l(2) assms(2,3) show "with_exec E f rc h k w \<noteq> None"
    by (cases x) (auto simp: with_exec_def good_def simp del: not_None_eq)
qed

lemma good_with_snowflake [handler_intros]:
  fixes E :: "('r, 'c) env"
  assumes "\<And>i. good E (k i)"
  shows "good E (with_snowflake E k)"
proof (rule goodI)
  fix w r w'
  assume "with_snowflake E k w = Some (r, w')"
  then obtain i w1 where "w_snowflake E w = Some (i, w1)" "k i w1 = Some (r, w')"
    by (auto simp: with_snowflake_def bind_eq_Some_conv)
  then show "effects E w w'"
    using effects_trans [OF good_effects [OF assms] eff_snowflake [OF eff_refl]] by blast
next
  fix w :: "('r, 'c) world"
  assume l: "live w" "clock_moves (e_clk E)"
  then obtain i w1 where "w_snowflake E w = Some (i, w1)" "live w1" by (rule live_snowflake)
  with l(2) assms show "with_snowflake E k w \<noteq> None" by (auto simp: with_snowflake_def good_def simp del: not_None_eq)
qed

lemma keeps_selects [handler_intros]:
  "keeps P (select_user_taken un em)" "keeps P (select_credentials un)" "keeps P (select_refresh_token rt)"
  "keeps P (select_last_seen u)" "keeps P (select_profile u)" "keeps P (search_users q n)"
  "keeps P (select_conv_peer c u)" "keeps P (select_conv_members c)" "keeps P (select_conv_members_except c u)"
  "keeps P (select_is_conv_member c u)" "keeps P (select_group g)" "keeps P (select_group_roster g)"
  "keeps P (select_role g u)" "keeps P (select_group_members g)" "keeps P (select_group_members_except g u)"
  "keeps P (select_is_group_member g u)" "keeps P (select_conversations u)"
  by (simp_all add: select_user_taken_def select_credentials_def select_refresh_token_def select_last_seen_def
      select_profile_def search_users_def select_conv_peer_def select_conv_members_def select_conv_members_except_def
      select_is_conv_member_def select_group_def select_group_roster_def select_role_def select_group_members_def
      select_group_members_except_def select_is_group_member_def select_conversations_def)

lemmas [handler_intros] = keeps_statements keeps_composed

section \<open>What an answer tells\<close>

abbreviation wdb :: "('r, 'c) world \<Rightarrow> Db" where
  "wdb w \<equiv> pg_db (w_pg w)"

text \<open>How a handler came to a response: one rule per step, the early return first.\<close>

lemma make_status [simp]: "re_status (make_json st b) = st" "re_status (empty_response st) = st"
  by (simp_all add: make_json_def empty_response_def)

lemma fail_D: "fail E st msg w = Some (Some res, w') \<Longrightarrow> re_status res = st \<and> w' = w"
  by (auto simp: fail_def make_error_def)

lemma fail_E [handler_elims]:
  "fail E st msg w = Some (Some res, w') \<Longrightarrow> (re_status res = st \<Longrightarrow> w' = w \<Longrightarrow> thesis) \<Longrightarrow> thesis"
  using fail_D by blast

lemma db_error_E [handler_elims]:
  "db_error E w = Some (Some res, w') \<Longrightarrow> (re_status res = 500 \<Longrightarrow> w' = w \<Longrightarrow> thesis) \<Longrightarrow> thesis"
  by (simp add: db_error_def) (erule fail_E)

lemma reply_E [handler_elims]:
  "Some (Some r, v) = Some (Some res, w') \<Longrightarrow> (res = r \<Longrightarrow> w' = v \<Longrightarrow> thesis) \<Longrightarrow> thesis"
  by simp

lemma throws_E [handler_elims]: "throws w = Some (Some res, w') \<Longrightarrow> thesis"
  by (simp add: throws_def)

lemma answer_E [handler_elims]:
  "answer E st j w = Some (Some res, w') \<Longrightarrow>
   (\<And>b. jl_dump (e_json E) j = Some b \<Longrightarrow> res = make_json st b \<Longrightarrow> w' = w \<Longrightarrow> thesis) \<Longrightarrow> thesis"
  by (auto simp: answer_def)

lemma try_answer_E [handler_elims]:
  assumes "try_answer E st j w = Some (Some res, w')"
  obtains "re_status res = 500" "w' = w"
  | b where "jl_dump (e_json E) j = Some b" "res = make_json st b" "w' = w"
  using assms by (auto simp: try_answer_def elim!: db_error_E split: option.splits)

lemma with_json_E [handler_elims]:
  assumes "with_json E req k w = Some (Some res, w')"
  obtains "re_status res = 400" "w' = w" "jl_parse (e_json E) (rq_body req) = None"
  | body where "jl_parse (e_json E) (rq_body req) = Some body" "k body w = Some (Some res, w')"
  using assms by (auto simp: with_json_def elim!: fail_E split: option.splits)

lemma with_str_E [handler_elims]:
  assumes "with_str E body key k w = Some (Some res, w')"
  obtains s where "jl_value_str (e_json E) body key [] = Some s" "k s w = Some (Some res, w')"
  using assms by (auto simp: with_str_def throws_def split: option.splits)

lemma with_id_E [handler_elims]:
  assumes "with_id E params key msg k w = Some (Some res, w')"
  obtains "re_status res = 400" "w' = w"
  | s i where "params key = Some s" "from_chars_u64 s = Some i" "k i w = Some (Some res, w')"
  using assms by (auto simp: with_id_def throws_def elim!: fail_E split: option.splits)

lemma with_user_E [handler_elims]:
  assumes "with_user E req k w = Some (Some res, w')"
  obtains "re_status res = 403" "w' = snd (w_now E w)"
      "require_auth (e_jwt E) (e_secret E) (e_clk E (w_clk w)) (rq_authorization req) = None"
  | uid where "require_auth (e_jwt E) (e_secret E) (e_clk E (w_clk w)) (rq_authorization req) = Some uid"
      "k uid (snd (w_now E w)) = Some (Some res, w')"
  using assms by (auto simp: with_user_def w_now_def elim!: fail_E split: option.splits)

lemma with_exec_E [handler_elims]:
  assumes "with_exec E f rc h k w = Some (Some res, w')"
  obtains p where "h (w\<lparr>w_pg := p\<rparr>) = Some (Some res, w')" "pg_free_list p = pg_free_list (w_pg w)"
      "pg_db p = wdb w \<or> (\<exists>x. f (wdb w) = Inr (x, pg_db p))"
  | x p where "f (wdb w) = Inr (x, pg_db p)" "pg_free_list p = pg_free_list (w_pg w)"
      "k x (w\<lparr>w_pg := p\<rparr>) = Some (Some res, w')"
proof -
  obtain r w1 where x: "w_exec E f rc w = Some (r, w1)"
    "(case r of Inl _ \<Rightarrow> h w1 | Inr y \<Rightarrow> k y w1) = Some (Some res, w')"
    using assms by (auto simp: with_exec_def bind_eq_Some_conv)
  obtain p where p: "w1 = w\<lparr>w_pg := p\<rparr>" "pg_free_list p = pg_free_list (w_pg w)" "outcome f r (wdb w) (pg_db p)"
    using w_exec_outcome [OF x(1)] by blast
  show thesis
  proof (cases r)
    case (Inl e)
    then show ?thesis using x(2) p that(1) [of p] by (auto simp: outcome_def split: if_splits)
  next
    case (Inr y)
    then show ?thesis using x(2) p that(2) [of y p] by (auto simp: outcome_def)
  qed
qed

lemma with_snowflake_E [handler_elims]:
  assumes "with_snowflake E k w = Some (Some res, w')"
  obtains i w1 where "w_snowflake E w = Some (i, w1)" "w_pg w1 = w_pg w" "w_redis w1 = w_redis w"
    "w_jobs w1 = w_jobs w" "k i w1 = Some (Some res, w')"
proof -
  obtain i w1 where "w_snowflake E w = Some (i, w1)" "k i w1 = Some (Some res, w')"
    using assms by (auto simp: with_snowflake_def bind_eq_Some_conv)
  with snowflake_same that show thesis by blast
qed

text \<open>The user that a request authenticates and a number in its path.\<close>

definition caller :: "('r, 'c) env \<Rightarrow> Request \<Rightarrow> ('r, 'c) world \<Rightarrow> u64 option" where
  "caller E req w = require_auth (e_jwt E) (e_secret E) (e_clk E (w_clk w)) (rq_authorization req)"

definition path_id :: "PathParams \<Rightarrow> string \<Rightarrow> u64 option" where
  "path_id ps key = Option.bind (ps key) from_chars_u64"

text \<open>The first row of a result.\<close>

lemma filter_row: "filter P xs = x # ys \<Longrightarrow> x \<in> set xs \<and> P x"
  by (induction xs) (auto split: if_splits)

lemma pg_primitive [simp]: "w_pg (snd (w_now E w)) = w_pg w" "w_pg (snd (w_rand_bytes E n w)) = w_pg w"
  by (simp_all add: w_now_def w_rand_bytes_def)

lemma rand_primitive [simp]: "w_rand (snd (w_now E w)) = w_rand w"
  "w_rand (snd (w_rand_bytes E n w)) = Suc (w_rand w)"
  by (simp_all add: w_now_def w_rand_bytes_def)


section \<open>Running a handler when the database does not fail\<close>

definition runs :: "('r, 'c) reply \<Rightarrow> (Response \<Rightarrow> ('r, 'c) world \<Rightarrow> bool) \<Rightarrow> bool" where
  "runs m P \<longleftrightarrow> (\<exists>res w'. m = Some (Some res, w') \<and> P res w')"

lemma runs_exec:
  fixes E :: "('r, 'c) env"
  assumes "quiet (e_pg E)" "pg_free_list (w_pg w) \<noteq> []" "f (wdb w) = Inr (x, d)"
    "\<And>p. pg_db p = d \<Longrightarrow> pg_free_list p = pg_free_list (w_pg w) \<Longrightarrow> runs (k x (w\<lparr>w_pg := p\<rparr>)) P"
  shows "runs (with_exec E f rc h k w) P"
proof -
  obtain p where "execute (e_pg E) f rc (w_pg w) = Some (Inr x, p)" "pg_db p = d" "pg_free_list p = pg_free_list (w_pg w)"
    using execute_quiet [of "e_pg E" "w_pg w" f x d rc] assms(1,2,3) by blast
  with assms(4) [of p] show ?thesis by (simp add: with_exec_def w_exec_def)
qed

lemma runs_snowflake:
  "SnowflakeGen_next (e_clk E) (w_sf w) (w_clk w) = Some (i, g, c) \<Longrightarrow> runs (k i (w\<lparr>w_sf := g, w_clk := c\<rparr>)) P \<Longrightarrow>
   runs (with_snowflake E k w) P"
  by (simp add: with_snowflake_def w_snowflake_def)

lemma runs_answer: "jl_dump (e_json E) j = Some b \<Longrightarrow> P (make_json st b) w \<Longrightarrow> runs (answer E st j w) P"
  by (simp add: runs_def answer_def)

lemma runs_try_answer: "jl_dump (e_json E) j = Some b \<Longrightarrow> P (make_json st b) w \<Longrightarrow> runs (try_answer E st j w) P"
  by (simp add: runs_def try_answer_def)

lemma runs_fail:
  "jl_dump (e_json E) (JObj [(''error'', JStr msg)]) = Some b \<Longrightarrow> P (make_json st b) w \<Longrightarrow> runs (fail E st msg w) P"
  by (simp add: runs_def fail_def make_error_def)

lemma runs_json:
  "jl_parse (e_json E) (rq_body req) = Some body \<Longrightarrow> runs (k body w) P \<Longrightarrow> runs (with_json E req k w) P"
  by (simp add: with_json_def)

lemma runs_str:
  "jl_value_str (e_json E) body key [] = Some s \<Longrightarrow> runs (k s w) P \<Longrightarrow> runs (with_str E body key k w) P"
  by (simp add: with_str_def)

lemma runs_id:
  "params key = Some s \<Longrightarrow> from_chars_u64 s = Some i \<Longrightarrow> runs (k i w) P \<Longrightarrow> runs (with_id E params key msg k w) P"
  by (simp add: with_id_def)

lemma runs_user:
  "require_auth (e_jwt E) (e_secret E) (e_clk E (w_clk w)) (rq_authorization req) = Some uid \<Longrightarrow>
   runs (k uid (w\<lparr>w_clk := Suc (w_clk w)\<rparr>)) P \<Longrightarrow> runs (with_user E req k w) P"
  by (simp add: with_user_def w_now_def)

lemma runs_if:
  "b \<Longrightarrow> runs (h w) P \<Longrightarrow> runs ((if b then h else k) w) P" "\<not> b \<Longrightarrow> runs (k w) P \<Longrightarrow> runs ((if b then h else k) w) P"
  by simp_all

lemma runsE: "runs m P \<Longrightarrow> (\<And>res w'. m = Some (Some res, w') \<Longrightarrow> P res w' \<Longrightarrow> thesis) \<Longrightarrow> thesis"
  by (auto simp: runs_def)

lemmas run_rules = runs_exec runs_snowflake runs_answer runs_try_answer runs_json runs_str runs_id runs_user runs_if

text \<open>The example server with a parser for the bodies of the examples.\<close>

definition http_env :: "(string \<Rightarrow> json option) \<Rightarrow> (rstore, cass_ref) env" where
  "http_env parse = demo_env\<lparr>e_json := ref_json parse\<rparr>"

definition demo_request :: "verb \<Rightarrow> string \<Rightarrow> string \<Rightarrow> string \<Rightarrow> Request" where
  "demo_request meth target auth body = \<lparr>rq_method = meth, rq_target = target, rq_authorization = auth,
     rq_content_type = [], rq_body = body, rq_upgrade = False\<rparr>"

lemma demo_next:
  "SnowflakeGen_next (e_clk demo_env) (w_sf demo_world) 0 =
     Some (snowflake_id 1000 1 0, \<lparr>sf_machine_id = 1, sf_last_ms = 1000, sf_sequence = 0\<rparr>, 1)"
  "SnowflakeGen_next (e_clk demo_env) (w_sf demo_world) (Suc 0) =
     Some (snowflake_id 1001 1 0, \<lparr>sf_machine_id = 1, sf_last_ms = 1001, sf_sequence = 0\<rparr>, 2)"
  by (simp_all add: SnowflakeGen_next_def demo_env_def demo_world_def SnowflakeGen_init_def EPOCH_MS_def)

lemma http_env_simps [simp]:
  "quiet (e_pg (http_env parse))" "clock_moves (e_clk (http_env parse))" "e_json (http_env parse) = ref_json parse"
  "e_rand (http_env parse) k n = (True, replicate n (of_nat k))" "e_pbkdf2 (http_env parse) pw s i n = Some (replicate n (of_nat (length pw)))"
  "e_jwt (http_env parse) = demo_jwt" "e_rx (http_env parse) = ref_exec" "e_clk (http_env parse) = e_clk demo_env"
  using demo_live(2) by (simp_all add: http_env_def demo_env_def quiet_def)

lemma demo_request_simps [simp]:
  "rq_method (demo_request m t a b) = m" "rq_target (demo_request m t a b) = t"
  "rq_authorization (demo_request m t a b) = a" "rq_body (demo_request m t a b) = b" "rq_upgrade (demo_request m t a b) = False"
  by (simp_all add: demo_request_def)

lemma demo_digits [simp]:
  "from_chars_u64 ''5'' = Some 5" "from_chars_u64 ''9'' = Some 9" "from_chars_u64 ''3'' = Some 3"
proof -
  have "to_string_u64 5 = ''5''" "to_string_u64 9 = ''9''" "to_string_u64 3 = ''3''"
    by (simp_all add: to_string_u64_def string_of_nat.simps digit_char_def) (code_simp+)
  then show "from_chars_u64 ''5'' = Some 5" "from_chars_u64 ''9'' = Some 9" "from_chars_u64 ''3'' = Some 3"
    by (metis from_chars_to_string_u64)+
qed

lemma demo_bearer [simp]:
  "require_auth demo_jwt k t ''Bearer 7'' = Some 7" "require_auth demo_jwt k t ''Bearer 9'' = Some 9"
proof -
  have "to_string_i64 7 = ''7''" "to_string_i64 9 = ''9''"
    by (simp_all add: to_string_i64_def string_of_int_def string_of_nat.simps digit_char_def) (code_simp+)
  then have "stoll ''7'' = Some 7" "stoll ''9'' = Some 9" by (metis stoll_to_string)+
  then show "require_auth demo_jwt k t ''Bearer 7'' = Some 7" "require_auth demo_jwt k t ''Bearer 9'' = Some 9"
    by (simp_all add: require_auth_def jwt_verify_def demo_jwt_def)
qed

end
