(* ===== verification/Http_Auth.thy ===== *)
theory Http_Auth
  imports Http_Server
begin

text \<open>
  \<open>src/server/src/http/AuthHandler.cpp\<close>: registration, login, logout and the rotation of refresh tokens.
\<close>

section \<open>Handlers\<close>

text \<open>\<open>co_await pwd->hash(password)\<close>; it is outside every \<open>try\<close> block.\<close>

definition with_hash ::
  "('r, 'c) env \<Rightarrow> string \<Rightarrow> (string \<Rightarrow> ('r, 'c) world \<Rightarrow> ('r, 'c) reply) \<Rightarrow> ('r, 'c) world \<Rightarrow> ('r, 'c) reply" where
  "with_hash E password k w =
     (let ((ok, salt), w) = w_rand_bytes E SALT_LEN w
      in case password_hash (e_pbkdf2 E) (if ok then Some salt else None) password of
           None \<Rightarrow> throws w
         | Some h \<Rightarrow> k h w)"

text \<open>\<open>generate_refresh_token()\<close> does not look at the result of \<open>RAND_bytes\<close>.\<close>

definition with_refresh_token ::
  "('r, 'c) env \<Rightarrow> (string \<Rightarrow> ('r, 'c) world \<Rightarrow> ('r, 'c) reply) \<Rightarrow> ('r, 'c) world \<Rightarrow> ('r, 'c) reply" where
  "with_refresh_token E k w =
     (let ((ok, bytes), w) = w_rand_bytes E 32 w in k (generate_refresh_token bytes) w)"

definition with_access_token ::
  "('r, 'c) env \<Rightarrow> i64 \<Rightarrow> (string \<Rightarrow> ('r, 'c) world \<Rightarrow> ('r, 'c) reply) \<Rightarrow> ('r, 'c) world \<Rightarrow> ('r, 'c) reply" where
  "with_access_token E uid k w =
     (let (now, w) = w_now E w in k (jwt_issue (e_jwt E) (e_secret E) uid (24 * 3600) now) w)"

definition token_json :: "string \<Rightarrow> string \<Rightarrow> json" where
  "token_json access_token refresh_token =
     JObj [(''access_token'', JStr access_token), (''refresh_token'', JStr refresh_token), (''token_type'', JStr ''Bearer'')]"

definition post_register ::
  "('r, 'c) env \<Rightarrow> Request \<Rightarrow> PathParams \<Rightarrow> ('r, 'c) world \<Rightarrow> ('r, 'c) reply" where
  "post_register E req params =
     with_json E req (\<lambda>body.
     with_str E body ''username'' (\<lambda>username.
     with_str E body ''email'' (\<lambda>email.
     with_str E body ''password'' (\<lambda>password.
       if username = [] \<or> email = [] \<or> password = [] then fail E 400 ''missing required fields''
       else if length password < 6 then fail E 400 ''password must be at least 6 characters''
       else with_exec E (select_user_taken username email) ReadOnly (db_error E) (\<lambda>r.
         if r \<noteq> [] then fail E 409 ''username or email already taken''
         else with_hash E password (\<lambda>pw_hash.
           with_snowflake E (\<lambda>uid.
           with_exec E (insert_user uid username email pw_hash) NonRetryableWrite (db_error E) (\<lambda>_.
             answer E 201 (JObj [(''id'', JStr (to_string_i64 uid)), (''username'', JStr username)])))))))))"

definition post_login ::
  "('r, 'c) env \<Rightarrow> Request \<Rightarrow> PathParams \<Rightarrow> ('r, 'c) world \<Rightarrow> ('r, 'c) reply" where
  "post_login E req params =
     with_json E req (\<lambda>body.
     with_str E body ''username'' (\<lambda>username.
     with_str E body ''password'' (\<lambda>password.
       if username = [] \<or> password = [] then fail E 400 ''missing required fields''
       else with_exec E (select_credentials username) ReadOnly (db_error E) (\<lambda>user_row.
         case user_row of
           [] \<Rightarrow> fail E 401 ''invalid credentials''
         | (uid, pw_hash) # _ \<Rightarrow>
             if \<not> password_verify (e_pbkdf2 E) password pw_hash then fail E 401 ''invalid credentials''
             else with_access_token E uid (\<lambda>access_token.
               with_refresh_token E (\<lambda>refresh_token.
               with_exec E (insert_refresh_token refresh_token uid) NonRetryableWrite (db_error E) (\<lambda>_.
                 answer E 200 (token_json access_token refresh_token))))))))"

definition post_logout ::
  "('r, 'c) env \<Rightarrow> Request \<Rightarrow> PathParams \<Rightarrow> ('r, 'c) world \<Rightarrow> ('r, 'c) reply" where
  "post_logout E req params =
     with_user E req (\<lambda>uid.
     with_json E req (\<lambda>body.
     with_str E body ''refresh_token'' (\<lambda>refresh_token.
       if refresh_token = [] then fail E 400 ''missing refresh_token''
       else with_exec E (delete_refresh_token refresh_token uid) NonRetryableWrite (db_error E) (\<lambda>_.
         \<lambda>w. Some (Some (empty_response 204), w)))))"

definition post_refresh ::
  "('r, 'c) env \<Rightarrow> Request \<Rightarrow> PathParams \<Rightarrow> ('r, 'c) world \<Rightarrow> ('r, 'c) reply" where
  "post_refresh E req params =
     with_json E req (\<lambda>body.
     with_str E body ''refresh_token'' (\<lambda>old_token.
       if old_token = [] then fail E 400 ''missing refresh_token''
       else with_exec E (select_refresh_token old_token) ReadOnly (db_error E) (\<lambda>token_row.
         case token_row of
           [] \<Rightarrow> fail E 401 ''invalid or expired token''
         | uid # _ \<Rightarrow>
             with_refresh_token E (\<lambda>new_refresh.
             with_exec E (rotate_refresh_token old_token new_refresh uid) NonRetryableWrite (db_error E) (\<lambda>_.
             with_access_token E uid (\<lambda>access_token.
               answer E 200 (token_json access_token new_refresh)))))))"

section \<open>Lemmas\<close>

lemma good_with_hash [handler_intros]: "(\<And>h. good E (k h)) \<Longrightarrow> good E (with_hash E p k)"
proof -
  assume k: "\<And>h. good E (k h)"
  have "with_hash E p k = (\<lambda>w. (\<lambda>x w. case password_hash (e_pbkdf2 E) (if fst x then Some (snd x) else None) p of
      None \<Rightarrow> throws w | Some h \<Rightarrow> k h w) (fst (w_rand_bytes E SALT_LEN w)) (snd (w_rand_bytes E SALT_LEN w)))"
    by (simp add: fun_eq_iff with_hash_def split_beta Let_def)
  then show ?thesis using k by (simp only:) (rule good_read, auto intro!: handler_intros eff_primitive eff_refl)
qed

lemma good_with_refresh_token [handler_intros]: "(\<And>h. good E (k h)) \<Longrightarrow> good E (with_refresh_token E k)"
proof -
  assume k: "\<And>h. good E (k h)"
  have "with_refresh_token E k = (\<lambda>w. (\<lambda>x. k (generate_refresh_token (snd x))) (fst (w_rand_bytes E 32 w)) (snd (w_rand_bytes E 32 w)))"
    by (simp add: fun_eq_iff with_refresh_token_def split_beta Let_def)
  then show ?thesis using k by (simp only:) (rule good_read, auto intro!: handler_intros eff_primitive eff_refl)
qed

lemma good_with_access_token [handler_intros]: "(\<And>h. good E (k h)) \<Longrightarrow> good E (with_access_token E uid k)"
proof -
  assume k: "\<And>h. good E (k h)"
  have "with_access_token E uid k = (\<lambda>w. (\<lambda>now. k (jwt_issue (e_jwt E) (e_secret E) uid (24 * 3600) now)) (fst (w_now E w)) (snd (w_now E w)))"
    by (simp add: fun_eq_iff with_access_token_def split_beta Let_def)
  then show ?thesis using k by (simp only:) (rule good_read, auto intro!: handler_intros eff_primitive eff_refl)
qed

lemma good_auth_handlers [handler_intros]:
  "good E (post_register E req ps)" "good E (post_login E req ps)" "good E (post_logout E req ps)"
  "good E (post_refresh E req ps)"
  unfolding post_register_def post_login_def post_logout_def post_refresh_def
  by (auto intro!: handler_intros good_const split: list.splits prod.splits)

lemma with_refresh_token_E [handler_elims]:
  assumes "with_refresh_token E k w = Some (Some res, w')"
  obtains "k (generate_refresh_token (snd (e_rand E (w_rand w) 32))) (snd (w_rand_bytes E 32 w)) = Some (Some res, w')"
  using assms by (simp add: with_refresh_token_def w_rand_bytes_def split_beta)

lemma with_access_token_E [handler_elims]:
  assumes "with_access_token E uid k w = Some (Some res, w')"
  obtains t where "k t (snd (w_now E w)) = Some (Some res, w')"
  using assms by (auto simp: with_access_token_def w_now_def)

lemma with_hash_E [handler_elims]:
  assumes "with_hash E p k w = Some (Some res, w')"
  obtains h where "password_hash (e_pbkdf2 E) (Some (snd (e_rand E (w_rand w) SALT_LEN))) p = Some h"
    "k h (snd (w_rand_bytes E SALT_LEN w)) = Some (Some res, w')"
proof -
  have "password_hash f None p = None" for f by (simp add: password_hash_def)
  with assms that show thesis
    by (auto simp: with_hash_def w_rand_bytes_def throws_def split_beta split: option.splits if_splits)
qed

text \<open>What a successful answer of each handler tells.\<close>

lemma post_register_201:
  assumes "post_register E req ps w = Some (Some res, w')" "re_status res = 201"
  obtains body un em pw h uid where "jl_parse (e_json E) (rq_body req) = Some body"
    "jl_value_str (e_json E) body ''username'' [] = Some un" "jl_value_str (e_json E) body ''email'' [] = Some em"
    "jl_value_str (e_json E) body ''password'' [] = Some pw" "un \<noteq> []" "6 \<le> length pw"
    "password_hash (e_pbkdf2 E) (Some (snd (e_rand E (w_rand w) SALT_LEN))) pw = Some h"
    "insert_user uid un em h (wdb w) = Inr ((), wdb w')"
  using assms unfolding post_register_def
  by (auto elim!: handler_elims simp: select_user_taken_def query_text_def split: if_splits)

lemma post_refresh_200:
  assumes "post_refresh E req ps w = Some (Some res, w')" "re_status res = 200"
  obtains body ot t where "jl_parse (e_json E) (rq_body req) = Some body"
    "jl_value_str (e_json E) body ''refresh_token'' [] = Some ot"
    "ot \<noteq> []" "t \<in> set (db_refresh_tokens (wdb w))" "rt_token t = ot" "db_now (wdb w) < rt_expires_at t"
    "rotate_refresh_token ot (generate_refresh_token (snd (e_rand E (w_rand w) 32))) (rt_user_id t) (wdb w) = Inr ((), wdb w')"
  using assms unfolding post_refresh_def
  by (auto elim!: handler_elims simp: select_refresh_token_def query_text_def Cons_eq_map_conv
      split: if_splits list.splits dest!: filter_row)

lemma post_logout_204:
  assumes "post_logout E req ps w = Some (Some res, w')" "re_status res = 204"
  obtains uid body rt where
    "require_auth (e_jwt E) (e_secret E) (e_clk E (w_clk w)) (rq_authorization req) = Some uid"
    "jl_parse (e_json E) (rq_body req) = Some body" "jl_value_str (e_json E) body ''refresh_token'' [] = Some rt" "rt \<noteq> []"
    "delete_refresh_token rt uid (wdb w) = Inr ((), wdb w')"
  using assms unfolding post_logout_def by (auto elim!: handler_elims split: if_splits)

text \<open>What a login answers for a user in the database.\<close>

lemma post_login_status:
  assumes "post_login E req ps w = Some (Some res, w')" "jl_parse (e_json E) (rq_body req) = Some body"
    "jl_value_str (e_json E) body ''username'' [] = Some un" "jl_value_str (e_json E) body ''password'' [] = Some pw"
    "un \<noteq> []" "pw \<noteq> []" "filter (\<lambda>u. us_username u = un) (db_users (wdb w)) = u # us"
  shows "re_status res \<in> (if password_verify (e_pbkdf2 E) pw (us_password_hash u) then {200, 500} else {401, 500})"
  using assms unfolding post_login_def
  by (auto elim!: handler_elims simp: select_credentials_def query_text_def with_json_def with_str_def split: if_splits)

lemma insert_user_row:
  assumes "insert_user uid un em h d = Inr ((), d')"
  shows "filter (\<lambda>u. us_username u = un) (db_users d') =
    [\<lparr>us_id = uid, us_username = un, us_email = em, us_password_hash = h, us_bio = None, us_avatar_url = None,
      us_last_seen_at = None\<rparr>]"
  using assms by (auto simp: insert_user_def filter_empty_conv split: if_splits)

text \<open>What a refresh answers for a token.\<close>

lemma post_refresh_status:
  assumes "post_refresh E req ps w = Some (Some res, w')" "jl_parse (e_json E) (rq_body req) = Some body"
    "jl_value_str (e_json E) body ''refresh_token'' [] = Some rt" "rt \<noteq> []"
  shows "re_status res \<in> (if \<exists>t \<in> set (db_refresh_tokens (wdb w)). rt_token t = rt \<and> db_now (wdb w) < rt_expires_at t
    then {200, 500} else {401, 500})"
  using assms unfolding post_refresh_def
  by (auto elim!: handler_elims simp: select_refresh_token_def query_text_def with_json_def with_str_def
      filter_empty_conv Cons_eq_map_conv split: if_splits list.splits dest!: filter_row)

lemma rotate_rows:
  assumes "rotate_refresh_token ot nr uid d = Inr ((), d')"
  shows "db_refresh_tokens d' = filter (\<lambda>t. rt_token t \<noteq> ot) (db_refresh_tokens d) @
      [\<lparr>rt_token = nr, rt_user_id = uid, rt_expires_at = db_now d + 30 * 86400 * 1000000\<rparr>]"
    "\<forall>t \<in> set (db_refresh_tokens d). rt_token t \<noteq> ot \<longrightarrow> rt_token t \<noteq> nr"
  using assms by (auto simp: rotate_refresh_token_def txn_bind_def insert_refresh_token_def split: if_splits)

section \<open>Properties\<close>

text \<open>C19. Registration and login: after a registration with status 201, a login with the same user name
  answers 200 exactly for the passwords whose derived key is that of the registered one, and 401 for the
  others, unless the database fails (500).  OpenSSL fills the requested number of bytes.\<close>

theorem register_then_login:
  assumes "post_register E req ps w = Some (Some res, w1)" "re_status res = 201"
    and "\<And>k n. length (snd (e_rand E k n)) = n"
    and "\<And>p s i n key. e_pbkdf2 E p s i n = Some key \<Longrightarrow> length key = n"
    and "jl_parse (e_json E) (rq_body req) = Some body" "jl_value_str (e_json E) body ''username'' [] = Some un"
      "jl_value_str (e_json E) body ''password'' [] = Some pw"
    and "jl_parse (e_json E) (rq_body req2) = Some body2" "jl_value_str (e_json E) body2 ''username'' [] = Some un"
      "jl_value_str (e_json E) body2 ''password'' [] = Some pw2" "pw2 \<noteq> []"
    and "post_login E req2 ps2 w1 = Some (Some res2, w2)"
  shows "re_status res2 \<in> (if pw2 = pw \<or> (\<exists>salt. salt = snd (e_rand E (w_rand w) SALT_LEN) \<and>
      e_pbkdf2 E pw2 salt ITERATIONS KEY_LEN = e_pbkdf2 E pw salt ITERATIONS KEY_LEN) then {200, 500} else {401, 500})"
proof -
  let ?salt = "snd (e_rand E (w_rand w) SALT_LEN)"
  obtain em h uid where r: "un \<noteq> []" "password_hash (e_pbkdf2 E) (Some ?salt) pw = Some h"
    "insert_user uid un em h (wdb w) = Inr ((), wdb w1)"
    by (rule post_register_201 [OF assms(1,2)]) (use assms(5,6,7) in auto)
  obtain key where k: "e_pbkdf2 E pw ?salt ITERATIONS KEY_LEN = Some key"
    using r(2) by (auto simp: password_hash_def split: option.splits)
  have v: "password_verify (e_pbkdf2 E) pw2 h \<longleftrightarrow> e_pbkdf2 E pw2 ?salt ITERATIONS KEY_LEN = Some key"
    using password_verify_hash [OF k _ _ r(2)] assms(3,4) k by simp
  show ?thesis
    using post_login_status [OF assms(12,8,9,10) r(1) assms(11) insert_user_row [OF r(3)]] v k by auto
qed

definition auth_parse :: "string \<Rightarrow> json option" where
  "auth_parse s =
     (if s = ''register'' then Some (JObj [(''username'', JStr ''dan''), (''email'', JStr ''d@x''), (''password'', JStr ''secret'')])
      else if s = ''login'' then Some (JObj [(''username'', JStr ''dan''), (''password'', JStr ''hunter22'')])
      else if s = ''token'' then Some (JObj [(''refresh_token'', JStr ''t'')])
      else if s = ''fresh'' then Some (JObj [(''refresh_token'', JStr (to_hex (replicate 32 0)))])
      else None)"

abbreviation auth_env :: "(rstore, cass_ref) env" where
  "auth_env \<equiv> http_env auth_parse"

abbreviation auth_request :: "string \<Rightarrow> Request" where
  "auth_request \<equiv> demo_request Post [] ''Bearer 7''"

lemma ascii_to_hex [simp]: "ascii (to_hex bs)"
proof -
  have "(of_char (hex_digit n) :: nat) < 128" if "n < 16" for n
    using that by (auto simp: hex_digit_def)
  moreover have "unat (b :: u8) div 16 < 16" for b
    using unsigned_less [of b, where 'a = nat] by (simp del: unsigned_less)
  ultimately show ?thesis by (auto simp: ascii_def to_hex_def)
qed

lemmas auth_eval = with_json_def with_str_def ref_json_def auth_parse_def

lemma demo_register:
  "runs (post_register auth_env (auth_request ''register'') Map.empty demo_world)
     (\<lambda>res w'. re_status res = 201 \<and> pg_free_list (w_pg w') = [0] \<and>
       (\<exists>i h. select_credentials ''dan'' (wdb w') = Inr ([(i, h)], wdb w') \<and> \<not> password_verify (e_pbkdf2 auth_env) ''hunter22'' h))"
proof -
  have s: "select_user_taken ''dan'' ''d@x'' demo_db = Inr ([], demo_db)"
    by (simp add: select_user_taken_def query_text_def demo_db_def demo_user_def)
  have u: "snowflake_id 1000 1 0 \<notin> {7, 9, 12}" by (simp add: snowflake_id_def)
  obtain h where h: "password_hash (e_pbkdf2 auth_env) (Some (replicate SALT_LEN 0)) ''secret'' = Some h" "ascii h"
    by (auto simp: password_hash_def string_of_int_def)
  have v: "\<not> password_verify (e_pbkdf2 auth_env) ''hunter22'' h"
    using password_verify_hash [OF _ _ _ h(1), of "replicate 32 6" "''hunter22''"]
    by (simp add: KEY_LEN_def)
  obtain d where d: "insert_user (snowflake_id 1000 1 0) ''dan'' ''d@x'' h demo_db = Inr ((), d)"
    "select_credentials ''dan'' d = Inr ([(snowflake_id 1000 1 0, h)], d)"
    using h(2) u by (auto simp: insert_user_def select_credentials_def query_text_def demo_db_def demo_user_def)
  have f: "w_rand demo_world = 0" by (simp add: demo_world_def)
  show ?thesis
    unfolding post_register_def
    apply (simp add: auth_eval)
    apply (rule runs_exec, simp, simp, simp only: demo_fields, rule s)
    apply (simp add: with_hash_def w_rand_bytes_def h f)
    apply (rule runs_snowflake, simp add: demo_next)
    apply (rule runs_exec, simp, simp, simp, rule d(1))
    apply (rule runs_answer, simp add: ref_dump, simp add: d(2) v)
    done
qed

theorem register_then_login_witness:
  "\<exists>res w1 res2 w2. post_register auth_env (auth_request ''register'') Map.empty demo_world = Some (Some res, w1) \<and>
     post_login auth_env (auth_request ''login'') Map.empty w1 = Some (Some res2, w2) \<and> re_status res2 \<in> {401, 500}"
proof -
  obtain res w1 i h where r: "post_register auth_env (auth_request ''register'') Map.empty demo_world = Some (Some res, w1)"
    "re_status res = 201" "pg_free_list (w_pg w1) = [0]" and s: "select_credentials ''dan'' (wdb w1) = Inr ([(i, h)], wdb w1)"
    and v: "\<not> password_verify (e_pbkdf2 auth_env) ''hunter22'' h"
    by (rule runsE [OF demo_register]) auto
  have "runs (post_login auth_env (auth_request ''login'') Map.empty w1) (\<lambda>_ _. True)"
    unfolding post_login_def
    apply (simp add: auth_eval)
    apply (rule runs_exec, simp, simp add: r, rule s)
    apply (simp add: v, rule runs_fail, simp_all add: ref_dump)
    done
  then obtain res2 w2 where l: "post_login auth_env (auth_request ''login'') Map.empty w1 = Some (Some res2, w2)"
    by (rule runsE)
  have "re_status res2 \<in> {401, 500}"
    using register_then_login [where body = "the (auth_parse ''register'')" and un = "''dan''" and pw = "''secret''"
        and ?body2.0 = "the (auth_parse ''login'')" and ?pw2.0 = "''hunter22''", OF r(1,2) _ _ _ _ _ _ _ _ _ l]
    by (simp add: auth_eval KEY_LEN_def)
  with r l show ?thesis by blast
qed


definition token_db :: Db where
  "token_db = demo_db\<lparr>db_refresh_tokens := [\<lparr>rt_token = ''t'', rt_user_id = 7, rt_expires_at = 100\<rparr>]\<rparr>"

definition token_world :: "(rstore, cass_ref) world" where
  "token_world = demo_world\<lparr>w_pg := (w_pg demo_world)\<lparr>pg_db := token_db\<rparr>\<rparr>"

lemma token_world_simps [simp]:
  "w_pg token_world = (w_pg demo_world)\<lparr>pg_db := token_db\<rparr>" "w_rand token_world = 0" "w_clk token_world = 0"
  by (simp_all add: token_world_def) (simp add: demo_world_def)

lemma refused_token:
  "pg_free_list (w_pg w) \<noteq> [] \<Longrightarrow> select_refresh_token ''t'' (wdb w) = Inr ([], wdb w) \<Longrightarrow>
   runs (post_refresh auth_env (auth_request ''token'') Map.empty w) (\<lambda>_ _. True)"
  unfolding post_refresh_def
  apply (simp add: auth_eval)
  apply (rule runs_exec, simp, simp, assumption, simp)
  apply (rule runs_fail, simp_all add: ref_dump)
  done

lemma demo_token: "to_hex (replicate 32 0) \<noteq> ''t''" "to_hex (replicate 32 0) \<noteq> []"
  using length_to_hex [of "replicate 32 0"] by (auto simp del: length_to_hex)

lemma demo_refresh:
  "runs (post_refresh auth_env (auth_request ''token'') Map.empty token_world)
     (\<lambda>res w'. re_status res = 200 \<and> pg_free_list (w_pg w') = [0] \<and> select_refresh_token ''t'' (wdb w') = Inr ([], wdb w'))"
proof -
  let ?n = "to_hex (replicate 32 0)"
  have s: "select_refresh_token ''t'' token_db = Inr ([7], token_db)"
    by (simp add: select_refresh_token_def query_text_def token_db_def demo_db_def)
  obtain d where d: "rotate_refresh_token ''t'' ?n 7 token_db = Inr ((), d)" "select_refresh_token ''t'' d = Inr ([], d)"
    using demo_token by (simp add: rotate_refresh_token_def txn_bind_def insert_refresh_token_def has_user_def
        select_refresh_token_def query_text_def token_db_def demo_db_def demo_user_def
       )
  show ?thesis
    unfolding post_refresh_def
    apply (simp add: auth_eval)
    apply (rule runs_exec, simp, simp, simp, rule s)
    apply (simp add: with_refresh_token_def w_rand_bytes_def generate_refresh_token_def)
    apply (rule runs_exec, simp, simp, simp, rule d(1))
    apply (simp add: with_access_token_def w_now_def jwt_issue_def demo_jwt_def token_json_def)
    apply (rule runs_answer, simp add: ref_dump, simp add: d(2))
    done
qed




end
