(* ===== verification/Http_Groups.thy ===== *)
theory Http_Groups
  imports Http_Server
begin

text \<open>
  \<open>src/server/src/http/GroupsHandler.cpp\<close>: creating, showing and renaming a group, adding and removing members.
  PostgreSQL holds the membership; the set in Redis is updated after the transaction.
\<close>

section \<open>Handlers\<close>

text \<open>The elements of \<open>member_ids\<close>: \<open>get<std::string>()\<close> throws on another type (\<open>None\<close>), a text that is not a
  number is skipped.\<close>

fun parse_member_ids :: "json list \<Rightarrow> u64 list option" where
  "parse_member_ids [] = Some []"
| "parse_member_ids (JStr s # js) =
     (case from_chars_u64 s of
        None \<Rightarrow> parse_member_ids js
      | Some uid \<Rightarrow> map_option ((#) uid) (parse_member_ids js))"
| "parse_member_ids (_ # js) = None"

definition requested_members :: "json_lib \<Rightarrow> json \<Rightarrow> u64 list option" where
  "requested_members L body =
     (case (jl_contains L body ''member_ids'', jl_at L body ''member_ids'') of
        (True, JArr items) \<Rightarrow> parse_member_ids items
      | _ \<Rightarrow> Some [])"

definition w_sadd :: "('r, 'c) env \<Rightarrow> u64 \<Rightarrow> u64 \<Rightarrow> ('r, 'c) world \<Rightarrow> ('r, 'c) world" where
  "w_sadd E g u w = w\<lparr>w_redis := sadd_group_member (e_rx E) (w_redis w) g u\<rparr>"

definition w_srem :: "('r, 'c) env \<Rightarrow> u64 \<Rightarrow> u64 \<Rightarrow> ('r, 'c) world \<Rightarrow> ('r, 'c) world" where
  "w_srem E g u w = w\<lparr>w_redis := srem_group_member (e_rx E) (w_redis w) g u\<rparr>"

definition post_groups ::
  "('r, 'c) env \<Rightarrow> Request \<Rightarrow> PathParams \<Rightarrow> ('r, 'c) world \<Rightarrow> ('r, 'c) reply" where
  "post_groups E req params =
     with_user E req (\<lambda>creator_id.
     with_json E req (\<lambda>body.
     with_str E body ''name'' (\<lambda>name.
       if name = [] then fail E 400 ''name required''
       else with_snowflake E (\<lambda>group_id.
         case requested_members (e_json E) body of
           None \<Rightarrow> throws
         | Some member_ids \<Rightarrow>
             with_exec E (create_group_txn group_id name creator_id member_ids) NonRetryableWrite (db_error E) (\<lambda>created_at.
               \<lambda>w. answer E 201 (JObj [(''group_id'', JStr (to_string_u64 group_id)), (''name'', JStr name),
                     (''created_at'', JStr created_at)])
                   (foldl (\<lambda>w uid. w_sadd E group_id uid w) w (creator_id # member_ids)))))))"

definition get_group ::
  "('r, 'c) env \<Rightarrow> Request \<Rightarrow> PathParams \<Rightarrow> ('r, 'c) world \<Rightarrow> ('r, 'c) reply" where
  "get_group E req params =
     with_user E req (\<lambda>caller_id.
     with_id E params ''id'' ''invalid id'' (\<lambda>group_id.
     with_exec E (select_group group_id) ReadOnly (db_error E) (\<lambda>grows.
       case grows of
         [] \<Rightarrow> fail E 404 ''group not found''
       | (gid, name, creator, created_at) # _ \<Rightarrow>
           with_exec E (select_group_roster group_id) ReadOnly (db_error E) (\<lambda>mrows.
             if caller_id \<notin> set (map fst mrows) then fail E 403 ''not a member''
             else try_answer E 200 (JObj
               [(''group_id'', JStr (to_string_i64 gid)), (''name'', JStr name),
                (''creator_id'', JStr (to_string_i64 creator)), (''created_at'', JStr created_at),
                (''members'', JArr (map (\<lambda>(u, username, role).
                   JObj [(''user_id'', JStr (to_string_i64 u)), (''username'', JStr username), (''role'', JStr role)]) mrows))])))))"

text \<open>The check that two handlers share: the role of the caller in the group.\<close>

definition with_admin ::
  "('r, 'c) env \<Rightarrow> u64 \<Rightarrow> u64 \<Rightarrow> (('r, 'c) world \<Rightarrow> ('r, 'c) reply) \<Rightarrow> ('r, 'c) world \<Rightarrow> ('r, 'c) reply" where
  "with_admin E group_id caller_id k =
     with_exec E (select_role group_id caller_id) ReadOnly (db_error E) (\<lambda>rows.
       if rows = [] \<or> hd rows \<noteq> ''admin'' then fail E 403 ''admin required'' else k)"

definition patch_group ::
  "('r, 'c) env \<Rightarrow> Request \<Rightarrow> PathParams \<Rightarrow> ('r, 'c) world \<Rightarrow> ('r, 'c) reply" where
  "patch_group E req params =
     with_user E req (\<lambda>caller_id.
     with_id E params ''id'' ''invalid id'' (\<lambda>group_id.
     with_json E req (\<lambda>body.
     with_str E body ''name'' (\<lambda>name.
       if name = [] then fail E 400 ''name required''
       else with_admin E group_id caller_id (
         with_exec E (update_group_name group_id name) NonRetryableWrite (db_error E) (\<lambda>_.
           try_answer E 200 (JObj [(''group_id'', JStr (to_string_u64 group_id)), (''name'', JStr name)])))))))"

definition post_group_members ::
  "('r, 'c) env \<Rightarrow> Request \<Rightarrow> PathParams \<Rightarrow> ('r, 'c) world \<Rightarrow> ('r, 'c) reply" where
  "post_group_members E req params =
     with_user E req (\<lambda>caller_id.
     with_id E params ''id'' ''invalid id'' (\<lambda>group_id.
     with_json E req (\<lambda>body.
     with_str E body ''user_id'' (\<lambda>uid_str.
       if uid_str = [] then fail E 400 ''user_id required''
       else case from_chars_u64 uid_str of
         None \<Rightarrow> fail E 400 ''invalid user_id''
       | Some new_uid \<Rightarrow>
           with_admin E group_id caller_id (
             with_exec E (insert_group_member_if_absent group_id new_uid) NonRetryableWrite (db_error E) (\<lambda>_.
               \<lambda>w. try_answer E 201 (JObj [(''group_id'', JStr (to_string_u64 group_id)),
                     (''user_id'', JStr (to_string_u64 new_uid))]) (w_sadd E group_id new_uid w)))))))"

text \<open>An exception of the query for the role counts as a missing role.\<close>

definition delete_group_member_route ::
  "('r, 'c) env \<Rightarrow> Request \<Rightarrow> PathParams \<Rightarrow> ('r, 'c) world \<Rightarrow> ('r, 'c) reply" where
  "delete_group_member_route E req params =
     with_user E req (\<lambda>caller_id.
     with_id E params ''id'' ''invalid id'' (\<lambda>group_id.
     with_id E params ''uid'' ''invalid uid'' (\<lambda>target_uid.
       let forbidden = fail E 403 ''admin required or removing self'';
           remove = with_exec E (delete_group_member group_id target_uid) NonRetryableWrite (db_error E)
             (\<lambda>_ w. Some (Some (empty_response 204), w_srem E group_id target_uid w))
       in if caller_id = target_uid then remove
          else with_exec E (select_role group_id caller_id) ReadOnly forbidden (\<lambda>rows.
            if rows \<noteq> [] \<and> hd rows = ''admin'' then remove else forbidden))))"

section \<open>Lemmas\<close>

lemma eff_sadd: "effects E w v \<Longrightarrow> effects E w (w_sadd E g u v)" "effects E w v \<Longrightarrow> effects E w (w_srem E g u v)"
  by (simp_all add: w_sadd_def w_srem_def eff_redis)

lemma eff_foldl: "(\<And>v x. effects E w v \<Longrightarrow> effects E w (f v x)) \<Longrightarrow> effects E w v \<Longrightarrow> effects E w (foldl f v xs)"
  by (induction xs arbitrary: v) simp_all

lemma good_with_admin [handler_intros]: "good E k \<Longrightarrow> good E (with_admin E g c k)"
  unfolding with_admin_def by (auto intro!: handler_intros)

lemma good_group_handlers [handler_intros]:
  "good E (post_groups E req ps)" "good E (get_group E req ps)" "good E (patch_group E req ps)"
  "good E (post_group_members E req ps)" "good E (delete_group_member_route E req ps)"
  unfolding post_groups_def get_group_def patch_group_def post_group_members_def delete_group_member_route_def Let_def
  by (auto intro!: handler_intros eff_foldl eff_sadd eff_refl split: option.splits list.splits prod.splits)

text \<open>What the transactions do to the membership.\<close>

definition is_admin :: "Db \<Rightarrow> i64 \<Rightarrow> i64 \<Rightarrow> bool" where
  "is_admin d g u \<longleftrightarrow> (\<exists>m \<in> set (db_group_members d). gm_group_id m = g \<and> gm_user_id m = u \<and> gm_role m = ''admin'')"

definition other_groups :: "i64 \<Rightarrow> Db \<Rightarrow> GroupRow list \<times> GroupMember list" where
  "other_groups g d = (filter (\<lambda>r. gr_id r \<noteq> g) (db_groups d), filter (\<lambda>m. gm_group_id m \<noteq> g) (db_group_members d))"

lemma insert_member_rows:
  assumes "insert_group_member g u role d = Inr ((), d')"
  shows "in_group d' h v \<longleftrightarrow> in_group d h v \<or> h = g \<and> v = u" "is_admin d' h v \<longleftrightarrow> is_admin d h v \<or> h = g \<and> v = u \<and> role = ''admin''"
    "other_groups g d' = other_groups g d" "db_groups d' = db_groups d"
  using assms by (auto simp: insert_group_member_def in_group_def is_admin_def other_groups_def split: if_splits)

lemma insert_member_if_absent_rows:
  assumes "insert_group_member_if_absent g u d = Inr ((), d')"
  shows "in_group d' h v \<longleftrightarrow> in_group d h v \<or> h = g \<and> v = u" "is_admin d' = is_admin d"
    "other_groups g d' = other_groups g d" "db_groups d' = db_groups d"
  using assms insert_member_rows [of g u "''member''" d d']
  by (auto simp: insert_group_member_if_absent_def fun_eq_iff split: if_splits)

lemma insert_members_rows:
  "txn_each (insert_group_member_if_absent g) us d = Inr (x, d') \<Longrightarrow>
   (\<forall>h v. in_group d' h v \<longleftrightarrow> in_group d h v \<or> h = g \<and> v \<in> set us) \<and> is_admin d' = is_admin d \<and>
   other_groups g d' = other_groups g d \<and> db_groups d' = db_groups d"
proof (induction us arbitrary: d)
  case (Cons u us)
  then obtain d1 where d1: "insert_group_member_if_absent g u d = Inr ((), d1)"
    "txn_each (insert_group_member_if_absent g) us d1 = Inr (x, d')"
    by (auto simp: txn_bind_def split: sum.splits)
  show ?case using Cons.IH [OF d1(2)] insert_member_if_absent_rows [OF d1(1)] by auto
qed (simp add: txn_return_def)

lemma create_group_rows:
  assumes "create_group_txn g name cr ids d = Inr (ts, d')" "db_ok d"
  shows "\<not> has_group d g" "has_group d' g" "in_group d' g u \<longleftrightarrow> u \<in> insert cr (set ids)"
    "is_admin d' g u \<longleftrightarrow> u = cr" "other_groups g d' = other_groups g d"
proof -
  obtain d1 d2 where d1: "insert_group g name cr d = Inr (ts, d1)" and d2: "insert_group_member g cr ''admin'' d1 = Inr ((), d2)"
    and d3: "txn_each (insert_group_member_if_absent g) ids d2 = Inr ((), d')"
    using assms(1) by (auto simp: create_group_txn_def txn_bind_def txn_return_def split: sum.splits)
  have 1: "\<not> has_group d g" "has_group d1 g" "db_group_members d1 = db_group_members d" "other_groups g d1 = other_groups g d"
    using d1 by (auto simp: insert_group_def has_group_def other_groups_def split: if_splits)
  have none: "\<not> in_group d1 g v" "\<not> is_admin d1 g v" for v
    using assms(2) 1(1,3) by (auto simp: db_ok_def members_ok_def group_ids_def has_group_def in_group_def is_admin_def)
  note 2 = insert_member_rows [OF d2] and 3 = insert_members_rows [OF d3]
  show "\<not> has_group d g" by (rule 1)
  show "has_group d' g" using 1(2) 2(4) 3 by (simp add: has_group_def)
  show "in_group d' g u \<longleftrightarrow> u \<in> insert cr (set ids)" using 2(1) [of g] 3 none by auto
  show "is_admin d' g u \<longleftrightarrow> u = cr" using 2(2) [of g] 3 none by auto
  show "other_groups g d' = other_groups g d" using 1(4) 2(3) 3 by simp
qed

text \<open>The caller's row of \<open>group_members\<close>.\<close>

lemma select_role_admin:
  "select_role g u d = Inr (rows, d') \<Longrightarrow> d' = d \<and> (rows \<noteq> [] \<longrightarrow> hd rows = ''admin'' \<longrightarrow> is_admin d g u)"
proof -
  have "is_admin d g u" if "map gm_role (filter (\<lambda>m. gm_group_id m = g \<and> gm_user_id m = u) (db_group_members d)) = ''admin'' # rs" for rs
    using that by (auto simp: is_admin_def map_eq_Cons_conv dest!: filter_row)
  then show "select_role g u d = Inr (rows, d') \<Longrightarrow> ?thesis" by (cases rows) (auto simp: select_role_def query_def)
qed

lemma with_admin_E [handler_elims]:
  assumes "with_admin E g c k w = Some (Some res, w')"
  obtains "wdb w' = wdb w" "w_redis w' = w_redis w" "re_status res \<in> {403, 500}"
  | p where "is_admin (wdb w) g c" "pg_db p = wdb w" "pg_free_list p = pg_free_list (w_pg w)"
      "k (w\<lparr>w_pg := p\<rparr>) = Some (Some res, w')"
  using assms unfolding with_admin_def
  by (auto elim!: handler_elims split: if_splits dest!: select_role_admin)

lemma update_name_rows:
  "update_group_name g name d = Inr (x, d') \<Longrightarrow> other_groups g d' = other_groups g d \<and> db_group_members d' = db_group_members d"
proof -
  have "filter (\<lambda>r. gr_id r \<noteq> g) (map (\<lambda>r. if gr_id r = g then r\<lparr>gr_name := name\<rparr> else r) rs) = filter (\<lambda>r. gr_id r \<noteq> g) rs" for rs
    by (induction rs) auto
  then show "update_group_name g name d = Inr (x, d') \<Longrightarrow> ?thesis" by (auto simp: update_group_name_def other_groups_def split: if_splits)
qed

lemma delete_member_rows:
  "delete_group_member g u d = Inr (x, d') \<Longrightarrow> other_groups g d' = other_groups g d"
  by (auto simp: delete_group_member_def other_groups_def) (rule filter_cong, auto)

lemmas group_rows = update_name_rows delete_member_rows insert_member_if_absent_rows(3)

text \<open>What a change by each handler tells of the caller.\<close>

lemma patch_group_change:
  assumes "patch_group E req ps w = Some (Some res, w')" "wdb w' \<noteq> wdb w"
  obtains u g where "caller E req w = Some u" "path_id ps ''id'' = Some g" "is_admin (wdb w) g u" "other_groups g (wdb w') = other_groups g (wdb w)"
  using assms unfolding patch_group_def caller_def path_id_def
  by (auto elim!: handler_elims split: if_splits dest!: group_rows)

lemma post_group_members_change:
  assumes "post_group_members E req ps w = Some (Some res, w')" "wdb w' \<noteq> wdb w"
  obtains u g where "caller E req w = Some u" "path_id ps ''id'' = Some g" "is_admin (wdb w) g u" "other_groups g (wdb w') = other_groups g (wdb w)"
  using assms unfolding post_group_members_def caller_def path_id_def w_sadd_def
  by (auto elim!: handler_elims split: if_splits option.splits dest!: group_rows)

lemma delete_group_member_change:
  assumes "delete_group_member_route E req ps w = Some (Some res, w')" "wdb w' \<noteq> wdb w"
  obtains u g t where "caller E req w = Some u" "path_id ps ''id'' = Some g" "path_id ps ''uid'' = Some t"
    "u = t \<or> is_admin (wdb w) g u" "other_groups g (wdb w') = other_groups g (wdb w)"
  using assms unfolding delete_group_member_route_def caller_def path_id_def w_srem_def Let_def
  by (auto elim!: handler_elims split: if_splits dest!: select_role_admin group_rows)

context redis_server
begin

lemma sadd_members:
  assumes "up r" "set_at (content r) (group_key g) = Some S" "members_view S M"
  shows "\<exists>S'. up (foldl (\<lambda>r u. sadd_group_member rx r g u) r us) \<and>
    set_at (content (foldl (\<lambda>r u. sadd_group_member rx r g u) r us)) (group_key g) = Some S' \<and>
    members_view S' (set us \<union> M)"
  using assms
proof (induction us arbitrary: r S M)
  case (Cons u us)
  obtain S1 where "set_at (content (sadd_group_member rx r g u)) (group_key g) = Some S1" "members_view S1 (insert u M)"
    using sadd_srem_members(1) [OF Cons.prems] by blast
  then show ?case using Cons.IH [of "sadd_group_member rx r g u" S1 "insert u M"] Cons.prems by simp
qed auto

end

lemma w_sadd_simps [simp]: "w_pg (w_sadd E g u w) = w_pg w" "w_redis (w_sadd E g u w) = sadd_group_member (e_rx E) (w_redis w) g u"
  by (simp_all add: w_sadd_def)

lemma distinct_singleton: "distinct xs \<Longrightarrow> set xs = {v} \<Longrightarrow> xs = [v]"
  by (cases xs; cases "tl xs") auto

lemma foldl_sadd:
  "w_redis (foldl (\<lambda>w u. w_sadd E g u w) w us) = foldl (\<lambda>r u. sadd_group_member (e_rx E) r g u) (w_redis w) us"
  "w_pg (foldl (\<lambda>w u. w_sadd E g u w) w us) = w_pg w"
  by (induction us arbitrary: w) (simp_all add: w_sadd_def)

lemma post_groups_201:
  assumes "post_groups E req ps w = Some (Some res, w')" "re_status res = 201"
  obtains u g name body ids ts where "caller E req w = Some u" "jl_parse (e_json E) (rq_body req) = Some body"
    "requested_members (e_json E) body = Some ids" "create_group_txn g name u ids (wdb w) = Inr (ts, wdb w')"
    "w_redis w' = foldl (\<lambda>r u. sadd_group_member (e_rx E) r g u) (w_redis w) (u # ids)"
  using assms unfolding post_groups_def caller_def
  by (auto elim!: handler_elims simp: foldl_sadd split: if_splits option.splits)

lemma post_group_members_201:
  assumes "post_group_members E req ps w = Some (Some res, w')" "re_status res = 201"
  obtains u g v s where "caller E req w = Some u" "path_id ps ''id'' = Some g" "insert_group_member_if_absent g v (wdb w) = Inr ((), wdb w')"
    "w_redis w' = sadd_group_member (e_rx E) (w_redis w) g v"
    "jl_value_str (e_json E) (the (jl_parse (e_json E) (rq_body req))) ''user_id'' [] = Some s" "from_chars_u64 s = Some v"
  using assms unfolding post_group_members_def caller_def path_id_def
  by (auto elim!: handler_elims simp: w_sadd_def split: if_splits option.splits)

section \<open>Properties\<close>

text \<open>C18. Who may change a group: a request to the routes that rename a group or change its members only has an effect
  on the database when the caller is an admin of that group, or removes itself; and it only concerns that group.\<close>

theorem group_changes_authorized:
  assumes "patch_group E req ps w = Some (Some res, w') \<or> post_group_members E req ps w = Some (Some res, w') \<or>
      delete_group_member_route E req ps w = Some (Some res, w')"
    and "wdb w' \<noteq> wdb w"
  shows "\<exists>u g. caller E req w = Some u \<and> path_id ps ''id'' = Some g \<and> other_groups g (wdb w') = other_groups g (wdb w) \<and>
    (is_admin (wdb w) g u \<or> delete_group_member_route E req ps w = Some (Some res, w') \<and> path_id ps ''uid'' = Some u)"
  using assms(1)
  by (elim disjE) (auto elim: patch_group_change [OF _ assms(2)] post_group_members_change [OF _ assms(2)]
      delete_group_member_change [OF _ assms(2)])

definition group_parse :: "string \<Rightarrow> json option" where
  "group_parse s =
     (if s = ''rename'' then Some (JObj [(''name'', JStr ''h'')])
      else if s = ''create'' then Some (JObj [(''name'', JStr ''h''), (''member_ids'', JArr [JStr ''9'']) ])
      else if s = ''add'' then Some (JObj [(''user_id'', JStr ''9'')])
      else None)"

abbreviation group_env :: "(rstore, cass_ref) env" where
  "group_env \<equiv> http_env group_parse"

abbreviation group_request :: "string \<Rightarrow> Request" where
  "group_request \<equiv> demo_request Post [] ''Bearer 7''"

lemmas group_eval = with_json_def with_str_def with_id_def ref_json_def group_parse_def

lemma demo_role: "select_role 5 7 demo_db = Inr ([''admin''], demo_db)"
  by (simp add: select_role_def query_def demo_db_def)

theorem group_changes_authorized_witness:
  "\<exists>res w'. patch_group group_env (group_request ''rename'') [''id'' \<mapsto> ''5''] demo_world = Some (Some res, w') \<and>
     wdb w' \<noteq> wdb demo_world \<and> is_admin (wdb demo_world) 5 7"
proof -
  obtain d where d: "update_group_name 5 ''h'' demo_db = Inr ((), d)" "d \<noteq> demo_db"
    by (simp add: update_group_name_def demo_db_def)
  have "runs (patch_group group_env (group_request ''rename'') [''id'' \<mapsto> ''5''] demo_world) (\<lambda>res w'. wdb w' = d)"
    unfolding patch_group_def with_admin_def
    apply (rule runs_user, simp)
    apply (simp add: group_eval)
    apply (rule runs_exec, simp, simp, simp, rule demo_role)
    apply simp
    apply (rule runs_exec, simp, simp, simp, rule d(1))
    apply (rule runs_try_answer, simp add: ref_dump, simp)
    done
  then obtain res w' where r: "patch_group group_env (group_request ''rename'') [''id'' \<mapsto> ''5''] demo_world = Some (Some res, w')"
    "wdb w' = d" by (rule runsE) auto
  have "is_admin (wdb demo_world) 5 7"
    using group_changes_authorized [OF disjI1 [OF r(1)]] r(2) d(2) by (auto simp: caller_def path_id_def)
  with r d show ?thesis by auto
qed

text \<open>C24. A new group: after \<open>POST /groups\<close> with status 201 the group exists with the creator as its only admin and with
  the named members, the members that the sessions will read from Redis are the rows in PostgreSQL, and no
  other group has changed.\<close>

theorem group_created:
  assumes "redis_server (e_rx E) up content ttl pass" "up (w_redis w)" "world_db_ok w"
    and "\<And>g. \<not> has_group (wdb w) g \<Longrightarrow> content (w_redis w) (group_key g) = None"
    and "post_groups E req ps w = Some (Some res, w')" "re_status res = 201"
    and "caller E req w = Some u" "jl_parse (e_json E) (rq_body req) = Some body" "requested_members (e_json E) body = Some ids"
  shows "\<exists>g. \<not> has_group (wdb w) g \<and> has_group (wdb w') g \<and>
    {v. in_group (wdb w') g v} = insert u (set ids) \<and> {v. is_admin (wdb w') g v} = {u} \<and>
    set (fst (smembers_group (e_rx E) (w_redis w') g)) = {v. in_group (wdb w') g v} \<and>
    other_groups g (wdb w') = other_groups g (wdb w)"
proof -
  obtain g name ts where c: "create_group_txn g name u ids (wdb w) = Inr (ts, wdb w')"
    "w_redis w' = foldl (\<lambda>r u. sadd_group_member (e_rx E) r g u) (w_redis w) (u # ids)"
    by (rule post_groups_201 [OF assms(5,6)]) (use assms(7,8,9) in auto)
  note rows = create_group_rows [OF c(1)] assms(3)
  have "set_at (content (w_redis w)) (group_key g) = Some {}" "members_view {} {}"
    using assms(4) [of g] rows by (simp_all add: set_at_def members_view_def world_db_ok_def)
  then obtain S where "up (w_redis w')" "set_at (content (w_redis w')) (group_key g) = Some S" "members_view S (insert u (set ids))"
    using redis_server.sadd_members [OF assms(1,2), of g "{}" "{}" "u # ids"] unfolding c(2) by auto
  then have "set (fst (smembers_group (e_rx E) (w_redis w') g)) = insert u (set ids)"
    using redis_server.smembers_group_members [OF assms(1)] by blast
  then show ?thesis using rows by (intro exI [of _ g]) (auto simp: world_db_ok_def)
qed

theorem group_created_witness:
  "\<exists>res w' g. post_groups group_env (group_request ''create'') Map.empty demo_world = Some (Some res, w') \<and>
     {v. in_group (wdb w') g v} = {7, 9} \<and> set (fst (smembers_group ref_exec (w_redis w') g)) = {7, 9}"
proof -
  have g: "snowflake_id 1001 1 0 \<noteq> 5" by (simp add: snowflake_id_def)
  obtain d ts where d: "create_group_txn (snowflake_id 1001 1 0) ''h'' 7 [9] demo_db = Inr (ts, d)" "ascii ts"
    using g by (simp add: create_group_txn_def txn_bind_def txn_return_def insert_group_def insert_group_member_def
        insert_group_member_if_absent_def has_group_def has_user_def in_group_def demo_db_def demo_user_def string_of_int_def)
  have "runs (post_groups group_env (group_request ''create'') Map.empty demo_world) (\<lambda>res w'. re_status res = 201)"
    unfolding post_groups_def
    apply (rule runs_user, simp)
    apply (simp add: group_eval requested_members_def)
    apply (rule runs_snowflake, simp add: demo_next)
    apply (rule runs_exec, simp, simp, simp, rule d(1))
    apply (rule runs_answer, simp add: ref_dump d(2), simp)
    done
  then obtain res w' where r: "post_groups group_env (group_request ''create'') Map.empty demo_world = Some (Some res, w')"
    "re_status res = 201" by (rule runsE) auto
  obtain g where "{v. in_group (wdb w') g v} = {7, 9}" "set (fst (smembers_group ref_exec (w_redis w') g)) = {7, 9}"
    using group_created [where body = "the (group_parse ''create'')" and ids = "[9]" and u = 7,
        OF _ _ _ _ r, of rs_up ref_content ref_ttl ref_pass] ref_redis.redis_server_axioms demo_db_ok
    by (auto simp: group_eval requested_members_def caller_def world_db_ok_def rstore_empty_def ref_content_def ref_live_def)
  with r show ?thesis by blast
qed

text \<open>C32. A member is added to a group whose set is not in Redis: afterwards the set holds only the new member, and since a
  set that is not empty is not looked up in PostgreSQL, group messages reach nobody else.\<close>

theorem cache_hides_members:
  assumes "redis_server (e_rx E) up content ttl pass" "up (w_redis w)"
    and "path_id ps ''id'' = Some g" "content (w_redis w) (group_key g) = None"
    and "post_group_members E req ps w = Some (Some res, w')" "re_status res = 201"
    and "jl_parse (e_json E) (rq_body req) = Some body" "jl_value_str (e_json E) body ''user_id'' [] = Some s" "from_chars_u64 s = Some v"
  shows "\<exists>w''. in_group (wdb w') g v \<and> resolve_members E g w' = Some ([v], w'') \<and>
    (\<forall>u. in_group (wdb w) g u \<longrightarrow> in_group (wdb w') g u)"
proof -
  have c: "insert_group_member_if_absent g v (wdb w) = Inr ((), wdb w')"
    "w_redis w' = sadd_group_member (e_rx E) (w_redis w) g v"
    by (rule post_group_members_201 [OF assms(5,6)], use assms(3,7,8,9) in auto)+
  have "set_at (content (w_redis w)) (group_key g) = Some {}" "members_view {} {}"
    using assms(4) by (simp_all add: set_at_def members_view_def)
  then have "distinct (fst (smembers_group (e_rx E) (w_redis w') g))" "set (fst (smembers_group (e_rx E) (w_redis w') g)) = {v}"
    using redis_server.group_cache_law [OF assms(1,2), of g "{}" "{}" v] redis_server.sadd_members [OF assms(1,2), of g "{}" "{}" "[v]"]
      redis_server.smembers_group_members [OF assms(1), of "w_redis w'" g] unfolding c(2) by auto
  then have "fst (smembers_group (e_rx E) (w_redis w') g) = [v]"
    by (rule distinct_singleton)
  then have "\<exists>w''. resolve_members E g w' = Some ([v], w'')"
    by (simp add: resolve_members_def w_smembers_def split_beta)
  then show ?thesis using insert_member_if_absent_rows(1) [OF c(1)] by blast
qed

theorem cache_hides_members_witness:
  "\<exists>res w' w''. post_group_members group_env (group_request ''add'') [''id'' \<mapsto> ''5''] demo_world = Some (Some res, w') \<and>
     in_group (wdb w') 5 7 \<and> resolve_members group_env 5 w' = Some ([9], w'')"
proof -
  have i: "insert_group_member_if_absent 5 9 demo_db = Inr ((), demo_db)"
    by (simp add: insert_group_member_if_absent_def in_group_def demo_db_def)
  have "runs (post_group_members group_env (group_request ''add'') [''id'' \<mapsto> ''5''] demo_world)
      (\<lambda>res w'. re_status res = 201 \<and> in_group (wdb w') 5 7)"
    unfolding post_group_members_def with_admin_def
    apply (rule runs_user, simp)
    apply (simp add: group_eval)
    apply (rule runs_exec, simp, simp, simp, rule demo_role)
    apply simp
    apply (rule runs_exec, simp, simp, simp, rule i)
    apply (rule runs_try_answer, simp add: ref_dump, simp add: in_group_def demo_db_def)
    done
  then obtain res w' where r: "post_group_members group_env (group_request ''add'') [''id'' \<mapsto> ''5''] demo_world = Some (Some res, w')"
    "re_status res = 201" "in_group (wdb w') 5 7" by (rule runsE) auto
  have "\<exists>w''. resolve_members group_env 5 w' = Some ([9], w'')"
    using cache_hides_members [where body = "the (group_parse ''add'')" and s = "''9''" and v = 9 and g = 5,
        OF _ _ _ _ r(1,2), of rs_up ref_content ref_ttl ref_pass] ref_redis.redis_server_axioms
    by (simp add: group_eval path_id_def rstore_empty_def ref_content_def ref_live_def)
  with r show ?thesis by blast
qed

end
