(* ===== verification/Http_Conversations.thy ===== *)
theory Http_Conversations
  imports Http_Server
begin

text \<open>
  \<open>src/server/src/http/ConversationsHandler.cpp\<close>: creating a conversation, the list of a user's conversations and
  groups with the unread counters, and the pages of a conversation's history.
\<close>

section \<open>Query strings\<close>

text \<open>The loop over the pairs of the query string; \<open>emplace\<close> keeps the first value of a key.\<close>

function parse_query_loop :: "string \<Rightarrow> (string \<rightharpoonup> string) \<Rightarrow> (string \<rightharpoonup> string)" where
  "parse_query_loop qs result =
     (if qs = [] then result
      else let amp = find_index (\<lambda>c. c = CHR ''&'') qs;
               pair = (case amp of None \<Rightarrow> qs | Some a \<Rightarrow> take a qs);
               result = (case find_index (\<lambda>c. c = CHR ''='') pair of
                    None \<Rightarrow> result
                  | Some eq \<Rightarrow> if result (take eq pair) = None then result(take eq pair \<mapsto> drop (eq + 1) pair) else result)
           in case amp of None \<Rightarrow> result | Some a \<Rightarrow> parse_query_loop (drop (a + 1) qs) result)"
  by pat_completeness auto

termination
  by (relation "measure (\<lambda>(qs, _). length qs)") auto

declare parse_query_loop.simps [simp del]

definition parse_query :: "string \<Rightarrow> (string \<rightharpoonup> string)" where
  "parse_query target =
     (case find_index (\<lambda>c. c = CHR ''?'') target of
        None \<Rightarrow> Map.empty
      | Some qpos \<Rightarrow> parse_query_loop (drop (qpos + 1) target) Map.empty)"

section \<open>Handlers\<close>

text \<open>The loop over \<open>member_ids\<close>; \<open>Inl\<close> is the text of the error.\<close>

fun collect_members :: "json list \<Rightarrow> string + u64 list" where
  "collect_members [] = Inr []"
| "collect_members (JStr id_str # js) =
     (case from_chars_u64 id_str of
        None \<Rightarrow> Inl ''invalid member_id''
      | Some mid \<Rightarrow> (case collect_members js of Inl e \<Rightarrow> Inl e | Inr ms \<Rightarrow> Inr (mid # ms)))"
| "collect_members (_ # js) = Inl ''member_ids must be strings''"

definition create_conversation ::
  "('r, 'c) env \<Rightarrow> Request \<Rightarrow> PathParams \<Rightarrow> ('r, 'c) world \<Rightarrow> ('r, 'c) reply" where
  "create_conversation E req params =
     with_user E req (\<lambda>creator_id.
     with_json E req (\<lambda>body.
       case jl_value_json (e_json E) body ''member_ids'' (JArr []) of
         None \<Rightarrow> throws
       | Some (JArr (j # js)) \<Rightarrow>
           (case collect_members (j # js) of
              Inl e \<Rightarrow> fail E 400 e
            | Inr ms \<Rightarrow>
                with_snowflake E (\<lambda>conv_id.
                with_exec E (create_conversation_txn conv_id (creator_id # ms)) NonRetryableWrite (db_error E) (\<lambda>created_at.
                  answer E 201 (JObj [(''conv_id'', JStr (to_string_u64 conv_id)), (''created_at'', JStr created_at)]))))
       | Some _ \<Rightarrow> fail E 400 ''member_ids must be a non-empty array''))"

text \<open>\<open>row[k].is_null() ? "" : row[k].as<std::string>()\<close>\<close>

definition text_or_empty :: "string option \<Rightarrow> json" where
  "text_or_empty v = JStr (case v of None \<Rightarrow> [] | Some s \<Rightarrow> s)"

fun conv_item_json :: "(u64 \<rightharpoonup> i64) \<Rightarrow> ConvItem \<Rightarrow> json" where
  "conv_item_json unread (DmItem i activity preview peer name bio avatar) =
     JObj [(''kind'', JStr ''dm''), (''id'', JStr (to_string_u64 i)), (''last_activity_at'', JStr activity),
       (''last_msg_preview'', text_or_empty preview),
       (''unread_count'', JInt (case unread i of None \<Rightarrow> 0 | Some n \<Rightarrow> sint n)),
       (''peer_id'', JStr (to_string_u64 peer)), (''peer_name'', JStr name), (''peer_bio'', text_or_empty bio),
       (''peer_avatar'', text_or_empty avatar)]"
| "conv_item_json unread (GroupItem i activity preview name avatar) =
     JObj [(''kind'', JStr ''group''), (''id'', JStr (to_string_u64 i)), (''last_activity_at'', JStr activity),
       (''last_msg_preview'', text_or_empty preview),
       (''unread_count'', JInt (case unread i of None \<Rightarrow> 0 | Some n \<Rightarrow> sint n)),
       (''group_name'', JStr name), (''group_avatar'', text_or_empty avatar)]"

definition list_conversations ::
  "('r, 'c) env \<Rightarrow> Request \<Rightarrow> PathParams \<Rightarrow> ('r, 'c) world \<Rightarrow> ('r, 'c) reply" where
  "list_conversations E req params =
     with_user E req (\<lambda>user_id.
     with_exec E (select_conversations user_id) ReadOnly (db_error E) (\<lambda>rows w.
       let (unread_map, r) = hgetall_unread (e_rx E) (w_redis w) user_id
       in try_answer E 200 (JArr (map (conv_item_json unread_map) rows)) (w\<lparr>w_redis := r\<rparr>)))"

text \<open>\<open>from_chars\<close> leaves its output alone when it fails.\<close>

definition query_before :: "(string \<rightharpoonup> string) \<Rightarrow> u64" where
  "query_before qparams =
     (case Option.bind (qparams ''before'') from_chars_u64 of None \<Rightarrow> 0x7FFFFFFFFFFFFFFF | Some b \<Rightarrow> b)"

definition query_limit :: "(string \<rightharpoonup> string) \<Rightarrow> u32" where
  "query_limit qparams =
     (case Option.bind (qparams ''limit'') from_chars_u32 of None \<Rightarrow> 50 | Some parsed \<Rightarrow> min (max parsed 1) 100)"

definition message_json :: "('r, 'c) env \<Rightarrow> ChatMessage \<Rightarrow> json" where
  "message_json E msg =
     JObj [(''msg_id'', JStr (to_string_u64 (cm_msg_id msg))), (''sender_id'', JStr (to_string_u64 (cm_sender_id msg))),
       (''recipient_id'', JStr (to_string_u64 (cm_recipient_id msg))), (''content_b64'', JStr (e_base64 E (cm_content msg))),
       (''msg_type'', JInt (sint (cm_type msg))), (''ts_ms'', JInt (sint (cm_timestamp_ms msg)))]"

definition get_messages ::
  "('r, 'c) env \<Rightarrow> Request \<Rightarrow> PathParams \<Rightarrow> ('r, 'c) world \<Rightarrow> ('r, 'c) reply" where
  "get_messages E req params =
     with_user E req (\<lambda>user_id.
       case params ''id'' of
         None \<Rightarrow> fail E 400 ''missing conv_id''
       | Some s \<Rightarrow>
           (case from_chars_u64 s of
              None \<Rightarrow> fail E 400 ''invalid conv_id''
            | Some conv_id \<Rightarrow>
                (let qparams = parse_query (rq_target req);
                     before = query_before qparams;
                     limit = query_limit qparams;
                     history = (\<lambda>w.
                       let (messages, ca) = select_history (e_cx E) conv_id before limit (w_cc w) (w_cass w)
                       in answer E 200 (JArr (map (message_json E) messages)) (w\<lparr>w_cass := ca\<rparr>))
                 in with_exec E (select_is_conv_member conv_id user_id) ReadOnly (db_error E) (\<lambda>dm.
                      if dm then history
                      else with_exec E (select_is_group_member conv_id user_id) ReadOnly (db_error E) (\<lambda>grp.
                        if grp then history else fail E 403 ''not a member of this conversation'')))))"

section \<open>Lemmas\<close>

lemma good_conversation_handlers [handler_intros]:
  "good E (create_conversation E req ps)" "good E (list_conversations E req ps)" "good E (get_messages E req ps)"
proof -
  show "good E (create_conversation E req ps)"
    unfolding create_conversation_def by (auto intro!: handler_intros split: option.splits json.splits list.splits sum.splits)
  show "good E (list_conversations E req ps)"
    unfolding list_conversations_def by (auto intro!: handler_intros eff_redis eff_refl simp: split_beta Let_def)
  show "good E (get_messages E req ps)"
    unfolding get_messages_def by (auto intro!: handler_intros eff_cass_state eff_refl simp: split_beta Let_def split: option.splits)
qed

lemma query_limit_bounds: "0 < sint (query_limit q)" "unat (query_limit q) \<le> 100"
proof -
  have b: "1 \<le> query_limit q" "query_limit q \<le> 100" by (simp_all add: query_limit_def split: option.splits)
  then have u: "1 \<le> unat (query_limit q)" "unat (query_limit q) \<le> 100" by (simp_all add: word_le_nat_alt)
  have n: "int (unat (query_limit q)) = uint (query_limit q)" by simp
  then have "1 \<le> uint (query_limit q)" "uint (query_limit q) \<le> 100" using u by linarith+
  then have "0 < sint (query_limit q)" by (simp add: sint_uint signed_take_bit_int_eq_self)
  with u show "0 < sint (query_limit q)" "unat (query_limit q) \<le> 100" by simp_all
qed

lemma get_messages_200:
  assumes "get_messages E req ps w = Some (Some res, w')" "re_status res = 200"
  obtains u c where "caller E req w = Some u" "path_id ps ''id'' = Some c"
    "(c, u) \<in> set (db_conv_members (wdb w)) \<or> in_group (wdb w) c u"
    "jl_dump (e_json E) (JArr (map (message_json E) (fst (select_history (e_cx E) c (query_before (parse_query (rq_target req)))
      (query_limit (parse_query (rq_target req))) (w_cc w) (w_cass w))))) = Some (re_body res)"
proof -
  have n: "w_cc (snd (w_now E w)) = w_cc w" "w_cass (snd (w_now E w)) = w_cass w" by (simp_all add: w_now_def)
  show thesis
    using assms that unfolding get_messages_def caller_def path_id_def
    by (auto elim!: handler_elims simp: Let_def split_beta n select_is_conv_member_def select_is_group_member_def query_def make_json_def
        split: option.splits if_splits)
qed

section \<open>Properties\<close>



end
