(* ===== verification/Http_Messages.thy ===== *)
theory Http_Messages
  imports Http_Conversations
begin

text \<open>
  \<open>src/server/src/http/MessagesHandler.cpp\<close>: deleting a message and telling the members, uploading a file to blob
  storage and redirecting to it.  The Azure SDK is a parameter (\<open>blob_lib\<close> of the environment).
\<close>

section \<open>Strings\<close>

text \<open>\<open>s.find(p, pos)\<close> and \<open>s.rfind(c)\<close>, with \<open>None\<close> for \<open>npos\<close>.\<close>

fun find_sub :: "string \<Rightarrow> string \<Rightarrow> nat option" where
  "find_sub p [] = (if p = [] then Some 0 else None)"
| "find_sub p (c # s) = (if take (length p) (c # s) = p then Some 0 else map_option Suc (find_sub p s))"

definition find_str :: "string \<Rightarrow> string \<Rightarrow> nat \<Rightarrow> nat option" where
  "find_str p s pos = (if pos \<le> length s then map_option ((+) pos) (find_sub p (drop pos s)) else None)"

definition rfind :: "char \<Rightarrow> string \<Rightarrow> nat option" where
  "rfind c s = map_option (\<lambda>i. length s - 1 - i) (find_index (\<lambda>x. x = c) (rev s))"

definition tolower :: "char \<Rightarrow> char" where
  "tolower c = (if 65 \<le> (of_char c :: nat) \<and> (of_char c :: nat) \<le> 90 then char_of ((of_char c :: nat) + 32) else c)"

function query_param_loop :: "string \<Rightarrow> string \<Rightarrow> string" where
  "query_param_loop qs key =
     (if qs = [] then []
      else let amp = find_index (\<lambda>c. c = CHR ''&'') qs;
               pair = (case amp of None \<Rightarrow> qs | Some a \<Rightarrow> take a qs);
               more = (case amp of None \<Rightarrow> [] | Some a \<Rightarrow> query_param_loop (drop (a + 1) qs) key)
           in case find_index (\<lambda>c. c = CHR ''='') pair of
                None \<Rightarrow> more
              | Some eq \<Rightarrow> if take eq pair = key then drop (eq + 1) pair else more)"
  by pat_completeness auto

termination
  by (relation "measure (\<lambda>(qs, _). length qs)") auto

declare query_param_loop.simps [simp del]

definition query_param :: "string \<Rightarrow> string \<Rightarrow> string" where
  "query_param target key =
     (case find_index (\<lambda>c. c = CHR ''?'') target of
        None \<Rightarrow> []
      | Some qpos \<Rightarrow> query_param_loop (drop (qpos + 1) target) key)"

definition generate_uuid :: "u32 \<Rightarrow> u32 \<Rightarrow> u32 \<Rightarrow> u32 \<Rightarrow> string" where
  "generate_uuid a b c d = hex_word 8 (unat a) @ hex_word 8 (unat b) @ hex_word 8 (unat c) @ hex_word 8 (unat d)"

definition content_type_for :: "string \<Rightarrow> string" where
  "content_type_for filename =
     (case rfind CHR ''.'' filename of
        None \<Rightarrow> ''application/octet-stream''
      | Some dot \<Rightarrow>
          (let ext = drop dot filename
           in if ext = ''.jpg'' \<or> ext = ''.jpeg'' then ''image/jpeg''
              else if ext = ''.png'' then ''image/png''
              else if ext = ''.gif'' then ''image/gif''
              else if ext = ''.pdf'' then ''application/pdf''
              else if ext = ''.txt'' then ''text/plain''
              else if ext = ''.json'' then ''application/json''
              else if ext = ''.mp4'' then ''video/mp4''
              else ''application/octet-stream''))"

definition extract_extension :: "string \<Rightarrow> string" where
  "extract_extension filename = (case rfind CHR ''.'' filename of None \<Rightarrow> [] | Some dot \<Rightarrow> drop dot filename)"

section \<open>The multipart parser\<close>

definition crlf :: string where "crlf = [CHR 0x0D, CHR 0x0A]"

text \<open>\<open>if (start < body.size() && body[start] == c) start++;\<close>\<close>

definition skip_char :: "char \<Rightarrow> string \<Rightarrow> nat \<Rightarrow> nat" where
  "skip_char c body start = (if start < length body \<and> body ! start = c then start + 1 else start)"

definition multipart_filename :: "string \<Rightarrow> string" where
  "multipart_filename headers_str =
     (case find_str (''filename='' @ [CHR 0x22]) (map tolower headers_str) 0 of
        None \<Rightarrow> []
      | Some fn_pos \<Rightarrow>
          (case find_char CHR 0x22 headers_str (fn_pos + 10) of
             None \<Rightarrow> []
           | Some fn_end \<Rightarrow> substr headers_str (fn_pos + 10) (fn_end - (fn_pos + 10))))"

definition parse_multipart :: "string \<Rightarrow> string \<Rightarrow> (string \<times> bytes) option" where
  "parse_multipart body boundary =
     (let delim = ''--'' @ boundary
      in case find_str delim body 0 of
           None \<Rightarrow> None
         | Some start \<Rightarrow>
             (let start = start + length delim;
                  start = skip_char (CHR 0x0D) body start;
                  start = skip_char (CHR 0x0A) body start
              in case find_str (crlf @ crlf) body start of
                   None \<Rightarrow> None
                 | Some headers_end \<Rightarrow>
                     (let headers_str = substr body start (headers_end - start);
                          filename = multipart_filename headers_str;
                          data_start = headers_end + 4;
                          data_end = (case find_str (crlf @ delim) body data_start of None \<Rightarrow> length body | Some e \<Rightarrow> e)
                      in Some (filename, bytes_of_chars (substr body data_start (data_end - data_start))))))"

section \<open>Handlers\<close>

text \<open>The loop that tells the members, the caller included.\<close>

definition notify_member :: "('r, 'c) env \<Rightarrow> bytes \<Rightarrow> ('r, 'c) world \<Rightarrow> u64 \<Rightarrow> ('r, 'c) world" where
  "notify_member E delivery w member_id =
     (case w_lookup w member_id of
        Some session \<Rightarrow> w_post session delivery w
      | None \<Rightarrow> w_lpush E member_id delivery w)"

definition delete_notice :: "u64 \<Rightarrow> u64 \<Rightarrow> u64 \<Rightarrow> i64 \<Rightarrow> OutboundMessage" where
  "delete_notice conv_id msg_id caller_id ts_ms = OutboundMessage_init
     \<lparr>om_conv_id := conv_id, om_msg_id := msg_id, om_sender_id := caller_id, om_recipient_id := 0,
      om_timestamp_ms := ts_ms, om_msg_type := MsgType_DELETE_NOTIFY, om_flags := 0\<rparr>"

definition delete_and_notify ::
  "('r, 'c) env \<Rightarrow> u64 \<Rightarrow> u64 \<Rightarrow> u64 \<Rightarrow> u64 list \<Rightarrow> ('r, 'c) world \<Rightarrow> ('r, 'c) reply" where
  "delete_and_notify E conv_id msg_id caller_id members w =
     (if caller_id \<notin> set members then fail E 403 ''not a member'' w
      else let w = w\<lparr>w_cass := delete_message (e_cx E) conv_id msg_id (w_cc w) (w_cass w)\<rparr>;
               (ts_ms, w) = w_now E w;
               delivery_bytes = serialize_delivery (delete_notice conv_id msg_id caller_id ts_ms)
           in Some (Some (empty_response 204), foldl (notify_member E delivery_bytes) w members))"

definition delete_message_route ::
  "('r, 'c) env \<Rightarrow> Request \<Rightarrow> PathParams \<Rightarrow> ('r, 'c) world \<Rightarrow> ('r, 'c) reply" where
  "delete_message_route E req params =
     with_user E req (\<lambda>caller_id.
     with_id E params ''msg_id'' ''invalid msg_id'' (\<lambda>msg_id.
       let conv_id_sv = query_param (rq_target req) ''conv_id''
       in if conv_id_sv = [] then fail E 400 ''conv_id required''
          else case from_chars_u64 conv_id_sv of
            None \<Rightarrow> fail E 400 ''invalid conv_id''
          | Some conv_id \<Rightarrow>
              with_exec E (select_conv_members conv_id) ReadOnly (db_error E) (\<lambda>members.
                if members = []
                then with_exec E (select_group_members conv_id) ReadOnly (db_error E)
                       (\<lambda>members. delete_and_notify E conv_id msg_id caller_id members)
                else delete_and_notify E conv_id msg_id caller_id members)))"

definition upload_boundary :: "string \<Rightarrow> string option" where
  "upload_boundary ct =
     (case find_str ''boundary='' ct 0 of
        None \<Rightarrow> None
      | Some pos \<Rightarrow>
          (let boundary = drop (pos + 9) ct;
               boundary = (if boundary \<noteq> [] \<and> hd boundary = CHR 0x22 then tl boundary else boundary);
               boundary = (if boundary \<noteq> [] \<and> last boundary = CHR 0x22 then butlast boundary else boundary)
           in Some boundary))"

definition blob_unconfigured :: "('r, 'c) env \<Rightarrow> bool" where
  "blob_unconfigured E \<longleftrightarrow> bl_account (e_blob E) = [] \<or> bl_key (e_blob E) = []"

text \<open>The upload itself, on the thread pool; \<open>w_uploads\<close> records the blobs that were stored.\<close>

definition blob_upload :: "('r, 'c) env \<Rightarrow> string \<Rightarrow> bytes \<Rightarrow> ('r, 'c) world \<Rightarrow> string \<times> ('r, 'c) world" where
  "blob_upload E out_name data w =
     (let err = bl_upload (e_blob E) (length (w_uploads w)) out_name (content_type_for out_name) data
      in (err, if err = [] then w\<lparr>w_uploads := w_uploads w @ [(out_name, content_type_for out_name, data)]\<rparr> else w))"

definition with_uuid ::
  "('r, 'c) env \<Rightarrow> (string \<Rightarrow> ('r, 'c) world \<Rightarrow> ('r, 'c) reply) \<Rightarrow> ('r, 'c) world \<Rightarrow> ('r, 'c) reply" where
  "with_uuid E k w =
     (let (a, w) = w_draw E w; (b, w) = w_draw E w; (c, w) = w_draw E w; (d, w) = w_draw E w
      in k (generate_uuid (ucast a) (ucast b) (ucast c) (ucast d)) w)"

definition post_upload ::
  "('r, 'c) env \<Rightarrow> Request \<Rightarrow> PathParams \<Rightarrow> ('r, 'c) world \<Rightarrow> ('r, 'c) reply" where
  "post_upload E req params =
     with_user E req (\<lambda>uid.
       if blob_unconfigured E then fail E 503 ''Azure Blob Storage not configured''
       else case upload_boundary (rq_content_type req) of
         None \<Rightarrow> fail E 400 ''missing boundary''
       | Some boundary \<Rightarrow>
           (case parse_multipart (rq_body req) boundary of
              None \<Rightarrow> fail E 400 ''failed to parse multipart''
            | Some (filename, file_data) \<Rightarrow>
                with_uuid E (\<lambda>uuid w.
                  let out_name = uuid @ extract_extension filename;
                      (upload_error, w) = blob_upload E out_name file_data w
                  in if upload_error \<noteq> [] then fail E 500 ''file upload error'' w
                     else answer E 200 (JObj [(''url'', JStr (''/files/'' @ out_name))]) w)))"

definition redirect :: "string \<Rightarrow> Response" where
  "redirect url = set_header ''Cache-Control'' ''no-store'' (set_header ''Location'' url (empty_response 302))"

text \<open>The time of expiry is in milliseconds; both \<open>catch\<close> blocks answer the same.\<close>

definition get_file ::
  "('r, 'c) env \<Rightarrow> Request \<Rightarrow> PathParams \<Rightarrow> ('r, 'c) world \<Rightarrow> ('r, 'c) reply" where
  "get_file E req params =
     with_user E req (\<lambda>uid.
       if blob_unconfigured E then fail E 503 ''Azure Blob Storage not configured''
       else case params ''uuid'' of
         None \<Rightarrow> throws
       | Some uuid \<Rightarrow>
           if CHR ''/'' \<in> set uuid \<or> CHR 0x5C \<in> set uuid \<or> find_str ''..'' uuid 0 \<noteq> None
           then fail E 400 ''invalid filename''
           else (\<lambda>w.
             let want_download = query_param (rq_target req) ''download'' \<noteq> [];
                 (now, w) = w_now E w;
                 expires = now + of_int (bl_sas_ttl_minutes (e_blob E) * 60000);
                 disposition = (if want_download then Some (''attachment; filename='' @ [CHR 0x22] @ uuid @ [CHR 0x22]) else None)
             in case bl_sas (e_blob E) (bl_container (e_blob E)) uuid expires disposition of
                  None \<Rightarrow> fail E 500 ''failed to generate file URL'' w
                | Some sasToken \<Rightarrow>
                    Some (Some (redirect (''https://'' @ bl_account (e_blob E) @ ''.blob.core.windows.net/'' @
                      bl_container (e_blob E) @ ''/'' @ uuid @ ''?'' @ sasToken)), w)))"

section \<open>Lemmas\<close>

lemma eff_notify: "effects E w v \<Longrightarrow> effects E w (foldl (notify_member E b) v ms)"
  by (induction ms arbitrary: v) (auto simp: notify_member_def intro!: eff_primitive split: option.splits)

lemma good_delete_and_notify [handler_intros]: "good E (delete_and_notify E c m u ms)"
proof -
  have "delete_and_notify E c m u ms = (if u \<notin> set ms then fail E 403 ''not a member''
      else (\<lambda>w. Some (Some (empty_response 204), foldl (notify_member E (serialize_delivery
        (delete_notice c m u (fst (w_now E (w\<lparr>w_cass := delete_message (e_cx E) c m (w_cc w) (w_cass w)\<rparr>))))))
        (snd (w_now E (w\<lparr>w_cass := delete_message (e_cx E) c m (w_cc w) (w_cass w)\<rparr>))) ms)))"
    by (simp add: fun_eq_iff delete_and_notify_def Let_def split_beta)
  then show ?thesis by (auto intro!: handler_intros eff_notify eff_primitive eff_cass_state eff_refl)
qed

lemma good_with_uuid [handler_intros]: "(\<And>s. good E (k s)) \<Longrightarrow> good E (with_uuid E k)"
proof -
  assume k: "\<And>s. good E (k s)"
  let ?g = "\<lambda>w. (generate_uuid (ucast (e_rng E (w_rng w))) (ucast (e_rng E (Suc (w_rng w)))) (ucast (e_rng E (Suc (Suc (w_rng w)))))
      (ucast (e_rng E (Suc (Suc (Suc (w_rng w)))))), w\<lparr>w_rng := Suc (Suc (Suc (Suc (w_rng w))))\<rparr>)"
  have "with_uuid E k = (\<lambda>w. k (fst (?g w)) (snd (?g w)))"
    by (simp add: fun_eq_iff with_uuid_def w_draw_def)
  then show ?thesis using k by (simp only:) (rule good_read, auto intro: eff_rng eff_refl)
qed

lemma good_message_handlers [handler_intros]:
  "good E (delete_message_route E req ps)" "good E (post_upload E req ps)" "good E (get_file E req ps)"
proof -
  show "good E (delete_message_route E req ps)"
    unfolding delete_message_route_def Let_def by (auto intro!: handler_intros split: option.splits)
  have u: "effects E w (snd (blob_upload E n d w))" for w n d
    by (auto simp: blob_upload_def Let_def intro: eff_uploads eff_refl)
  have "good E (\<lambda>w. case blob_upload E n d w of (err, w) \<Rightarrow> if err \<noteq> [] then fail E 500 ''file upload error'' w
      else answer E 200 j w)" for n d j
    using good_read [of E "blob_upload E n d" "\<lambda>err w. if err \<noteq> [] then fail E 500 ''file upload error'' w else answer E 200 j w"] u
    by (auto simp: split_beta intro: handler_intros)
  then show "good E (post_upload E req ps)"
    unfolding post_upload_def Let_def by (auto intro!: handler_intros split: option.splits prod.splits)
  have "good E (\<lambda>w. (\<lambda>now w. case f now of None \<Rightarrow> fail E 500 msg w | Some t \<Rightarrow> Some (Some (g t), w))
      (fst (w_now E w)) (snd (w_now E w)))" for f :: "i64 \<Rightarrow> string option" and g msg
    by (rule good_read) (auto intro!: handler_intros eff_primitive eff_refl)
  then have "good E (\<lambda>w. case w_now E w of (now, w) \<Rightarrow> (case f now of None \<Rightarrow> fail E 500 msg w | Some t \<Rightarrow> Some (Some (g t), w)))"
    for f :: "i64 \<Rightarrow> string option" and g msg by (simp add: split_beta)
  then show "good E (get_file E req ps)"
    unfolding get_file_def Let_def by (auto intro!: handler_intros split: option.splits)
qed

text \<open>The two readers of a query string agree.\<close>

lemma query_loops_agree:
  "(case parse_query_loop qs result key of None \<Rightarrow> [] | Some v \<Rightarrow> v) =
   (case result key of None \<Rightarrow> query_param_loop qs key | Some v \<Rightarrow> v)"
proof (induction qs result rule: parse_query_loop.induct)
  case (1 qs result)
  show ?case
  proof (cases "qs = []")
    case True
    have "query_param_loop [] key = []" "parse_query_loop [] result = result"
      by (subst query_param_loop.simps, simp) (subst parse_query_loop.simps, simp)
    with True show ?thesis by (simp split: option.split)
  next
    case False
    let ?amp = "find_index (\<lambda>c. c = CHR ''&'') qs"
    let ?pair = "case ?amp of None \<Rightarrow> qs | Some a \<Rightarrow> take a qs"
    let ?result = "case find_index (\<lambda>c. c = CHR ''='') ?pair of None \<Rightarrow> result
      | Some eq \<Rightarrow> if result (take eq ?pair) = None then result(take eq ?pair \<mapsto> drop (eq + 1) ?pair) else result"
    have p: "parse_query_loop qs result = (case ?amp of None \<Rightarrow> ?result | Some a \<Rightarrow> parse_query_loop (drop (a + 1) qs) ?result)"
      using False by (subst parse_query_loop.simps) (simp add: Let_def)
    have q: "query_param_loop qs key = (let more = (case ?amp of None \<Rightarrow> [] | Some a \<Rightarrow> query_param_loop (drop (a + 1) qs) key)
        in case find_index (\<lambda>c. c = CHR ''='') ?pair of None \<Rightarrow> more
           | Some eq \<Rightarrow> if take eq ?pair = key then drop (eq + 1) ?pair else more)"
      using False by (subst query_param_loop.simps) (simp add: Let_def)
    show ?thesis
    proof (cases ?amp)
      case None
      then show ?thesis unfolding p q by (auto simp: Let_def split: option.splits)
    next
      case (Some a)
      from 1 [OF False refl refl refl Some] show ?thesis
        unfolding p q by (auto simp: Let_def Some split: option.splits if_splits)
    qed
  qed
qed

text \<open>Who is told of a deletion.\<close>

lemma core_notify [simp]: "core (notify_member E b w u) = core w"
  by (simp add: notify_member_def split: option.splits)

lemma notify_redis:
  "w_redis (foldl (notify_member E b) w ms) =
     foldl (\<lambda>r m. lpush (e_rx E) r (offline_key m) b) (w_redis w) (filter (\<lambda>m. w_lookup w m = None) ms)"
proof (induction ms arbitrary: w)
  case (Cons m ms)
  have "w_redis (notify_member E b w m) = (if w_lookup w m = None then lpush (e_rx E) (w_redis w) (offline_key m) b else w_redis w)"
    by (simp add: notify_member_def split: option.splits)
  then show ?case
    using core_lookup [OF core_notify, of E b w m] by (simp add: Cons)
qed simp

lemma notify_mailbox:
  "mailbox (foldl (notify_member E b) w ms) s =
     mailbox w s @ replicate (length (filter (\<lambda>m. w_lookup w m = Some s) ms)) b"
proof (induction ms arbitrary: w)
  case (Cons m ms)
  have "mailbox (notify_member E b w m) s = mailbox w s @ (if w_lookup w m = Some s then [b] else [])"
    using w_lookup_alive [of w m] by (auto simp: notify_member_def w_alive_def split: option.splits)
  then show ?case
    using core_lookup [OF core_notify, of E b w m] by (simp add: Cons)
qed simp

lemma notify_same [simp]: "w_cass (foldl (notify_member E b) w ms) = w_cass w" "w_pg (foldl (notify_member E b) w ms) = w_pg w"
  by (induction ms arbitrary: w) (simp_all add: notify_member_def w_post_def w_lpush_def split: option.splits)

text \<open>The members that the route looks up: those of the conversation, or else those of the group.\<close>

definition conv_audience :: "Db \<Rightarrow> u64 \<Rightarrow> u64 list" where
  "conv_audience d c =
     (let ms = map snd (filter (\<lambda>(cv, u). cv = c) (db_conv_members d))
      in if ms = [] then map gm_user_id (filter (\<lambda>m. gm_group_id m = c) (db_group_members d)) else ms)"

lemma delete_and_notify_E [handler_elims]:
  assumes "delete_and_notify E c m u ms w = Some (Some res, w')"
  obtains "re_status res = 403" "w' = w"
  | "res = empty_response 204" "u \<in> set ms"
    "w' = foldl (notify_member E (serialize_delivery (delete_notice c m u (e_clk E (w_clk w)))))
       (w\<lparr>w_cass := delete_message (e_cx E) c m (w_cc w) (w_cass w), w_clk := Suc (w_clk w)\<rparr>) ms"
  using assms by (auto simp: delete_and_notify_def Let_def w_now_def elim!: fail_E split: if_splits)

lemma delete_message_route_204:
  assumes "delete_message_route E req ps w = Some (Some res, w')" "re_status res = 204"
  obtains u m c p where "caller E req w = Some u" "path_id ps ''msg_id'' = Some m"
    "from_chars_u64 (query_param (rq_target req) ''conv_id'') = Some c" "u \<in> set (conv_audience (wdb w) c)"
    "pg_db p = wdb w"
    "w' = foldl (notify_member E (serialize_delivery (delete_notice c m u (e_clk E (Suc (w_clk w))))))
       (w\<lparr>w_pg := p, w_cass := delete_message (e_cx E) c m (w_cc w) (w_cass w), w_clk := Suc (Suc (w_clk w))\<rparr>)
       (conv_audience (wdb w) c)"
  using assms unfolding delete_message_route_def caller_def path_id_def Let_def
  by (auto elim!: handler_elims simp: w_now_def select_conv_members_def select_group_members_def query_def conv_audience_def
      split: if_splits option.splits)

text \<open>Names of stored files.\<close>

lemma hex_word_digits: "set (hex_word k n) \<subseteq> hex_digit ` {..<16}"
  by (induction k arbitrary: n) auto

lemma generate_uuid_digits: "set (generate_uuid a b c d) \<subseteq> hex_digit ` {..<16}"
  using hex_word_digits by (auto simp: generate_uuid_def)

lemma hex_digit_plain: "n < 16 \<Longrightarrow> hex_digit n \<notin> {CHR ''/'', CHR 0x5C, CHR ''.''}"
  using nibble_hex_digit [of n] by (auto simp: nibble_def)

lemma find_index_Some: "find_index P s = Some i \<Longrightarrow> i < length s \<and> P (s ! i) \<and> (\<forall>c \<in> set (take i s). \<not> P c)"
  by (induction s arbitrary: i) (auto split: if_splits)

lemma rfind_last: "rfind c s = Some i \<Longrightarrow> i < length s \<and> s ! i = c \<and> c \<notin> set (drop (Suc i) s)"
proof -
  assume "rfind c s = Some i"
  then obtain k where k: "find_index (\<lambda>x. x = c) (rev s) = Some k" "i = length s - 1 - k" by (auto simp: rfind_def)
  from find_index_Some [OF k(1)] have f: "k < length s" "rev s ! k = c" "c \<notin> set (take k (rev s))" by auto
  have "drop (Suc i) s = drop (length s - k) s" using f(1) k(2) by (simp add: Suc_diff_Suc)
  then show ?thesis using f k(2) by (auto simp: rev_nth take_rev)
qed

lemma find_sub_no_dot: "CHR ''.'' \<notin> set t \<Longrightarrow> find_sub ''..'' t = None"
  by (induction t) auto

lemma find_sub_one_dot: "CHR ''.'' \<notin> set s \<Longrightarrow> CHR ''.'' \<notin> set t \<Longrightarrow> find_sub ''..'' (s @ CHR ''.'' # t) = None"
proof (induction s)
  case Nil
  then show ?case using find_sub_no_dot [of t] by (cases t) auto
next
  case (Cons c s)
  then show ?case by (auto)
qed
text \<open>Searching for a text that was put behind a part that does not contain it.\<close>

lemma find_sub_bound: "find_sub p s = Some n \<Longrightarrow> n + length p \<le> length s"
proof (induction s arbitrary: n)
  case (Cons c s)
  show ?case
  proof (cases "take (length p) (c # s) = p")
    case True
    then have "length p \<le> length (c # s)" by (metis length_take min.cobounded1)
    with True Cons.prems show ?thesis by simp
  next
    case False
    with Cons show ?thesis by auto
  qed
qed (simp split: if_splits)

lemma find_sub_extend: "find_sub p s = Some n \<Longrightarrow> find_sub p (s @ t) = Some n"
proof (induction s arbitrary: n)
  case (Cons c s)
  have "length p \<le> length (c # s)" using find_sub_bound [OF Cons.prems] by simp
  then have "take (length p) ((c # s) @ t) = take (length p) (c # s)" by (simp only: take_append) simp
  with Cons show ?case by (auto split: if_splits)
qed (cases t; simp split: if_splits)

lemma find_sub_here: "find_sub p (p @ t) = Some 0"
  using find_sub_extend [of p p 0 t] by (cases p) simp_all

lemma find_str_at:
  "find_sub p (s @ p) = Some (length s) \<Longrightarrow> find_str p (u @ s @ p @ t) (length u) = Some (length u + length s)"
  using find_sub_extend [of p "s @ p" "length s" t] by (simp add: find_str_def)

lemma find_char_at: "c \<notin> set s \<Longrightarrow> find_char c (u @ s @ c # t) (length u) = Some (length u + length s)"
  using find_index_append [of s "\<lambda>x. x = c" "c # t"] by (auto simp: find_char_def)

lemma length_crlf [simp]: "length crlf = 2"
  by (simp add: crlf_def)

lemma substr_at: "substr (u @ s @ t) (length u) (length u + length s - length u) = s"
  by (simp add: substr_def)

text \<open>The body that a client sends for one file.\<close>

definition multipart_body :: "string \<Rightarrow> string \<Rightarrow> string \<Rightarrow> string \<Rightarrow> string" where
  "multipart_body boundary headers contents rest =
     ''--'' @ boundary @ crlf @ headers @ (crlf @ crlf) @ contents @ (crlf @ ''--'' @ boundary) @ rest"

lemma skip_crlf: "skip_char (CHR 0x0A) (u @ crlf @ v) (skip_char (CHR 0x0D) (u @ crlf @ v) (length u)) = length (u @ crlf)"
  by (simp add: skip_char_def crlf_def nth_append)

lemma parse_multipart_body:
  assumes "find_sub (crlf @ crlf) (headers @ crlf @ crlf) = Some (length headers)"
    and "find_sub (crlf @ ''--'' @ boundary) (contents @ crlf @ ''--'' @ boundary) = Some (length contents)"
  shows "parse_multipart (multipart_body boundary headers contents rest) boundary =
    Some (multipart_filename headers, bytes_of_chars contents)"
proof -
  let ?d = "''--'' @ boundary" and ?r = "headers @ (crlf @ crlf) @ contents @ (crlf @ ''--'' @ boundary) @ rest"
  let ?b = "?d @ crlf @ ?r" and ?u = "(?d @ crlf) @ headers @ (crlf @ crlf)"
  have b: "multipart_body boundary headers contents rest = ?b" by (simp add: multipart_body_def)
  have 1: "find_str ?d ?b 0 = Some 0" by (simp only: find_str_def find_sub_here drop_0) simp
  have 2: "skip_char (CHR 0x0A) ?b (skip_char (CHR 0x0D) ?b (0 + length ?d)) = length (?d @ crlf)"
    using skip_crlf [of ?d ?r] by (simp only: add_0)
  have 3: "find_str (crlf @ crlf) ?b (length (?d @ crlf)) = Some (length (?d @ crlf) + length headers)"
    using find_str_at [OF assms(1), of "?d @ crlf" "contents @ (crlf @ ''--'' @ boundary) @ rest"] by simp
  have 4: "find_str (crlf @ ?d) ?b (length ?u) = Some (length ?u + length contents)"
    using find_str_at [OF assms(2), of ?u rest] by simp
  have 5: "length (?d @ crlf) + length headers + 4 = length ?u" by simp
  have 6: "substr ?b (length (?d @ crlf)) (length (?d @ crlf) + length headers - length (?d @ crlf)) = headers"
    using substr_at [of "?d @ crlf" headers] by (simp only: append_assoc)
  have 7: "substr ?b (length ?u) (length ?u + length contents - length ?u) = contents"
    using substr_at [of ?u contents] by (simp only: append_assoc)
  show ?thesis
    unfolding b parse_multipart_def Let_def 1 option.case 2 3 6 5 4 7 ..
qed

lemma multipart_filename_found:
  assumes "map tolower key = ''filename='' @ [CHR 0x22]"
    and "find_sub (map tolower key) (map tolower (pre @ key)) = Some (length pre)" and "CHR 0x22 \<notin> set fn"
  shows "multipart_filename (pre @ key @ fn @ CHR 0x22 # post) = fn"
proof -
  have k: "length key = 10" using arg_cong [OF assms(1), of length] by simp
  have 1: "find_str (map tolower key) (map tolower (pre @ key @ fn @ CHR 0x22 # post)) 0 = Some (length pre)"
    using find_str_at [of "map tolower key" "map tolower pre" "[]" "map tolower (fn @ CHR 0x22 # post)"] assms(2) by simp
  have 2: "find_char CHR 0x22 (pre @ key @ fn @ CHR 0x22 # post) (length pre + 10) = Some (length pre + 10 + length fn)"
    using find_char_at [OF assms(3), of "pre @ key" post] k by simp
  show ?thesis
    unfolding multipart_filename_def assms(1) [symmetric] 1 option.case 2
    using substr_at [of "pre @ key" fn "CHR 0x22 # post"] k by simp
qed

section \<open>Properties\<close>

text \<open>The two parsers of query strings, \<open>parse_query\<close> and \<open>query_param\<close>, agree on every target and key: the first value given for
  the key, and the empty text when there is none.\<close>

theorem query_parsers_agree:
  "query_param target key = (case parse_query target key of None \<Rightarrow> [] | Some v \<Rightarrow> v)"
proof (cases "find_index (\<lambda>c. c = CHR ''?'') target")
  case (Some q)
  then show ?thesis
    using query_loops_agree [of "drop (q + 1) target" Map.empty key] by (simp add: query_param_def parse_query_def)
qed (simp add: query_param_def parse_query_def)

text \<open>C34. Multipart bodies: from a body that a client builds for one file, the parser recovers the name and the bytes of the file,
  for every content in which the closing boundary does not occur.\<close>

theorem multipart_roundtrip:
  assumes "headers = pre @ key @ fn @ CHR 0x22 # post" and "map tolower key = ''filename='' @ [CHR 0x22]"
    and "find_sub (map tolower key) (map tolower (pre @ key)) = Some (length pre)" and "CHR 0x22 \<notin> set fn"
    and "find_sub (crlf @ crlf) (headers @ crlf @ crlf) = Some (length headers)"
    and "find_sub (crlf @ ''--'' @ boundary) (chars_of_bytes data @ crlf @ ''--'' @ boundary) = Some (length data)"
  shows "parse_multipart (multipart_body boundary headers (chars_of_bytes data) rest) boundary = Some (fn, data)"
proof -
  have "find_sub (crlf @ ''--'' @ boundary) (chars_of_bytes data @ crlf @ ''--'' @ boundary) = Some (length (chars_of_bytes data))"
    using assms(6) by (simp add: chars_of_bytes_def)
  then show ?thesis
    using parse_multipart_body [OF assms(5), of boundary "chars_of_bytes data" rest] multipart_filename_found [OF assms(2,3,4), of post]
    by (simp add: assms(1))
qed

theorem multipart_roundtrip_witness:
  "parse_multipart (multipart_body ''XX'' (''form-data; FileName='' @ [CHR 0x22] @ ''a.txt'' @ [CHR 0x22])
     (chars_of_bytes [104, 105, 13, 10]) ''--'') ''XX'' = Some (''a.txt'', [104, 105, 13, 10])"
proof (rule multipart_roundtrip [where pre = "''form-data; ''" and key = "''FileName='' @ [CHR 0x22]" and post = "[]"])
  show "map tolower (''FileName='' @ [CHR 0x22]) = ''filename='' @ [CHR 0x22]" by code_simp
  show "find_sub (map tolower (''FileName='' @ [CHR 0x22])) (map tolower (''form-data; '' @ ''FileName='' @ [CHR 0x22])) =
      Some (length ''form-data; '')" by code_simp
  show "find_sub (crlf @ crlf) ((''form-data; FileName='' @ [CHR 0x22] @ ''a.txt'' @ [CHR 0x22]) @ crlf @ crlf) =
      Some (length (''form-data; FileName='' @ [CHR 0x22] @ ''a.txt'' @ [CHR 0x22]))" by code_simp
  show "find_sub (crlf @ ''--'' @ ''XX'') (chars_of_bytes [104, 105, 13, 10] @ crlf @ ''--'' @ ''XX'') =
      Some (length [104, 105, 13, 10])" by code_simp
qed simp_all

text \<open>C23. Deleting a message: status 204 is only given to a member of the conversation or group (it need not be the sender);
  the message is gone from the history, and every member gets exactly one notice per membership, in its session when it is
  online and in its offline queue otherwise.\<close>

theorem message_deleted:
  assumes "cass_cluster (e_cx E) messages" and "delete_message_route E req ps w = Some (Some res, w')" "re_status res = 204"
    and "cc_delete_msg (w_cc w)" and "path_id ps ''msg_id'' = Some m"
      "from_chars_u64 (query_param (rq_target req) ''conv_id'') = Some c"
    and "e_cx E (w_cass w) (DELETE c m) = (Inr rows, ca)"
  shows "\<exists>u notice. caller E req w = Some u \<and> u \<in> set (conv_audience (wdb w) c) \<and>
    notice = serialize_delivery (delete_notice c m u (e_clk E (Suc (w_clk w)))) \<and>
    messages (w_cass w') = (messages (w_cass w))((c, m) := None) \<and>
    (\<forall>s. mailbox w' s = mailbox w s @ replicate (length (filter (\<lambda>v. w_lookup w v = Some s) (conv_audience (wdb w) c))) notice) \<and>
    w_redis w' = foldl (\<lambda>r v. lpush (e_rx E) r (offline_key v) notice) (w_redis w)
      (filter (\<lambda>v. w_lookup w v = None) (conv_audience (wdb w) c))"
proof -
  let ?n = "\<lambda>u. serialize_delivery (delete_notice c m u (e_clk E (Suc (w_clk w))))"
  obtain u p where u: "caller E req w = Some u" "u \<in> set (conv_audience (wdb w) c)" "pg_db p = wdb w"
    and w': "w' = foldl (notify_member E (?n u))
       (w\<lparr>w_pg := p, w_cass := delete_message (e_cx E) c m (w_cc w) (w_cass w), w_clk := Suc (Suc (w_clk w))\<rparr>)
       (conv_audience (wdb w) c)"
    by (rule delete_message_route_204 [OF assms(2,3)]) (use assms(5,6) in auto)
  let ?v = "w\<lparr>w_pg := p, w_cass := delete_message (e_cx E) c m (w_cc w) (w_cass w), w_clk := Suc (Suc (w_clk w))\<rparr>"
  have "core ?v = core w" by (simp add: core_def)
  then have same: "w_lookup ?v = w_lookup w" "mailbox ?v = mailbox w" "w_redis ?v = w_redis w"
    using core_lookup [of ?v w] mailbox_cong [of ?v w] by simp_all
  have "messages (delete_message (e_cx E) c m (w_cc w) (w_cass w)) = (messages (w_cass w))((c, m) := None)"
    using cass_cluster.delete_ok [OF assms(1,7)] assms(4,7) by (simp add: delete_message_def)
  with u(1,2) show ?thesis
    by (intro exI [of _ u] exI [of _ "?n u"]) (simp add: w' notify_mailbox notify_redis same)
qed

theorem message_deleted_witness:
  "\<exists>res w'. delete_message_route (http_env (\<lambda>_. None)) (demo_request Delete ''/messages/9?conv_id=5'' ''Bearer 7'' []) [''msg_id'' \<mapsto> ''9'']
      demo_world = Some (Some res, w') \<and> re_status res = 204 \<and> length (mailbox w' 2) = 1"
proof -
  let ?q = "demo_request Delete ''/messages/9?conv_id=5'' ''Bearer 7'' []" and ?E = "http_env (\<lambda>_. None)"
  have qp: "query_param ''/messages/9?conv_id=5'' ''conv_id'' = ''5''" by code_simp
  have a: "select_conv_members 5 demo_db = Inr ([], demo_db)" "select_group_members 5 demo_db = Inr ([7, 9, 12], demo_db)"
    "conv_audience demo_db 5 = [7, 9, 12]"
    by (simp_all add: select_conv_members_def select_group_members_def query_def conv_audience_def demo_db_def)
  have "runs (delete_message_route ?E ?q [''msg_id'' \<mapsto> ''9''] demo_world) (\<lambda>res w'. re_status res = 204)"
    unfolding delete_message_route_def
    apply (rule runs_user, simp)
    apply (simp add: with_id_def qp)
    apply (rule runs_exec, simp, simp, simp, rule a(1))
    apply simp
    apply (rule runs_exec, simp, simp, simp, rule a(2))
    apply (simp add: delete_and_notify_def Let_def split_beta runs_def)
    done
  then obtain res w' where r: "delete_message_route ?E ?q [''msg_id'' \<mapsto> ''9''] demo_world = Some (Some res, w')" "re_status res = 204"
    by (rule runsE) auto
  have c: "cass_cluster (e_cx ?E) ref_messages" by (simp add: http_env_def demo_env_def ref_cluster.cass_cluster_axioms)
  have "\<exists>rows ca. e_cx ?E (w_cass demo_world) (DELETE 5 9) = (Inr rows, ca)" "cc_delete_msg (w_cc demo_world)"
    by (simp_all add: http_env_def demo_env_def demo_world_def demo_client_def ref_cass_def)
  then have "length (mailbox w' 2) = 1"
    using message_deleted [OF c r, of 9 5] a(3) by (auto simp: path_id_def qp)
  with r show ?thesis by blast
qed

lemma extension_dots: "extract_extension fn = [] \<or> (\<exists>t. extract_extension fn = CHR ''.'' # t \<and> CHR ''.'' \<notin> set t)"
proof (cases "rfind CHR ''.'' fn")
  case (Some i)
  with rfind_last [OF this] Cons_nth_drop_Suc [of i fn] show ?thesis
    by (intro disjI2 exI [of _ "drop (Suc i) fn"]) (simp add: extract_extension_def)
qed (simp add: extract_extension_def)

lemma stored_name_accepted:
  assumes "CHR ''/'' \<notin> set (extract_extension fn)" "CHR 0x5C \<notin> set (extract_extension fn)"
    and "name = generate_uuid a b c d @ extract_extension fn"
  shows "CHR ''/'' \<notin> set name \<and> CHR 0x5C \<notin> set name \<and> find_str ''..'' name 0 = None"
proof -
  have u: "CHR ''/'' \<notin> set (generate_uuid a b c d)" "CHR 0x5C \<notin> set (generate_uuid a b c d)" "CHR ''.'' \<notin> set (generate_uuid a b c d)"
    using generate_uuid_digits [of a b c d] hex_digit_plain by fastforce+
  then have "find_sub ''..'' name = None"
    using extension_dots [of fn] find_sub_one_dot [OF u(3)] find_sub_no_dot [OF u(3)] by (auto simp: assms(3))
  with u assms show ?thesis by (simp add: find_str_def)
qed

lemma with_uuid_E [handler_elims]:
  assumes "with_uuid E k w = Some (Some res, w')"
  obtains a b c d n where "k (generate_uuid a b c d) (w\<lparr>w_rng := n\<rparr>) = Some (Some res, w')"
  using assms by (auto simp: with_uuid_def w_draw_def)

lemma post_upload_200:
  assumes "post_upload E req ps w = Some (Some res, w')" "re_status res = 200"
  obtains fn data boundary name a b c d where "upload_boundary (rq_content_type req) = Some boundary"
    "parse_multipart (rq_body req) boundary = Some (fn, data)" "name = generate_uuid a b c d @ extract_extension fn"
    "w_uploads w' = w_uploads w @ [(name, content_type_for name, data)]" "\<not> blob_unconfigured E"
    "jl_dump (e_json E) (JObj [(''url'', JStr (''/files/'' @ name))]) = Some (re_body res)"
proof -
  have n: "w_uploads (snd (w_now E w)) = w_uploads w" by (simp add: w_now_def)
  show thesis
    using assms that unfolding post_upload_def
    by (auto elim!: handler_elims simp: Let_def blob_upload_def n make_json_def split: if_splits option.splits)
qed

text \<open>Files: a successful upload stores exactly the bytes of the file part, under a new name with the extension of the file and
  the content type for it, and answers with the path of that name; when the extension has no slash and no backslash, the
  download route never refuses that name and redirects to the stored blob.\<close>

theorem upload_stored:
  assumes "post_upload E req ps w = Some (Some res, w')" "re_status res = 200"
  shows "\<exists>fn data boundary name. upload_boundary (rq_content_type req) = Some boundary \<and>
    parse_multipart (rq_body req) boundary = Some (fn, data) \<and>
    w_uploads w' = w_uploads w @ [(name, content_type_for name, data)] \<and>
    jl_dump (e_json E) (JObj [(''url'', JStr (''/files/'' @ name))]) = Some (re_body res) \<and>
    (CHR ''/'' \<notin> set (extract_extension fn) \<longrightarrow> CHR 0x5C \<notin> set (extract_extension fn) \<longrightarrow>
      (\<forall>req2 v res2 v'. get_file E req2 [''uuid'' \<mapsto> name] v = Some (Some res2, v') \<longrightarrow>
        re_status res2 \<in> {302, 403, 500} \<and>
        (re_status res2 = 302 \<longrightarrow> (\<exists>sig. res2 = redirect (''https://'' @ bl_account (e_blob E) @ ''.blob.core.windows.net/'' @
          bl_container (e_blob E) @ ''/'' @ name @ ''?'' @ sig)))))"
proof -
  obtain fn data boundary name a b c d where p: "upload_boundary (rq_content_type req) = Some boundary"
    "parse_multipart (rq_body req) boundary = Some (fn, data)"
    "w_uploads w' = w_uploads w @ [(name, content_type_for name, data)]"
    "jl_dump (e_json E) (JObj [(''url'', JStr (''/files/'' @ name))]) = Some (re_body res)"
    and n: "name = generate_uuid a b c d @ extract_extension fn" "\<not> blob_unconfigured E"
    by (rule post_upload_200 [OF assms])
  have "re_status res2 \<in> {302, 403, 500} \<and> (re_status res2 = 302 \<longrightarrow> (\<exists>sig. res2 = redirect (''https://'' @ bl_account (e_blob E) @
      ''.blob.core.windows.net/'' @ bl_container (e_blob E) @ ''/'' @ name @ ''?'' @ sig)))"
    if "CHR ''/'' \<notin> set (extract_extension fn)" "CHR 0x5C \<notin> set (extract_extension fn)"
      "get_file E req2 [''uuid'' \<mapsto> name] v = Some (Some res2, v')" for req2 v res2 v'
    using that(3) stored_name_accepted [OF that(1,2) n(1)] n(2) unfolding get_file_def
    by (auto elim!: handler_elims simp: Let_def w_now_def redirect_def set_header_def empty_response_def split: option.splits)
  with p show ?thesis by blast
qed

definition upload_request :: Request where
  "upload_request = (demo_request Post ''/upload'' ''Bearer 7''
     (multipart_body ''XX'' (''filename='' @ [CHR 0x22] @ ''a.txt'' @ [CHR 0x22]) ''hi'' ''--''))\<lparr>rq_content_type := ''boundary=XX''\<rparr>"

lemma upload_request_parsed:
  "upload_boundary (rq_content_type upload_request) = Some ''XX''"
  "parse_multipart (rq_body upload_request) ''XX'' = Some (''a.txt'', [104, 105])"
proof -
  show "upload_boundary (rq_content_type upload_request) = Some ''XX''" by (simp add: upload_request_def) code_simp
  have "multipart_filename (''filename='' @ [CHR 0x22] @ ''a.txt'' @ [CHR 0x22]) = ''a.txt''" "bytes_of_chars ''hi'' = [104, 105]"
    by code_simp+
  moreover have "find_sub (crlf @ crlf) ((''filename='' @ [CHR 0x22] @ ''a.txt'' @ [CHR 0x22]) @ crlf @ crlf) =
      Some (length (''filename='' @ [CHR 0x22] @ ''a.txt'' @ [CHR 0x22]))"
    "find_sub (crlf @ ''--'' @ ''XX'') (''hi'' @ crlf @ ''--'' @ ''XX'') = Some (length ''hi'')" by code_simp+
  ultimately show "parse_multipart (rq_body upload_request) ''XX'' = Some (''a.txt'', [104, 105])"
    using parse_multipart_body [of "''filename='' @ [CHR 0x22] @ ''a.txt'' @ [CHR 0x22]" "''XX''" "''hi''" "''--''"]
    by (simp add: upload_request_def)
qed

theorem upload_stored_witness:
  "\<exists>res w' name. post_upload (http_env (\<lambda>_. None)) upload_request Map.empty demo_world = Some (Some res, w') \<and>
     w_uploads w' = [(name, content_type_for name, [104, 105])]"
proof -
  let ?E = "http_env (\<lambda>_. None)"
  have b: "\<not> blob_unconfigured ?E" "bl_upload (e_blob ?E) n a c d = []" for n a c d
    by (simp_all add: blob_unconfigured_def http_env_def demo_env_def)
  have x: "extract_extension ''a.txt'' = ''.txt''" by code_simp
  have h: "ascii (generate_uuid i j k l)" for i j k l
    using generate_uuid_digits [of i j k l] by (auto simp: ascii_def hex_digit_def subset_iff)
  have "runs (post_upload ?E upload_request Map.empty demo_world) (\<lambda>res w'. re_status res = 200)"
    unfolding post_upload_def
    apply (rule runs_user, simp add: upload_request_def)
    apply (simp add: b upload_request_parsed with_uuid_def w_draw_def blob_upload_def Let_def x)
    apply (rule runs_answer, simp add: ref_dump h, simp)
    done
  then obtain res w' where r: "post_upload ?E upload_request Map.empty demo_world = Some (Some res, w')" "re_status res = 200"
    by (rule runsE) auto
  have "w_uploads demo_world = []" by (simp add: demo_world_def)
  with upload_stored [OF r] r show ?thesis by (auto simp: upload_request_parsed)
qed

end
