(* ===== verification/Http_Users.thy ===== *)
theory Http_Users
  imports Http_Messages
begin

text \<open>
  \<open>src/server/src/http/UsersHandler.cpp\<close>, \<open>src/server/src/http/ReceiptsHandler.cpp\<close>, \<open>src/server/src/push/PushHandler.cpp\<close>
  and \<open>src/server/src/push/PushService.cpp\<close>: profiles, search and presence of users, marking a conversation as
  read, and the tokens of devices.  The \<open>query_param\<close> of \<open>UsersHandler.cpp\<close> is the same code as that of
  \<open>MessagesHandler.cpp\<close>.
\<close>

section \<open>Users\<close>

definition search_limit :: "string \<Rightarrow> u32" where
  "search_limit limit_sv =
     (if limit_sv = [] then 10
      else case from_chars_u32 limit_sv of None \<Rightarrow> 10 | Some parsed \<Rightarrow> min (max parsed 1) 20)"

definition get_users_search ::
  "('r, 'c) env \<Rightarrow> Request \<Rightarrow> PathParams \<Rightarrow> ('r, 'c) world \<Rightarrow> ('r, 'c) reply" where
  "get_users_search E req params =
     with_user E req (\<lambda>uid.
       let target = rq_target req;
           q = query_param target ''q''
       in if length q < 2 then fail E 400 ''q must be at least 2 characters''
          else with_exec E (search_users q (unat (search_limit (query_param target ''limit'')))) ReadOnly (db_error E) (\<lambda>rows.
            try_answer E 200 (JObj [(''users'', JArr (map (\<lambda>(i, username).
              JObj [(''id'', JStr (to_string_i64 i)), (''username'', JStr username)]) rows))])))"

definition get_user ::
  "('r, 'c) env \<Rightarrow> Request \<Rightarrow> PathParams \<Rightarrow> ('r, 'c) world \<Rightarrow> ('r, 'c) reply" where
  "get_user E req params =
     with_id E params ''id'' ''invalid id'' (\<lambda>uid.
     with_exec E (select_profile uid) ReadOnly (db_error E) (\<lambda>rows.
       case rows of
         [] \<Rightarrow> fail E 404 ''user not found''
       | (i, username, bio, avatar_url) # _ \<Rightarrow>
           try_answer E 200 (JObj [(''id'', JStr (to_string_i64 i)), (''username'', JStr username),
             (''bio'', text_or_empty bio), (''avatar_url'', text_or_empty avatar_url)])))"

definition presence_json :: "u64 \<Rightarrow> string option \<Rightarrow> json \<Rightarrow> json" where
  "presence_json uid presence last_seen =
     (case presence of
        Some server_id \<Rightarrow>
          JObj [(''user_id'', JStr (to_string_u64 uid)), (''online'', JBool True), (''server_id'', JStr server_id), (''last_seen_at'', JNull)]
      | None \<Rightarrow>
          JObj [(''user_id'', JStr (to_string_u64 uid)), (''online'', JBool False), (''server_id'', JNull), (''last_seen_at'', last_seen)])"

definition last_seen_of_rows :: "i64 option list \<Rightarrow> json" where
  "last_seen_of_rows rows = (case rows of Some t # _ \<Rightarrow> JInt (sint t) | _ \<Rightarrow> JNull)"

text \<open>The branch for a user that is not online: Redis first, PostgreSQL when Redis has no value; a database error leaves
  \<open>null\<close>.\<close>

definition respond_presence :: "('r, 'c) env \<Rightarrow> u64 \<Rightarrow> string option \<Rightarrow> json \<Rightarrow> ('r, 'c) world \<Rightarrow> ('r, 'c) reply" where
  "respond_presence E uid presence last_seen = answer E 200 (presence_json uid presence last_seen)"

definition presence_offline :: "('r, 'c) env \<Rightarrow> u64 \<Rightarrow> ('r, 'c) world \<Rightarrow> ('r, 'c) reply" where
  "presence_offline E uid w =
     (let (ts_opt, r) = get_last_seen (e_rx E) (w_redis w) uid;
          w = w\<lparr>w_redis := r\<rparr>
      in case ts_opt of
           Some ts \<Rightarrow> respond_presence E uid None (JInt (sint ts)) w
         | None \<Rightarrow>
             with_exec E (select_last_seen uid) ReadOnly (respond_presence E uid None JNull)
               (\<lambda>rows. respond_presence E uid None (last_seen_of_rows rows)) w)"

definition presence_lookup :: "('r, 'c) env \<Rightarrow> u64 \<Rightarrow> ('r, 'c) world \<Rightarrow> ('r, 'c) reply" where
  "presence_lookup E uid w =
     (let (presence, r) = get_presence (e_rx E) (w_redis w) uid;
          w = w\<lparr>w_redis := r\<rparr>
      in case presence of
           Some server_id \<Rightarrow> respond_presence E uid (Some server_id) JNull w
         | None \<Rightarrow> presence_offline E uid w)"

definition get_user_presence ::
  "('r, 'c) env \<Rightarrow> Request \<Rightarrow> PathParams \<Rightarrow> ('r, 'c) world \<Rightarrow> ('r, 'c) reply" where
  "get_user_presence E req params =
     with_user E req (\<lambda>_. with_id E params ''id'' ''invalid id'' (presence_lookup E))"

text \<open>\<open>if (body.contains(key) && body[key].is_string())\<close>\<close>

definition optional_text :: "json_lib \<Rightarrow> json \<Rightarrow> string \<Rightarrow> string option" where
  "optional_text L body key =
     (if jl_contains L body key then (case jl_at L body key of JStr s \<Rightarrow> Some s | _ \<Rightarrow> None) else None)"

definition patch_user ::
  "('r, 'c) env \<Rightarrow> Request \<Rightarrow> PathParams \<Rightarrow> ('r, 'c) world \<Rightarrow> ('r, 'c) reply" where
  "patch_user E req params =
     with_user E req (\<lambda>caller_id.
     with_id E params ''id'' ''invalid id'' (\<lambda>uid.
       if uid \<noteq> caller_id then fail E 403 ''cannot modify another user''
       else with_json E req (\<lambda>body.
         with_exec E (update_profile uid (optional_text (e_json E) body ''bio'') (optional_text (e_json E) body ''avatar_url''))
           NonRetryableWrite (db_error E) (\<lambda>_ w. Some (Some (make_json 200 (''{'' @ [CHR 0x22] @ ''updated'' @ [CHR 0x22] @ '':true}'')), w)))))"

section \<open>Read receipts\<close>

definition read_notice :: "u64 \<Rightarrow> u64 \<Rightarrow> OutboundMessage" where
  "read_notice conv_id user_id = OutboundMessage_init
     \<lparr>om_msg_type := MsgType_READ, om_conv_id := conv_id, om_sender_id := user_id, om_recipient_id := conv_id\<rparr>"

definition ok_response :: Response where
  "ok_response = make_json 200 (''{'' @ [CHR 0x22] @ ''ok'' @ [CHR 0x22] @ '':true}'')"

definition relay_read ::
  "('r, 'c) env \<Rightarrow> u64 \<Rightarrow> u64 \<Rightarrow> u64 list \<Rightarrow> ('r, 'c) world \<Rightarrow> ('r, 'c) reply" where
  "relay_read E conv_id user_id other_members w =
     Some (Some ok_response,
       foldl (\<lambda>w m. post_if_online m (serialize_delivery (read_notice conv_id user_id)) w) w other_members)"

text \<open>Steps 4 to 6, for a member: the counter, the detached update, the other members.\<close>

definition read_and_relay :: "('r, 'c) env \<Rightarrow> u64 \<Rightarrow> u64 \<Rightarrow> ('r, 'c) world \<Rightarrow> ('r, 'c) reply" where
  "read_and_relay E conv_id user_id w =
     (let done = (\<lambda>w. Some (Some ok_response, w))
      in with_exec E (select_conv_members_except conv_id user_id) ReadOnly done (\<lambda>others.
           if others = []
           then with_exec E (select_group_members_except conv_id user_id) ReadOnly done (relay_read E conv_id user_id)
           else relay_read E conv_id user_id others)
         (w_spawn (Job_mark_read conv_id user_id) (w\<lparr>w_redis := hdel_unread (e_rx E) (w_redis w) user_id conv_id\<rparr>)))"

definition post_read ::
  "('r, 'c) env \<Rightarrow> Request \<Rightarrow> PathParams \<Rightarrow> ('r, 'c) world \<Rightarrow> ('r, 'c) reply" where
  "post_read E req params =
     with_user E req (\<lambda>user_id.
       case params ''id'' of
         None \<Rightarrow> fail E 400 ''missing conv_id''
       | Some s \<Rightarrow>
           (case from_chars_u64 s of
              None \<Rightarrow> fail E 400 ''invalid conv_id''
            | Some conv_id \<Rightarrow>
                with_exec E (select_is_conv_member conv_id user_id) ReadOnly (db_error E) (\<lambda>dm.
                  if dm then read_and_relay E conv_id user_id
                  else with_exec E (select_is_group_member conv_id user_id) ReadOnly (db_error E) (\<lambda>grp.
                    if grp then read_and_relay E conv_id user_id else fail E 403 ''not a member''))))"

section \<open>Push tokens\<close>

text \<open>An error of the database is logged and dropped.\<close>

definition register_token ::
  "('r, 'c) env \<Rightarrow> u64 \<Rightarrow> string \<Rightarrow> string \<Rightarrow> (('r, 'c) world \<Rightarrow> ('r, 'c) reply) \<Rightarrow> ('r, 'c) world \<Rightarrow> ('r, 'c) reply" where
  "register_token E user_id token platform k =
     with_exec E (upsert_device_token user_id token platform) NonRetryableWrite k (\<lambda>_. k)"

definition unregister_token ::
  "('r, 'c) env \<Rightarrow> u64 \<Rightarrow> string \<Rightarrow> (('r, 'c) world \<Rightarrow> ('r, 'c) reply) \<Rightarrow> ('r, 'c) world \<Rightarrow> ('r, 'c) reply" where
  "unregister_token E user_id token k =
     with_exec E (delete_device_token user_id token) NonRetryableWrite k (\<lambda>_. k)"

definition post_push_register ::
  "('r, 'c) env \<Rightarrow> Request \<Rightarrow> PathParams \<Rightarrow> ('r, 'c) world \<Rightarrow> ('r, 'c) reply" where
  "post_push_register E req params =
     with_user E req (\<lambda>user_id.
     with_json E req (\<lambda>body.
     with_str E body ''token'' (\<lambda>token.
     with_str E body ''platform'' (\<lambda>platform.
       if token = [] \<or> platform = [] then fail E 400 ''token and platform required''
       else register_token E user_id token platform (\<lambda>w. Some (Some ok_response, w))))))"

definition delete_push_register ::
  "('r, 'c) env \<Rightarrow> Request \<Rightarrow> PathParams \<Rightarrow> ('r, 'c) world \<Rightarrow> ('r, 'c) reply" where
  "delete_push_register E req params =
     with_user E req (\<lambda>user_id.
     with_json E req (\<lambda>body.
     with_str E body ''token'' (\<lambda>token.
       if token = [] then fail E 400 ''token required''
       else unregister_token E user_id token (\<lambda>w. Some (Some (make_json 204 []), w)))))"

section \<open>Lemmas\<close>

lemma eff_relay_read: "effects E w v \<Longrightarrow> effects E w (foldl (\<lambda>w m. post_if_online m b w) v ms)"
  by (induction ms arbitrary: v) (auto intro: eff_post_if_online)

lemma good_relay_read [handler_intros]: "good E (relay_read E c u ms)"
  unfolding relay_read_def by (auto intro!: handler_intros eff_relay_read eff_refl)

lemma good_redis_read:
  fixes E :: "('r, 'c) env"
  assumes "\<And>x. good E (k x)"
  shows "good E (\<lambda>w. case f (w_redis w) of (x, r) \<Rightarrow> k x (w\<lparr>w_redis := r\<rparr>))"
proof -
  have "good E (\<lambda>w. k (fst (fst (f (w_redis w)), w\<lparr>w_redis := snd (f (w_redis w))\<rparr>))
      (snd (fst (f (w_redis w)), w\<lparr>w_redis := snd (f (w_redis w))\<rparr>)))"
    by (rule good_read) (auto intro: assms eff_redis eff_refl)
  then show ?thesis by (simp add: split_beta)
qed

lemma good_presence [handler_intros]:
  "good E (respond_presence E u p j)" "good E (presence_offline E u)" "good E (presence_lookup E u)"
proof -
  show r: "good E (respond_presence E u p j)" for p j
    unfolding respond_presence_def by (auto intro: handler_intros)
  show f: "good E (presence_offline E u)"
    unfolding presence_offline_def Let_def by (rule good_redis_read) (auto intro!: handler_intros r split: option.splits)
  show "good E (presence_lookup E u)"
    unfolding presence_lookup_def Let_def by (rule good_redis_read) (auto intro!: handler_intros r f split: option.splits)
qed

lemma good_user_handlers [handler_intros]:
  "good E (get_users_search E req ps)" "good E (get_user E req ps)" "good E (get_user_presence E req ps)" "good E (patch_user E req ps)"
  unfolding get_users_search_def get_user_def patch_user_def get_user_presence_def Let_def
  by (auto intro!: handler_intros split: list.splits prod.splits)

lemma good_read_and_relay [handler_intros]: "good E (read_and_relay E c u)"
proof -
  let ?k = "with_exec E (select_conv_members_except c u) ReadOnly (\<lambda>w. Some (Some ok_response, w)) (\<lambda>others.
      if others = []
      then with_exec E (select_group_members_except c u) ReadOnly (\<lambda>w. Some (Some ok_response, w)) (relay_read E c u)
      else relay_read E c u others)"
  have "good E ?k" by (auto intro!: handler_intros)
  then have "good E (\<lambda>w. ?k (w_spawn (Job_mark_read c u) (w\<lparr>w_redis := hdel_unread (e_rx E) (w_redis w) u c\<rparr>)))"
    by (rule good_seq [rotated]) (auto intro!: eff_primitive eff_redis eff_refl)
  moreover have "read_and_relay E c u = (\<lambda>w. ?k (w_spawn (Job_mark_read c u) (w\<lparr>w_redis := hdel_unread (e_rx E) (w_redis w) u c\<rparr>)))"
    by (simp add: fun_eq_iff read_and_relay_def Let_def)
  ultimately show ?thesis by simp
qed

lemma good_post_read [handler_intros]: "good E (post_read E req ps)"
  unfolding post_read_def by (auto intro!: handler_intros split: option.splits)

lemma good_push [handler_intros]:
  "good E k \<Longrightarrow> good E (register_token E u t p k)" "good E k \<Longrightarrow> good E (unregister_token E u t k)"
  unfolding register_token_def unregister_token_def by (auto intro!: handler_intros)

lemma good_push_handlers [handler_intros]: "good E (post_push_register E req ps)" "good E (delete_push_register E req ps)"
  unfolding post_push_register_def delete_push_register_def by (auto intro!: handler_intros)

lemma ok_status [simp]: "re_status ok_response = 200"
  by (simp add: ok_response_def)

lemma patch_user_200:
  assumes "patch_user E req ps w = Some (Some res, w')" "re_status res = 200"
  obtains u body where "caller E req w = Some u" "path_id ps ''id'' = Some u" "jl_parse (e_json E) (rq_body req) = Some body"
    "update_profile u (optional_text (e_json E) body ''bio'') (optional_text (e_json E) body ''avatar_url'') (wdb w) = Inr ((), wdb w')"
  using assms unfolding patch_user_def caller_def path_id_def by (auto elim!: handler_elims split: if_splits)

lemma update_profile_rows:
  assumes "update_profile u bio av d = Inr ((), d')" "distinct (map us_id (db_users d))" "row \<in> set (db_users d)"
  shows "select_profile (us_id row) d' = Inr ([(us_id row, us_username row,
    if us_id row = u then coalesce bio (us_bio row) else us_bio row,
    if us_id row = u then coalesce av (us_avatar_url row) else us_avatar_url row)], d')"
proof -
  let ?f = "\<lambda>x. if us_id x = u then x\<lparr>us_bio := coalesce bio (us_bio x), us_avatar_url := coalesce av (us_avatar_url x)\<rparr> else x"
  have "db_users d' = map ?f (db_users d)" using assms(1) by (auto simp: update_profile_def split: if_splits)
  moreover have "filter (\<lambda>x. us_id x = us_id row) (map ?f xs) = [?f row]" if "distinct (map us_id xs)" "row \<in> set xs" for xs
    using that by (induction xs) (auto simp: filter_empty_conv image_iff)
  ultimately show ?thesis using assms(2,3) by (simp add: select_profile_def query_def)
qed

text \<open>Who hears that a conversation was read.\<close>

lemma relay_read_mailbox:
  "mailbox (foldl (\<lambda>w m. post_if_online m b w) w ms) s = mailbox w s @ replicate (length (filter (\<lambda>m. w_lookup w m = Some s) ms)) b"
proof (induction ms arbitrary: w)
  case (Cons m ms)
  have "mailbox (post_if_online m b w) s = mailbox w s @ (if w_lookup w m = Some s then [b] else [])"
    using w_lookup_alive [of w m] by (auto simp: post_if_online_def w_alive_def split: option.splits)
  then show ?case
    using core_lookup [OF core_post_if_online, of m b w] by (simp add: Cons)
qed simp

lemma relay_read_same [simp]:
  "w_redis (foldl (\<lambda>w m. post_if_online m b w) w ms) = w_redis w" "w_jobs (foldl (\<lambda>w m. post_if_online m b w) w ms) = w_jobs w"
  by (induction ms arbitrary: w) (simp_all add: post_if_online_def split: option.splits)

lemma relay_read_E [handler_elims]:
  assumes "relay_read E c u ms w = Some (Some res, w')"
  obtains "res = ok_response" "w_redis w' = w_redis w" "w_jobs w' = w_jobs w"
    "\<forall>s. mailbox w' s = mailbox w s @ replicate (length (filter (\<lambda>m. w_lookup w m = Some s) ms)) (serialize_delivery (read_notice c u))"
  using assms by (auto simp: relay_read_def relay_read_mailbox)

lemma lookup_fields [simp]:
  "w_lookup (w\<lparr>w_pg := p\<rparr>) = w_lookup w" "w_lookup (w\<lparr>w_redis := r\<rparr>) = w_lookup w"
  "mailbox (w\<lparr>w_pg := p\<rparr>) = mailbox w" "mailbox (w\<lparr>w_redis := r\<rparr>) = mailbox w"
  by (auto simp: w_lookup_def mailbox_def fun_eq_iff)

definition conv_others :: "Db \<Rightarrow> u64 \<Rightarrow> u64 \<Rightarrow> u64 list" where
  "conv_others d c u =
     (let ms = map snd (filter (\<lambda>(cv, v). cv = c \<and> v \<noteq> u) (db_conv_members d))
      in if ms = [] then map gm_user_id (filter (\<lambda>m. gm_group_id m = c \<and> gm_user_id m \<noteq> u) (db_group_members d)) else ms)"

lemma w_pg_spawn [simp]: "w_pg (w_spawn j w) = w_pg w"
  by (simp add: w_spawn_def)

lemma conv_others_rows:
  "select_conv_members_except c u d = Inr (x, d') \<Longrightarrow> d' = d \<and> (x \<noteq> [] \<longrightarrow> conv_others d c u = x) \<and>
     (x = [] \<longrightarrow> conv_others d c u = map gm_user_id (filter (\<lambda>m. gm_group_id m = c \<and> gm_user_id m \<noteq> u) (db_group_members d)))"
  "select_group_members_except c u d = Inr (y, d') \<Longrightarrow> d' = d \<and>
     y = map gm_user_id (filter (\<lambda>m. gm_group_id m = c \<and> gm_user_id m \<noteq> u) (db_group_members d))"
  by (auto simp: select_conv_members_except_def select_group_members_except_def query_def conv_others_def)

lemma read_and_relay_result:
  assumes "read_and_relay E c u w = Some (Some res, w')"
  shows "res = ok_response \<and> w_redis w' = hdel_unread (e_rx E) (w_redis w) u c \<and> w_jobs w' = w_jobs w @ [Job_mark_read c u] \<and>
    ((\<forall>s. mailbox w' s = mailbox w s) \<or> (\<forall>s. mailbox w' s = mailbox w s @
       replicate (length (filter (\<lambda>m. w_lookup w m = Some s) (conv_others (wdb w) c u))) (serialize_delivery (read_notice c u))))"
proof -
  let ?w = "w_spawn (Job_mark_read c u) (w\<lparr>w_redis := hdel_unread (e_rx E) (w_redis w) u c\<rparr>)"
  let ?n = "serialize_delivery (read_notice c u)"
  have relay: ?thesis if "relay_read E c u (conv_others (wdb w) c u) (?w\<lparr>w_pg := p\<rparr>) = Some (Some res, w')" for p
    using that by (auto simp: relay_read_def relay_read_mailbox)
  from assms show ?thesis unfolding read_and_relay_def Let_def
  proof (rule with_exec_E)
    fix p assume "Some (Some ok_response, ?w\<lparr>w_pg := p\<rparr>) = Some (Some res, w')"
    then show ?thesis by auto
  next
    fix x p
    assume x: "select_conv_members_except c u (wdb ?w) = Inr (x, pg_db p)"
      and k: "(if x = [] then with_exec E (select_group_members_except c u) ReadOnly (\<lambda>w. Some (Some ok_response, w)) (relay_read E c u)
        else relay_read E c u x) (?w\<lparr>w_pg := p\<rparr>) = Some (Some res, w')"
    show ?thesis
    proof (cases "x = []")
      case True
      from k [unfolded True if_P [OF refl]] show ?thesis
      proof (rule with_exec_E)
        fix q assume "Some (Some ok_response, ?w\<lparr>w_pg := p, w_pg := q\<rparr>) = Some (Some res, w')"
        then show ?thesis by auto
      next
        fix y q
        assume "select_group_members_except c u (wdb (?w\<lparr>w_pg := p\<rparr>)) = Inr (y, pg_db q)"
          "relay_read E c u y (?w\<lparr>w_pg := p, w_pg := q\<rparr>) = Some (Some res, w')"
        then show ?thesis using relay [of q] conv_others_rows(1) [OF x] conv_others_rows(2) True by fastforce
      qed
    next
      case False
      then show ?thesis using k relay [of p] conv_others_rows(1) [OF x] by simp
    qed
  qed
qed

lemma post_read_200:
  assumes "post_read E req ps w = Some (Some res, w')" "re_status res = 200"
  obtains u c p where "caller E req w = Some u" "path_id ps ''id'' = Some c"
    "(c, u) \<in> set (db_conv_members (wdb w)) \<or> in_group (wdb w) c u" "pg_db p = wdb w"
    "read_and_relay E c u ((snd (w_now E w))\<lparr>w_pg := p\<rparr>) = Some (Some res, w')"
  using assms unfolding post_read_def caller_def path_id_def
  by (auto elim!: handler_elims simp: select_is_conv_member_def select_is_group_member_def query_def split: if_splits option.splits)

lemma refused_platform:
  "upsert_device_token u token platform d = Inr (x, d') \<Longrightarrow> platform \<in> {''ios'', ''android'', ''web''}"
  unfolding upsert_device_token_def by (simp only: split: if_splits) simp_all

section \<open>Properties\<close>

text \<open>Profiles: a successful update is one of the caller's own profile; afterwards the profile shows the given texts, the
  texts that were not given stay as they were, and all other profiles are unchanged.\<close>

theorem profile_update:
  assumes "world_db_ok w" and "patch_user E req ps w = Some (Some res, w')" "re_status res = 200"
    and "jl_parse (e_json E) (rq_body req) = Some body" and "row \<in> set (db_users (wdb w))"
  shows "\<exists>u. caller E req w = Some u \<and> path_id ps ''id'' = Some u \<and>
    select_profile (us_id row) (wdb w') = Inr ([(us_id row, us_username row,
      if us_id row = u then coalesce (optional_text (e_json E) body ''bio'') (us_bio row) else us_bio row,
      if us_id row = u then coalesce (optional_text (e_json E) body ''avatar_url'') (us_avatar_url row) else us_avatar_url row)], wdb w')"
proof -
  obtain u where u: "caller E req w = Some u" "path_id ps ''id'' = Some u"
    "update_profile u (optional_text (e_json E) body ''bio'') (optional_text (e_json E) body ''avatar_url'') (wdb w) = Inr ((), wdb w')"
    by (rule patch_user_200 [OF assms(2,3)]) (use assms(4) in auto)
  have "distinct (map us_id (db_users (wdb w)))" using assms(1) by (simp add: world_db_ok_def db_ok_def users_ok_def)
  with update_profile_rows [OF u(3) this assms(5)] u show ?thesis by blast
qed



text \<open>Push tokens: an authenticated request with a token and a platform is always answered with 200, also when
  the database refuses the row, as it does for a platform other than \<open>ios\<close>, \<open>android\<close> and \<open>web\<close>.\<close>

theorem push_register_answer:
  assumes "post_push_register E req ps w = Some (Some res, w')" and "caller E req w = Some u"
    and "jl_parse (e_json E) (rq_body req) = Some body" "jl_value_str (e_json E) body ''token'' [] = Some token"
      "jl_value_str (e_json E) body ''platform'' [] = Some platform" "token \<noteq> []" "platform \<noteq> []"
  shows "re_status res = 200 \<and> (platform \<notin> {''ios'', ''android'', ''web''} \<longrightarrow> wdb w' = wdb w)"
proof -
  have st: "with_str E body ''token'' (\<lambda>token. with_str E body ''platform'' (\<lambda>platform.
      if token = [] \<or> platform = [] then fail E 400 ''token and platform required''
      else register_token E u token platform (\<lambda>w. Some (Some ok_response, w)))) (snd (w_now E w)) = Some (Some res, w')"
    using assms(1-3) by (simp add: post_push_register_def with_user_def w_now_def caller_def with_json_def)
  then have "with_exec E (upsert_device_token u token platform) NonRetryableWrite (\<lambda>w. Some (Some ok_response, w))
      (\<lambda>_ w. Some (Some ok_response, w)) (snd (w_now E w)) = Some (Some res, w')"
    using assms(4-7) by (simp add: with_str_def register_token_def)
  then show ?thesis
  proof (rule with_exec_E)
    fix p
    assume h: "Some (Some ok_response, snd (w_now E w)\<lparr>w_pg := p\<rparr>) = Some (Some res, w')"
      and q: "pg_db p = wdb (snd (w_now E w)) \<or>
        (\<exists>x. upsert_device_token u token platform (wdb (snd (w_now E w))) = Inr (x, pg_db p))"
    have w': "re_status res = 200" "wdb w' = pg_db p" using h by auto
    from q have "pg_db p = wdb w \<or> platform \<in> {''ios'', ''android'', ''web''}"
      using refused_platform by (elim disjE exE) (simp_all only: pg_primitive simp_thms)
    with w' show ?thesis by argo
  next
    fix x p
    assume x: "upsert_device_token u token platform (wdb (snd (w_now E w))) = Inr (x, pg_db p)"
      and h: "Some (Some ok_response, snd (w_now E w)\<lparr>w_pg := p\<rparr>) = Some (Some res, w')"
    have "re_status res = 200" using h by auto
    with refused_platform [OF x] show ?thesis by argo
  qed
qed

end
