(* ===== verification/Http_Routes.thy ===== *)
theory Http_Routes
  imports Http_Auth Http_Groups Http_Users
begin

text \<open>
  \<open>Server::register_routes\<close> (\<open>src/server/src/core/Server.cpp\<close>), the health and documentation routes, and the
  facts about the whole HTTP front end: the route table with \<open>HttpServer::handle_connection\<close>, the paths, the
  identifiers of requests and the headers.
\<close>

section \<open>Routes\<close>

definition get_health :: "('r, 'c) env \<Rightarrow> Request \<Rightarrow> PathParams \<Rightarrow> ('r, 'c) world \<Rightarrow> ('r, 'c) reply" where
  "get_health E req params w =
     Some (Some (make_json 200 (''{'' @ [CHR 0x22] @ ''status'' @ [CHR 0x22] @ '':'' @ [CHR 0x22] @ ''ok'' @ [CHR 0x22] @ ''}'')), w)"

text \<open>The separate endpoint of \<open>src/server/src/http/HealthHandler.cpp\<close>.\<close>

definition health_endpoint :: "Request \<Rightarrow> Response" where
  "health_endpoint req =
     (let q = [CHR 0x22]
      in if rq_method req = Get \<and> rq_target req = ''/health''
         then make_json 200 (''{'' @ q @ ''status'' @ q @ '':'' @ q @ ''ok'' @ q @ '', '' @ q @ ''health'' @ q @ '': '' @ q @ ''running'' @ q @ ''}'')
         else make_json 404 (''{'' @ q @ ''error'' @ q @ '':'' @ q @ ''not found'' @ q @ ''}''))"

text \<open>\<open>spec\<close> is the text of the file \<open>api/openapi.json\<close> and \<open>html\<close> that of the page.\<close>

definition get_openapi :: "string \<Rightarrow> ('r, 'c) env \<Rightarrow> Request \<Rightarrow> PathParams \<Rightarrow> ('r, 'c) world \<Rightarrow> ('r, 'c) reply" where
  "get_openapi spec E req params w =
     Some (Some \<lparr>re_status = 200,
       re_headers = [(''Content-Type'', ''application/json''), (''Access-Control-Allow-Origin'', ''*''),
         (''Access-Control-Allow-Methods'', ''GET, OPTIONS''), (''Access-Control-Allow-Headers'', ''Content-Type, Authorization'')],
       re_body = spec\<rparr>, w)"

definition get_docs :: "string \<Rightarrow> ('r, 'c) env \<Rightarrow> Request \<Rightarrow> PathParams \<Rightarrow> ('r, 'c) world \<Rightarrow> ('r, 'c) reply" where
  "get_docs html E req params w =
     Some (Some \<lparr>re_status = 200, re_headers = [(''Content-Type'', ''text/html; charset=utf-8'')], re_body = html\<rparr>, w)"

definition add_route ::
  "verb \<Rightarrow> string \<Rightarrow> (('r, 'c) env \<Rightarrow> Request \<Rightarrow> PathParams \<Rightarrow> ('r, 'c) world \<Rightarrow> ('r, 'c) reply) \<Rightarrow> ('r, 'c) Route" where
  "add_route meth path h = \<lparr>rt_method = meth, rt_path = path, rt_handler = h\<rparr>"

text \<open>\<open>ConversationsHandler::register_routes\<close>.\<close>

definition conversation_routes :: "('r, 'c) Route list" where
  "conversation_routes =
     [add_route Post ''/conversations'' create_conversation,
      add_route Get ''/conversations'' list_conversations,
      add_route Get ''/conversations/{id}/messages'' get_messages]"

definition routes :: "string \<Rightarrow> string \<Rightarrow> ('r, 'c) Route list" where
  "routes spec html =
     [add_route Get ''/health'' get_health,
      add_route Post ''/auth/register'' post_register,
      add_route Post ''/auth/login'' post_login,
      add_route Post ''/auth/logout'' post_logout,
      add_route Post ''/auth/refresh'' post_refresh] @
     conversation_routes @
     [add_route Post ''/groups'' post_groups,
      add_route Get ''/groups/{id}'' get_group,
      add_route Patch ''/groups/{id}'' patch_group,
      add_route Post ''/groups/{id}/members'' post_group_members,
      add_route Delete ''/groups/{id}/members/{uid}'' delete_group_member_route,
      add_route Delete ''/messages/{msg_id}'' delete_message_route,
      add_route Post ''/upload'' post_upload,
      add_route Get ''/files/{uuid}'' get_file,
      add_route Get ''/users/search'' get_users_search,
      add_route Get ''/users/{id}'' get_user,
      add_route Get ''/users/{id}/presence'' get_user_presence,
      add_route Patch ''/users/{id}'' patch_user,
      add_route Post ''/conversations/{id}/read'' post_read,
      add_route Post ''/push/register'' post_push_register,
      add_route Delete ''/push/register'' delete_push_register,
      add_route Get ''/openapi.json'' (get_openapi spec),
      add_route Get ''/docs'' (get_docs html)]"

section \<open>Every route\<close>

lemma add_route_simps [simp]:
  "rt_method (add_route m p h) = m" "rt_path (add_route m p h) = p" "rt_handler (add_route m p h) = h"
  by (simp_all add: add_route_def)

lemma good_static [handler_intros]:
  "good E (get_health E req ps)" "good E (get_openapi spec E req ps)" "good E (get_docs html E req ps)"
  by (auto simp: get_health_def get_openapi_def get_docs_def intro!: goodI eff_refl)

lemma good_route: "route \<in> set (routes spec html) \<Longrightarrow> good E (rt_handler route E req ps)"
  unfolding routes_def conversation_routes_def by (auto intro!: handler_intros)

lemma find_route_mem: "find_route rs m t = Some (route, ps) \<Longrightarrow> route \<in> set rs \<and> rt_method route = m \<and> match_path (rt_path route) t = Some ps"
  by (induction rs) (auto split: if_splits option.splits)

lemma good_dispatch:
  fixes E :: "('r, 'c) env"
  shows "good E (dispatch E (routes spec html) req)"
proof (cases "find_route (routes spec html :: ('r, 'c) Route list) (rq_method req) (rq_target req)")
  case None
  then show ?thesis by (simp add: dispatch_def good_simple)
next
  case (Some p)
  then obtain route ps where p: "find_route (routes spec html :: ('r, 'c) Route list) (rq_method req) (rq_target req) = Some (route, ps)"
    by (cases p) auto
  with find_route_mem [OF p] good_route [of route spec html E req ps] show ?thesis by (simp add: dispatch_def)
qed

definition after_ids :: "('r, 'c) env \<Rightarrow> ('r, 'c) world \<Rightarrow> ('r, 'c) world" where
  "after_ids E w = snd (w_draw E (snd (w_draw E w)))"

lemma handle_connection_cases:
  assumes "handle_connection E rs req w = Some (res, w')"
  obtains "w' = after_ids E w" | v where "dispatch E rs req (after_ids E w) = Some (None, v)" "w' = v"
  | r v where "dispatch E rs req (after_ids E w) = Some (Some r, v)" "w' = count_request (rq_method req) (re_status r) v"
      "res = Replied (cors (generate_uuid_v4 (fst (w_draw E w)) (fst (w_draw E (snd (w_draw E w))))) r)"
  using assms
  by (auto simp: handle_connection_def after_ids_def Let_def split_beta bind_eq_Some_conv split: if_splits option.splits)

lemma eff_handle_connection:
  assumes "handle_connection E (routes spec html) req w = Some (res, w')"
  shows "effects E w w'"
proof -
  have d: "effects E w (after_ids E w)" unfolding after_ids_def by (intro eff_primitive eff_refl)
  have c: "effects E w v" if "dispatch E (routes spec html) req (after_ids E w) = Some (r, v)" for r v
    using effects_trans [OF good_effects [OF good_dispatch that] d] .
  from assms show ?thesis
    by (cases rule: handle_connection_cases) (auto simp: count_request_def intro: eff_http c d)
qed

lemma handle_connection_returns:
  fixes E :: "('r, 'c) env"
  assumes "live w" "clock_moves (e_clk E)"
  obtains res w' where "handle_connection E (routes spec html) req w = Some (res, w')" "live w'"
proof -
  have l: "live (after_ids E w)"
    using effects_live [OF eff_primitive(9) [OF eff_primitive(9) [OF eff_refl]] assms(1)] by (simp add: after_ids_def)
  obtain r v where "dispatch E (routes spec html) req (after_ids E w) = Some (r, v)"
    using good_returns [OF good_dispatch l assms(2)] by blast
  then have "handle_connection E (routes spec html) req w \<noteq> None"
    by (auto simp: handle_connection_def Let_def split_beta after_ids_def)
  then obtain res w' where "handle_connection E (routes spec html) req w = Some (res, w')" by auto
  with effects_live [OF eff_handle_connection assms(1)] that show thesis by blast
qed

section \<open>Paths\<close>

text \<open>The usual splitting of a text at a delimiter, as the reference for \<open>split_path\<close>, which leaves out empty parts.\<close>

fun fields :: "char \<Rightarrow> string \<Rightarrow> string list" where
  "fields d [] = [[]]"
| "fields d (c # s) = (if c = d then [] # fields d s else (c # hd (fields d s)) # tl (fields d s))"

lemma fields_nonempty [simp]: "fields d s \<noteq> []"
  by (cases s) auto

lemma fields_plain: "d \<notin> set s \<Longrightarrow> fields d s = [s]"
  by (induction s) auto

lemma fields_append: "d \<notin> set p \<Longrightarrow> fields d (p @ d # s) = p # fields d s"
  by (induction p) auto

lemma find_index_None: "find_index P s = None \<longleftrightarrow> (\<forall>c \<in> set s. \<not> P c)"
  by (induction s) auto

lemma split_path_fields: "split_path s d = filter (\<lambda>p. p \<noteq> []) (fields d s)"
proof (induction s d rule: split_path.induct)
  case (1 s d)
  show ?case
  proof (cases "find_index (\<lambda>c. c = d) s")
    case None
    then have "d \<notin> set s" by (auto simp: find_index_None)
    with None show ?thesis by (subst split_path.simps) (auto simp: fields_plain)
  next
    case (Some pos)
    then have ne: "s \<noteq> []" by auto
    from find_index_Some [OF Some] have i: "pos < length s" "s ! pos = d" "d \<notin> set (take pos s)" by auto
    then have "s = take pos s @ d # drop (pos + 1) s" using id_take_nth_drop [of pos s] by simp
    then have "fields d s = take pos s # fields d (drop (pos + 1) s)" using fields_append [OF i(3)] by metis
    moreover have "split_path s d = (if pos > 0 then [take pos s] else []) @ split_path (drop (pos + 1) s) d"
      using Some ne by (subst split_path.simps) simp
    ultimately show ?thesis using 1 [OF ne Some] i(1) by auto
  qed
qed

definition path_of :: "string list \<Rightarrow> string" where
  "path_of parts = concat (map (\<lambda>p. CHR ''/'' # p) parts)"

definition part :: "string \<Rightarrow> bool" where
  "part p \<longleftrightarrow> p \<noteq> [] \<and> CHR ''/'' \<notin> set p \<and> CHR ''?'' \<notin> set p"

lemma path_of_Cons [simp]: "path_of [] = []" "path_of (p # ps) = CHR ''/'' # p @ path_of ps"
  by (simp_all add: path_of_def)

lemma fields_path: "CHR ''/'' \<notin> set p \<Longrightarrow> \<forall>p \<in> set ps. part p \<Longrightarrow> fields CHR ''/'' (p @ path_of ps) = p # ps"
proof (induction ps arbitrary: p)
  case (Cons q ps)
  have "fields CHR ''/'' (p @ CHR ''/'' # q @ path_of ps) = p # fields CHR ''/'' (q @ path_of ps)"
    by (rule fields_append [OF Cons.prems(1)])
  with Cons show ?case by (simp add: part_def)
qed (simp add: fields_plain)

lemma split_path_of: "\<forall>p \<in> set parts. part p \<Longrightarrow> split_path (path_of parts) CHR ''/'' = parts"
proof -
  assume p: "\<forall>p \<in> set parts. part p"
  have "filter (\<lambda>p. p \<noteq> []) parts = parts" using p by (auto simp: filter_id_conv part_def)
  with fields_path [of "[]" parts] p show ?thesis by (simp add: split_path_fields)
qed

lemma strip_query_path:
  assumes "\<forall>p \<in> set parts. part p" "qs = [] \<or> hd qs = CHR ''?''"
  shows "strip_query (path_of parts @ qs) = path_of parts"
proof -
  have "\<forall>c \<in> set (path_of parts). c \<noteq> CHR ''?''" using assms(1) by (auto simp: path_of_def part_def)
  then have "find_index (\<lambda>c. c = CHR ''?'') (path_of parts @ qs) = map_option ((+) (length (path_of parts))) (find_index (\<lambda>c. c = CHR ''?'') qs)"
    by (rule find_index_append)
  with assms(2) show ?thesis by (cases qs) (simp_all add: strip_query_def)
qed

lemma match_path_of:
  assumes "\<forall>p \<in> set pats. part p" "\<forall>t \<in> set ts. part t" "qs = [] \<or> hd qs = CHR ''?''"
  shows "match_path (path_of pats) (path_of ts @ qs) = (if length pats = length ts then match_parts (zip pats ts) Map.empty else None)"
  by (simp add: match_path_def strip_query_path [OF assms(2,3)] split_path_of [OF assms(1)] split_path_of [OF assms(2)] Let_def)

text \<open>A path whose parameters are filled in.\<close>

definition is_param :: "string \<Rightarrow> bool" where
  "is_param p \<longleftrightarrow> length p \<ge> 2 \<and> hd p = CHR ''{'' \<and> last p = CHR ''}''"

definition param_name :: "string \<Rightarrow> string" where
  "param_name p = substr p 1 (length p - 2)"

definition fill :: "(string \<Rightarrow> string) \<Rightarrow> string \<Rightarrow> string" where
  "fill f p = (if is_param p then f (param_name p) else p)"

definition params_of :: "string list \<Rightarrow> string set" where
  "params_of pats = param_name ` {p \<in> set pats. is_param p}"

lemma match_parts_Cons:
  "match_parts ((p, t) # rest) m =
     (if is_param p then match_parts rest (m(param_name p \<mapsto> t)) else if p \<noteq> t then None else match_parts rest m)"
  by (simp add: is_param_def param_name_def del: One_nat_def)

lemma match_parts_fill:
  "match_parts (zip pats (map (fill f) pats)) m = Some (\<lambda>n. if n \<in> params_of pats then Some (f n) else m n)"
  by (induction pats arbitrary: m) (auto simp: match_parts_Cons fill_def params_of_def fun_eq_iff simp del: match_parts.simps(2))

section \<open>Properties\<close>

text \<open>Every HTTP request is answered or its connection is dropped, after finitely many steps and with the server still live:
  it never touches the session registry, the gauges or the identity of a session, and it keeps the integrity constraints
  of the database.\<close>

theorem http_request_returns:
  fixes E :: "('r, 'c) env"
  assumes "live w" and "clock_moves (e_clk E)"
  shows "\<exists>res w'. handle_connection E (routes spec html) req w = Some (res, w') \<and> live w' \<and> core w' = core w \<and>
    (world_db_ok w \<longrightarrow> world_db_ok w')"
proof -
  obtain res w' where r: "handle_connection E (routes spec html) req w = Some (res, w')" "live w'"
    using assms by (rule handle_connection_returns)
  with effects_core [OF eff_handle_connection [OF r(1)]] effects_db_ok [OF eff_handle_connection [OF r(1)]] show ?thesis by blast
qed

theorem http_request_returns_witness:
  "\<exists>res w'. handle_connection (http_env (\<lambda>_. None)) (routes ''{}'' []) (demo_request Get ''/users/7'' [] []) demo_world = Some (res, w') \<and>
     world_db_ok w'"
  using http_request_returns [of demo_world "http_env (\<lambda>_. None)" "''{}''" "[]" "demo_request Get ''/users/7'' [] []"] demo_live demo_db_ok
  by (auto simp: world_db_ok_def)

text \<open>Paths: a pattern whose parameters are filled with texts that are not empty and contain no slash and no question mark matches the
  resulting path, with or without a query string, and gives every parameter its text; \<open>split_path\<close> is the usual
  splitting without the empty parts.\<close>

theorem match_path_roundtrip:
  assumes "\<forall>p \<in> set pats. part p" and "\<forall>n \<in> params_of pats. part (f n)" and "qs = [] \<or> hd qs = CHR ''?''"
  shows "match_path (path_of pats) (path_of (map (fill f) pats) @ qs) = Some (\<lambda>n. if n \<in> params_of pats then Some (f n) else None) \<and>
    split_path s d = filter (\<lambda>p. p \<noteq> []) (fields d s)"
proof -
  have "\<forall>t \<in> set (map (fill f) pats). part t" using assms(1,2) by (auto simp: fill_def params_of_def)
  then show ?thesis
    using match_path_of [OF assms(1) _ assms(3)] match_parts_fill [of pats f Map.empty] split_path_fields [of s d] by simp
qed

theorem match_path_roundtrip_witness:
  "match_path (path_of [''groups'', ''{id}'']) (path_of (map (fill (\<lambda>_. ''5'')) [''groups'', ''{id}'']) @ ''?x'') =
    Some (\<lambda>n. if n \<in> params_of [''groups'', ''{id}''] then Some ''5'' else None)"
  using match_path_roundtrip [of "[''groups'', ''{id}'']" "\<lambda>_. ''5''" "''?x''"] by (simp add: part_def)

end
