(* ===== verification/System.thy ===== *)
theory System
  imports Ws_Session Http_Routes
begin

text \<open>
  The running server as a transition system on worlds.  An \<open>action\<close> is one handler as a whole (the theory
  \<open>Interleaving\<close> takes the sessions apart at their suspensions): a connection is accepted (\<open>src/server/src/tcp/TcpServer.cpp\<close>, the upgrade handler of
  \<open>src/server/src/core/Server.cpp\<close>), a session is authenticated, handles one frame or ends, a request is
  answered, a posted delivery is enqueued, one packet is written, a detached coroutine runs, a heartbeat
  expires, the last owner of a session disappears; or the environment changes: a peer closes its connection,
  Redis and Cassandra serve other clients, time passes in PostgreSQL.  The bytes that a client sends are
  arbitrary at every step, so every input of \<open>tcp_run\<close> and \<open>ws_run\<close> is covered.  A step is an action of a
  server that has not crashed.
\<close>

section \<open>Connections\<close>

text \<open>A new session object is no object that exists or that a weak pointer of the registry still names.\<close>

definition fresh_sid :: "('r, 'c) world \<Rightarrow> sid \<Rightarrow> bool" where
  "fresh_sid w s \<longleftrightarrow> w_sessions w s = None \<and> s \<notin> ran (w_registry w)"

definition new_session :: "('r, 'c) env \<Rightarrow> kind \<Rightarrow> sid \<Rightarrow> ('r, 'c) world \<Rightarrow> ('r, 'c) world" where
  "new_session E k s w =
     (let (t, w) = w_steady_now E w in w\<lparr>w_sessions := (w_sessions w)(s \<mapsto> session_init k t)\<rparr>)"

definition accept_tcp :: "('r, 'c) env \<Rightarrow> bool \<Rightarrow> sid \<Rightarrow> ('r, 'c) world \<Rightarrow> ('r, 'c) world" where
  "accept_tcp E handshake s w =
     (let w = w\<lparr>w_active_connections := w_active_connections w + 1\<rparr>
      in if \<not> handshake then w\<lparr>w_active_connections := w_active_connections w - 1\<rparr>
         else new_session E Tcp s w)"

text \<open>\<open>SessionBase::enqueue\<close>; an exception leaves the posted handler, \<open>io_context::run\<close> and \<open>main\<close>.\<close>

definition enqueue :: "('r, 'c) env \<Rightarrow> bytes \<Rightarrow> session \<Rightarrow> session option" where
  "enqueue E b ss = (case ss_kind ss of Tcp \<Rightarrow> Some (tcp_enqueue E b ss) | Ws \<Rightarrow> ws_enqueue E b ss)"

definition deliver :: "('r, 'c) env \<Rightarrow> sid \<Rightarrow> ('r, 'c) world \<Rightarrow> ('r, 'c) world" where
  "deliver E s w =
     (case w_sessions w s of
        None \<Rightarrow> w
      | Some ss \<Rightarrow>
          (case ss_mailbox ss of
             [] \<Rightarrow> w
           | b # rest \<Rightarrow>
               (case enqueue E b (ss\<lparr>ss_mailbox := rest\<rparr>) of
                  None \<Rightarrow> w\<lparr>w_crashed := True\<rparr>
                | Some ss' \<Rightarrow> w\<lparr>w_sessions := (w_sessions w)(s \<mapsto> ss')\<rparr>)))"

section \<open>Steps\<close>

inductive action :: "('r, 'c) env \<Rightarrow> string \<Rightarrow> string \<Rightarrow> ('r, 'c) world \<Rightarrow> ('r, 'c) world \<Rightarrow> bool" for E spec html where
  act_accept: "fresh_sid w s \<Longrightarrow> action E spec html w (accept_tcp E handshake s w)"
| act_request: "handle_connection E (routes spec html) req w = Some (res, w') \<Longrightarrow> res \<noteq> Upgraded \<Longrightarrow> action E spec html w w'"
| act_upgrade: "handle_connection E (routes spec html) req w = Some (Upgraded, w') \<Longrightarrow> fresh_sid w' s \<Longrightarrow>
    action E spec html w (new_session E Ws s w')"
| act_tcp_login: "w_sessions w s = Some ss \<Longrightarrow> ss_kind ss = Tcp \<Longrightarrow> ss_phase ss = Handshake \<Longrightarrow>
    tcp_auth E s input w = (Inr rest, w') \<Longrightarrow> action E spec html w w'"
| act_tcp_refuse: "w_sessions w s = Some ss \<Longrightarrow> ss_kind ss = Tcp \<Longrightarrow> ss_phase ss = Handshake \<Longrightarrow>
    tcp_auth E s input w = (Inl e, w') \<Longrightarrow> action E spec html w (leave E s e w')"
| act_tcp_frame: "w_sessions w s = Some ss \<Longrightarrow> ss_kind ss = Tcp \<Longrightarrow> ss_phase ss = Running \<Longrightarrow>
    tcp_frame E s (ss_user_id ss) input w = Some (Inr rest, w') \<Longrightarrow> action E spec html w w'"
| act_tcp_end: "w_sessions w s = Some ss \<Longrightarrow> ss_kind ss = Tcp \<Longrightarrow> ss_phase ss = Running \<Longrightarrow>
    tcp_frame E s (ss_user_id ss) input w = Some (Inl e, w') \<Longrightarrow> action E spec html w (leave E s e w')"
| act_ws_login: "w_sessions w s = Some ss \<Longrightarrow> ss_kind ss = Ws \<Longrightarrow> ss_phase ss = Handshake \<Longrightarrow>
    ws_auth E s text w = (Inr x, w') \<Longrightarrow> action E spec html w w'"
| act_ws_refuse: "w_sessions w s = Some ss \<Longrightarrow> ss_kind ss = Ws \<Longrightarrow> ss_phase ss = Handshake \<Longrightarrow>
    ws_auth E s text w = (Inl e, w') \<Longrightarrow> action E spec html w (leave E s e w')"
| act_ws_frame: "w_sessions w s = Some ss \<Longrightarrow> ss_kind ss = Ws \<Longrightarrow> ss_phase ss = Running \<Longrightarrow>
    ws_frame E s (ss_user_id ss) frame w = Some (True, w') \<Longrightarrow> action E spec html w w'"
| act_ws_fail: "w_sessions w s = Some ss \<Longrightarrow> ss_kind ss = Ws \<Longrightarrow> ss_phase ss = Running \<Longrightarrow>
    ws_frame E s (ss_user_id ss) frame w = Some (False, w') \<Longrightarrow> action E spec html w (leave E s RunThrow w')"
| act_ws_close: "w_sessions w s = Some ss \<Longrightarrow> ss_kind ss = Ws \<Longrightarrow> ss_phase ss \<noteq> Ended \<Longrightarrow>
    action E spec html w (leave E s RunThrow w)"
| act_deliver: "action E spec html w (deliver E s w)"
| act_write: "w_sessions w s = Some ss \<Longrightarrow> ss_writing ss \<Longrightarrow> action E spec html w (upd_session s do_write_step w)"
| act_job: "w_jobs w = js @ j # js' \<Longrightarrow> run_job E j (w\<lparr>w_jobs := js @ js'\<rparr>) = Some w' \<Longrightarrow> action E spec html w w'"
| act_heartbeat: "w_steady_now E w = (t, w') \<Longrightarrow> action E spec html w (upd_session s (heartbeat_expire t) w')"
| act_release: "w_sessions w s = Some ss \<Longrightarrow> ss_phase ss = Ended \<Longrightarrow> ss_mailbox ss = [] \<Longrightarrow> \<not> ss_writing ss \<Longrightarrow>
    ss_heartbeat ss = None \<Longrightarrow> action E spec html w (w\<lparr>w_sessions := (w_sessions w)(s := None)\<rparr>)"
| act_peer: "action E spec html w (upd_session s (\<lambda>ss. ss\<lparr>ss_open := False\<rparr>) w)"
| act_redis: "action E spec html w (w\<lparr>w_redis := r\<rparr>)"
| act_cassandra: "action E spec html w (w\<lparr>w_cass := c\<rparr>)"
| act_time: "action E spec html w (w\<lparr>w_pg := (w_pg w)\<lparr>pg_db := (pg_db (w_pg w))\<lparr>db_now := t\<rparr>\<rparr>\<rparr>)"

definition step :: "('r, 'c) env \<Rightarrow> string \<Rightarrow> string \<Rightarrow> ('r, 'c) world \<Rightarrow> ('r, 'c) world \<Rightarrow> bool" where
  "step E spec html w w' \<longleftrightarrow> \<not> w_crashed w \<and> action E spec html w w'"

definition reachable :: "('r, 'c) env \<Rightarrow> string \<Rightarrow> string \<Rightarrow> ('r, 'c) world \<Rightarrow> ('r, 'c) world \<Rightarrow> bool" where
  "reachable E spec html = rtranclp (step E spec html)"

text \<open>A server that has just been constructed.\<close>

definition starts :: "('r, 'c) world \<Rightarrow> bool" where
  "starts w \<longleftrightarrow> w_registry w = Map.empty \<and> w_sessions w = Map.empty \<and> w_jobs w = [] \<and> w_active_sessions w = 0 \<and>
     w_active_connections w = 0 \<and> \<not> w_crashed w \<and> live w \<and> world_db_ok w"

section \<open>The invariant\<close>

text \<open>On the part of the world that \<open>core\<close> keeps: \<open>i s\<close> is the kind, the user and the phase of session \<open>s\<close>.\<close>

type_synonym ident = "(kind \<times> u64 \<times> phase) option"

definition is_running :: "ident \<Rightarrow> bool" where
  "is_running i = (case i of Some (_, _, p) \<Rightarrow> p = Running | None \<Rightarrow> False)"

definition is_connected :: "ident \<Rightarrow> bool" where
  "is_connected i = (case i of Some (k, _, p) \<Rightarrow> p = Running \<or> k = Tcp \<and> p = Handshake | None \<Rightarrow> False)"

definition count :: "(ident \<Rightarrow> bool) \<Rightarrow> (sid \<Rightarrow> ident) \<Rightarrow> int" where
  "count P i = int (card {s. P (i s)})"

definition reg_ok :: "SessionRegistry \<Rightarrow> (sid \<Rightarrow> ident) \<Rightarrow> bool" where
  "reg_ok m i \<longleftrightarrow> (\<forall>u s k v p. m u = Some s \<longrightarrow> i s = Some (k, v, p) \<longrightarrow> v = u \<and> p \<noteq> Handshake)"

fun core_ok :: "SessionRegistry \<times> int \<times> int \<times> (sid \<Rightarrow> ident) \<Rightarrow> bool" where
  "core_ok (m, a, c, i) \<longleftrightarrow> finite (dom i) \<and> reg_ok m i \<and>
     (\<forall>s k v. i s = Some (k, v, Handshake) \<longrightarrow> v = 0) \<and>
     count is_running i \<le> a \<and> count is_connected i \<le> c"

definition sys_inv :: "('r, 'c) world \<Rightarrow> bool" where
  "sys_inv w \<longleftrightarrow> live w \<and> world_db_ok w \<and> core_ok (core w)"

lemma pred_simps [simp]:
  "is_running (Some (k, u, p)) \<longleftrightarrow> p = Running" "\<not> is_running None"
  "is_connected (Some (k, u, p)) \<longleftrightarrow> p = Running \<or> k = Tcp \<and> p = Handshake" "\<not> is_connected None"
  by (simp_all add: is_running_def is_connected_def)

lemma reg_okD: "reg_ok m i \<Longrightarrow> m u = Some s \<Longrightarrow> i s = Some (k, v, p) \<Longrightarrow> v = u \<and> p \<noteq> Handshake"
  by (auto simp: reg_ok_def)

lemma reg_okI: "(\<And>u s k v p. m u = Some s \<Longrightarrow> i s = Some (k, v, p) \<Longrightarrow> v = u \<and> p \<noteq> Handshake) \<Longrightarrow> reg_ok m i"
  by (auto simp: reg_ok_def)

lemma card_upd:
  assumes "finite A"
  shows "int (card (A - {s})) = int (card A) - (if s \<in> A then 1 else 0)"
    "int (card (insert s A)) = int (card A) + (if s \<in> A then 0 else 1)"
proof -
  have "s \<in> A \<Longrightarrow> card A > 0" using assms by (auto simp: card_gt_0_iff)
  then show "int (card (A - {s})) = int (card A) - (if s \<in> A then 1 else 0)" using assms by (auto simp: of_nat_diff Suc_leI)
  show "int (card (insert s A)) = int (card A) + (if s \<in> A then 0 else 1)" using assms by (simp add: card_insert_if)
qed

lemma count_upd:
  assumes "finite (dom i)" "\<not> P None"
  shows "count P (i(s := x)) = count P i - (if P (i s) then 1 else 0) + (if P x then 1 else 0)"
proof -
  let ?A = "{s. P (i s)}"
  have "?A \<subseteq> dom i"
  proof
    fix t assume "t \<in> ?A"
    with assms(2) show "t \<in> dom i" by (cases "i t") auto
  qed
  then have f: "finite ?A" using assms(1) finite_subset by blast
  have "{t. P ((i(s := x)) t)} = (if P x then insert s ?A else ?A - {s})" by auto
  then show ?thesis using card_upd [OF f, of s] by (simp add: count_def)
qed

lemma core_ok_new:
  assumes "core_ok (m, a, c, i)" "i s = None" "s \<notin> ran m"
  shows "core_ok (m, a, c + (if k = Tcp then 1 else 0), i(s \<mapsto> (k, 0, Handshake)))"
proof -
  have "reg_ok m (i(s \<mapsto> (k, 0, Handshake)))"
    using assms(1,3) by (intro reg_okI) (auto simp: ran_def dest: reg_okD split: if_splits)
  with assms show ?thesis by (simp add: count_upd)
qed

lemma core_ok_online:
  assumes "core_ok (m, a, c, i)" "i s = Some (k, v, Handshake)"
  shows "core_ok (m(u \<mapsto> s), a + 1, c + (if k = Tcp then 0 else 1), i(s \<mapsto> (k, u, Running)))"
proof -
  have "reg_ok (m(u \<mapsto> s)) (i(s \<mapsto> (k, u, Running)))"
    using assms by (intro reg_okI) (auto dest: reg_okD split: if_splits)
  with assms show ?thesis by (cases k) (simp_all add: count_upd)
qed

lemma core_ok_end:
  assumes "core_ok (m, a, c, i)" "i s = Some (k, u, p)"
  shows "core_ok (m, a, c, i(s \<mapsto> (k, u, Ended)))"
proof -
  have "reg_ok m (i(s \<mapsto> (k, u, Ended)))"
    using assms by (intro reg_okI) (auto dest: reg_okD split: if_splits)
  with assms show ?thesis by (simp add: count_upd)
qed

lemma registry_remove_le: "registry_remove al m u e v = Some s \<Longrightarrow> m v = Some s"
  by (auto simp: registry_remove_def split: option.splits if_splits)

lemma core_ok_cleanup:
  assumes "core_ok (m, a, c, i)" "i s = Some (k, u, Running)"
  shows "core_ok (registry_remove al m u (Some s), a - 1, c - 1, i(s \<mapsto> (k, u, Ended)))"
proof -
  have "reg_ok (registry_remove al m u (Some s)) (i(s \<mapsto> (k, u, Ended)))"
    using assms by (intro reg_okI) (auto dest!: registry_remove_le dest: reg_okD split: if_splits)
  with assms show ?thesis by (simp add: count_upd)
qed

lemma core_ok_release:
  assumes "core_ok (m, a, c, i)" "i s = Some (k, u, Ended)"
  shows "core_ok (m, a, c, i(s := None))"
proof -
  have "reg_ok m (i(s := None))"
    using assms by (intro reg_okI) (auto dest: reg_okD split: if_splits)
  with assms show ?thesis by (simp add: count_upd)
qed

section \<open>Every action keeps the invariant\<close>

lemma sys_inv_effects: "effects E w v \<Longrightarrow> sys_inv w \<Longrightarrow> sys_inv v"
  using effects_core [of E w v] effects_live [of E w v] effects_db_ok [of E w v] by (simp add: sys_inv_def)

lemma core_new_session:
  "core (new_session E k s w) = (w_registry w, w_active_sessions w, w_active_connections w,
     (snd (snd (snd (core w))))(s \<mapsto> (k, 0, Handshake)))"
  by (auto simp: new_session_def core_def w_steady_now_def session_init_def fun_eq_iff)

lemma world_db_ok_cong: "w_pg w' = w_pg w \<Longrightarrow> world_db_ok w' = world_db_ok w"
  by (simp add: world_db_ok_def)

lemma sys_inv_cong: "w_pg w' = w_pg w \<Longrightarrow> w_sf w' = w_sf w \<Longrightarrow> core_ok (core w') \<Longrightarrow> sys_inv w \<Longrightarrow> sys_inv w'"
  using live_cong world_db_ok_cong unfolding sys_inv_def by blast

lemma core_ident: "w_sessions w s = Some ss \<Longrightarrow> snd (snd (snd (core w))) s = Some (ss_kind ss, ss_user_id ss, ss_phase ss)"
  by (simp add: core_def)

lemma core_tuple: "core w = (w_registry w, w_active_sessions w, w_active_connections w, snd (snd (snd (core w))))"
  by (simp add: core_def)

lemma new_session_same: "w_pg (new_session E k s w) = w_pg w" "w_sf (new_session E k s w) = w_sf w"
  by (simp_all add: new_session_def w_steady_now_def)

lemma sys_inv_new_session:
  assumes "sys_inv w" "fresh_sid w s"
  shows "sys_inv (new_session E Ws s w)" "sys_inv (accept_tcp E h s w)"
proof -
  have i: "snd (snd (snd (core w))) s = None" using assms(2) by (simp add: core_def fresh_sid_def)
  have c: "core_ok (w_registry w, w_active_sessions w, w_active_connections w, snd (snd (snd (core w))))"
    using assms(1) core_tuple [of w] by (simp add: sys_inv_def)
  note n = core_ok_new [OF c i]
  have r: "s \<notin> ran (w_registry w)" using assms(2) by (simp add: fresh_sid_def)
  show "sys_inv (new_session E Ws s w)"
    by (rule sys_inv_cong [OF new_session_same _ assms(1)]) (use n [of Ws] r in \<open>simp add: core_new_session del: core_ok.simps\<close>)
  show "sys_inv (accept_tcp E h s w)"
  proof (cases h)
    case True
    let ?v = "w\<lparr>w_active_connections := w_active_connections w + 1\<rparr>"
    have "core (new_session E Tcp s ?v) = (w_registry w, w_active_sessions w, w_active_connections w + 1,
        (snd (snd (snd (core w))))(s \<mapsto> (Tcp, 0, Handshake)))"
      by (simp add: core_new_session) (simp add: core_def)
    with True n [of Tcp] r show ?thesis
      by (intro sys_inv_cong [OF _ _ _ assms(1)]) (simp_all add: accept_tcp_def new_session_same del: core_ok.simps)
  next
    case False
    then have "accept_tcp E h s w = w" by (simp add: accept_tcp_def Let_def)
    with assms show ?thesis by simp
  qed
qed

lemma core_enter_tuple: "core v = (m, a, c, i) \<Longrightarrow> core (enter p s v) = (m, a, c, i(s := map_option (\<lambda>(k, u, _). (k, u, p)) (i s)))"
proof -
  assume v: "core v = (m, a, c, i)"
  have "w_registry v = fst (core v)" "w_active_sessions v = fst (snd (core v))" "w_active_connections v = fst (snd (snd (core v)))"
    by (simp_all add: core_def)
  then show ?thesis unfolding core_enter by (simp add: v)
qed

text \<open>Going online, in both kinds of session, and leaving.\<close>

lemma core_running:
  assumes "w_sessions w s = Some ss" "core v = core (enter Running s (if ss_kind ss = Tcp then session_online E s u w else ws_online E s u w))"
  shows "core v = ((w_registry w)(u \<mapsto> s), w_active_sessions w + 1, w_active_connections w + (if ss_kind ss = Tcp then 0 else 1),
    (snd (snd (snd (core w))))(s \<mapsto> (ss_kind ss, u, Running)))"
proof -
  note i = core_ident [OF assms(1)]
  have "core (session_online E s u w) = ((w_registry w)(u \<mapsto> s), w_active_sessions w + 1, w_active_connections w,
      (snd (snd (snd (core w))))(s \<mapsto> (ss_kind ss, u, ss_phase ss)))"
    "core (ws_online E s u w) = ((w_registry w)(u \<mapsto> s), w_active_sessions w + 1, w_active_connections w + 1,
      (snd (snd (snd (core w))))(s \<mapsto> (ss_kind ss, u, ss_phase ss)))"
    using i by (simp_all add: core_session_online core_ws_online registry_insert_def)
  then show ?thesis unfolding assms(2) by (simp add: core_enter_tuple)
qed

lemma core_ok_running:
  assumes "core_ok (core w)" "w_sessions w s = Some ss" "ss_phase ss = Handshake"
    "core v = core (enter Running s (if ss_kind ss = Tcp then session_online E s u w else ws_online E s u w))"
  shows "core_ok (core v)"
proof -
  have c: "core_ok (w_registry w, w_active_sessions w, w_active_connections w, snd (snd (snd (core w))))"
    using assms(1) core_tuple [of w] by simp
  have i: "snd (snd (snd (core w))) s = Some (ss_kind ss, ss_user_id ss, Handshake)"
    using core_ident [OF assms(2)] assms(3) by simp
  show ?thesis unfolding core_running [OF assms(2,4)] by (rule core_ok_online [OF c i])
qed

lemma core_leave_enter: "core (leave E s e (enter p s w)) = core (leave E s e w)"
proof (cases "w_sessions w s")
  case None
  then show ?thesis
    by (cases e) (auto simp: core_def session_cleanup_def Let_def w_steady_now_def fun_eq_iff)
next
  case (Some ss)
  then have "w_sessions (enter p s w) s = Some (ss\<lparr>ss_phase := p\<rparr>)" by simp
  note a = core_leave [OF this, of E e] and b = core_leave [OF Some, of E e]
  have "snd (snd (snd (core (enter p s w)))) = (snd (snd (snd (core w))))(s \<mapsto> (ss_kind ss, ss_user_id ss, p))"
    using Some by (auto simp: core_def fun_eq_iff)
  then show ?thesis unfolding a b by simp
qed

lemma core_leave_cong: "core w' = core w \<Longrightarrow> core (leave E s e w') = core (leave E s e w)"
proof -
  assume c: "core w' = core w"
  show ?thesis
  proof (cases "w_sessions w s")
    case None
    then have "w_sessions w' s = None" using core_session [OF c, of s] by simp
    with None c show ?thesis
      by (cases e) (auto simp: core_def session_cleanup_def Let_def w_steady_now_def fun_eq_iff)
  next
    case (Some ss)
    then obtain ss' where s': "w_sessions w' s = Some ss'" "ss_kind ss' = ss_kind ss" "ss_user_id ss' = ss_user_id ss"
      using core_session [OF c, of s] by (cases "w_sessions w' s") auto
    show ?thesis unfolding core_leave [OF Some] core_leave [OF s'(1)]
      using c core_alive [OF c] s' by (simp add: core_def)
  qed
qed

lemma core_ok_leave:
  assumes "core_ok (core w)" "w_sessions w s = Some ss" "ss_phase ss \<noteq> Ended"
  shows "core_ok (core (leave E s e w))"
proof -
  have c: "core_ok (w_registry w, w_active_sessions w, w_active_connections w, snd (snd (snd (core w))))"
    using assms(1) core_tuple [of w] by simp
  note i = core_ident [OF assms(2)]
  show ?thesis
  proof (cases "e = RunThrow \<and> ss_user_id ss \<noteq> 0")
    case False
    then have "core (leave E s e w) = (w_registry w, w_active_sessions w, w_active_connections w,
        (snd (snd (snd (core w))))(s \<mapsto> (ss_kind ss, ss_user_id ss, Ended)))"
      unfolding core_leave [OF assms(2)] by auto
    with core_ok_end [OF c i] show ?thesis by (simp del: core_ok.simps)
  next
    case True
    have "ss_phase ss \<noteq> Handshake"
    proof
      assume "ss_phase ss = Handshake"
      with c i have "ss_user_id ss = 0" by auto
      with True show False by simp
    qed
    with assms(3) have p: "ss_phase ss = Running" by (cases "ss_phase ss") auto
    have "core (leave E s e w) = (registry_remove (w_alive w) (w_registry w) (ss_user_id ss) (Some s),
        w_active_sessions w - 1, w_active_connections w - 1, (snd (snd (snd (core w))))(s \<mapsto> (ss_kind ss, ss_user_id ss, Ended)))"
      using True unfolding core_leave [OF assms(2)] by auto
    with core_ok_cleanup [OF c i [unfolded p]] show ?thesis by (simp del: core_ok.simps)
  qed
qed

lemma leave_same: "w_pg (leave E s e w) = w_pg w" "w_sf (leave E s e w) = w_sf w"
  by (cases e; simp add: session_cleanup_def Let_def w_steady_now_def w_now_def w_spawn_def)+

lemma tcp_auth_same: "w_pg (snd (tcp_auth E s input w)) = w_pg w" "w_sf (snd (tcp_auth E s input w)) = w_sf w"
proof -
  have t: "w_pg (snd (tcp_write s h v)) = w_pg v" "w_sf (snd (tcp_write s h v)) = w_sf v" for h and v :: "('a, 'b) world"
    by (auto simp: tcp_write_def split: option.splits)
  show "w_pg (snd (tcp_auth E s input w)) = w_pg w" "w_sf (snd (tcp_auth E s input w)) = w_sf w"
    by (auto simp: tcp_auth_def session_online_def tcp_flush_offline_queue_def w_now_def w_steady_now_def Let_def split_beta t
        split: option.splits)
qed

text \<open>The end of a login, whatever its outcome, for both kinds: \<open>v\<close> is the world after \<open>tcp_auth\<close> or \<open>ws_auth\<close>.\<close>

lemma core_ok_refused:
  assumes "core_ok (core w)" "w_sessions w s = Some ss" "ss_phase ss = Handshake"
    "core v = core w \<or> (\<exists>u. core v = core (if ss_kind ss = Tcp then session_online E s u w else ws_online E s u w))"
  shows "core_ok (core (leave E s e v))"
  using assms(4)
proof
  assume "core v = core w"
  with core_ok_leave [OF assms(1,2)] assms(3) show ?thesis by (metis core_leave_cong phase.distinct(3))
next
  assume "\<exists>u. core v = core (if ss_kind ss = Tcp then session_online E s u w else ws_online E s u w)"
  then obtain u where u: "core v = core (if ss_kind ss = Tcp then session_online E s u w else ws_online E s u w)" by blast
  have r: "core_ok (core (enter Running s v))"
    by (rule core_ok_running [OF assms(1,2,3)]) (rule core_enter_cong [OF u])
  have "w_alive v s"
    using core_alive [OF u] assms(2)
    by (auto simp: w_alive_def ws_online_def session_online_def Let_def fun_eq_iff split: if_splits)
  then obtain vs where "w_sessions v s = Some vs" by (auto simp: w_alive_def)
  then have "core_ok (core (leave E s e (enter Running s v)))"
    by (intro core_ok_leave [OF r, of s "vs\<lparr>ss_phase := Running\<rparr>"]) simp_all
  then show ?thesis by (simp add: core_leave_enter del: core_ok.simps)
qed

lemma sys_inv_tcp_auth:
  assumes "sys_inv w" "w_sessions w s = Some ss" "ss_kind ss = Tcp" "ss_phase ss = Handshake" "tcp_auth E s input w = (r, v)"
  shows "r = Inr rest \<Longrightarrow> sys_inv v" "r = Inl e \<Longrightarrow> sys_inv (leave E s e v)"
proof -
  have c: "core_ok (core w)" using assms(1) by (simp add: sys_inv_def)
  have s: "w_pg v = w_pg w" "w_sf v = w_sf w" using tcp_auth_same [of E s input w] assms(5) by simp_all
  show "sys_inv v" if r: "r = Inr rest"
  proof -
    obtain u where "core v = core (enter Running s (session_online E s u w))"
      using assms(5) r by (cases rule: tcp_auth_core) auto
    then have "core_ok (core v)" using assms(3) by (intro core_ok_running [OF c assms(2,4)]) simp
    then show ?thesis by (rule sys_inv_cong [OF s _ assms(1)])
  qed
  show "sys_inv (leave E s e v)" if r: "r = Inl e"
  proof -
    have "core v = core w \<or> (\<exists>u. core v = core (session_online E s u w))"
      using assms(5) r by (cases rule: tcp_auth_core) auto
    then have "core_ok (core (leave E s e v))" using assms(3) by (intro core_ok_refused [OF c assms(2,4)]) simp
    then show ?thesis by (intro sys_inv_cong [OF _ _ _ assms(1)]) (simp_all add: leave_same s del: core_ok.simps)
  qed
qed

lemma sys_inv_ws_auth:
  assumes "sys_inv w" "w_sessions w s = Some ss" "ss_kind ss = Ws" "ss_phase ss = Handshake" "ws_auth E s msg w = (r, v)"
  shows "r = Inr x \<Longrightarrow> sys_inv v" "r = Inl e \<Longrightarrow> sys_inv (leave E s e v)"
proof -
  have c: "core_ok (core w)" using assms(1) by (simp add: sys_inv_def)
  have s: "w_pg v = w_pg w" "w_sf v = w_sf w" using ws_auth_other [of E s msg w] assms(5) by simp_all
  show "sys_inv v" if r: "r = Inr x"
  proof -
    obtain u where "core v = core (enter Running s (ws_online E s u w))"
      using assms(5) r by (cases rule: ws_auth_core) auto
    then have "core_ok (core v)" using assms(3) by (intro core_ok_running [OF c assms(2,4)]) simp
    then show ?thesis by (rule sys_inv_cong [OF s _ assms(1)])
  qed
  show "sys_inv (leave E s e v)" if r: "r = Inl e"
  proof -
    have "core v = core w \<or> (\<exists>u. core v = core (ws_online E s u w))"
      using assms(5) r by (cases rule: ws_auth_core) auto
    then have "core_ok (core (leave E s e v))" using assms(3) by (intro core_ok_refused [OF c assms(2,4)]) simp
    then show ?thesis by (intro sys_inv_cong [OF _ _ _ assms(1)]) (simp_all add: leave_same s del: core_ok.simps)
  qed
qed

text \<open>A session that handles frames is left: the frame changed the world by \<open>effects\<close>.\<close>

lemma sys_inv_leave:
  assumes "sys_inv w" "w_sessions w s = Some ss" "ss_phase ss \<noteq> Ended" "effects E w v"
  shows "sys_inv (leave E s e v)"
proof -
  have v: "sys_inv v" using assms(4,1) by (rule sys_inv_effects)
  have "core_ok (core (leave E s e w))"
    using assms(1) by (intro core_ok_leave [OF _ assms(2,3)]) (simp add: sys_inv_def)
  then have "core_ok (core (leave E s e v))"
    by (simp add: core_leave_cong [OF effects_core [OF assms(4)]] del: core_ok.simps)
  then show ?thesis by (intro sys_inv_cong [OF _ _ _ v]) (simp_all add: leave_same)
qed

lemma tcp_enqueue_ident:
  "ss_kind (tcp_enqueue E b ss) = ss_kind ss \<and> ss_user_id (tcp_enqueue E b ss) = ss_user_id ss \<and>
   ss_phase (tcp_enqueue E b ss) = ss_phase ss"
  by (simp add: tcp_enqueue_def Let_def split: option.splits)

lemma enqueue_ident:
  "enqueue E b ss = Some ss' \<Longrightarrow> ss_kind ss' = ss_kind ss \<and> ss_user_id ss' = ss_user_id ss \<and> ss_phase ss' = ss_phase ss"
  using tcp_enqueue_ident [of E b ss] ws_enqueue_fields [of E b ss ss'] by (auto simp: enqueue_def split: kind.splits)

lemma core_deliver: "core (deliver E s w) = core w"
  by (auto simp: deliver_def core_def fun_eq_iff dest!: enqueue_ident split: option.splits list.splits)

lemma deliver_same: "w_pg (deliver E s w) = w_pg w" "w_sf (deliver E s w) = w_sf w"
  by (simp_all add: deliver_def split: option.splits list.splits)

lemma db_ok_time: "db_ok (d\<lparr>db_now := t\<rparr>) = db_ok d"
  by (simp add: db_ok_def user_ids_def group_ids_def)

lemma sys_inv_release:
  assumes "sys_inv w" "w_sessions w s = Some ss" "ss_phase ss = Ended"
  shows "sys_inv (w\<lparr>w_sessions := (w_sessions w)(s := None)\<rparr>)"
proof -
  have c: "core (w\<lparr>w_sessions := (w_sessions w)(s := None)\<rparr>) =
      (w_registry w, w_active_sessions w, w_active_connections w, (snd (snd (snd (core w))))(s := None))"
    by (auto simp: core_def fun_eq_iff)
  have "core_ok (w_registry w, w_active_sessions w, w_active_connections w, snd (snd (snd (core w))))"
    using assms(1) core_tuple [of w] by (simp add: sys_inv_def)
  then have "core_ok (core (w\<lparr>w_sessions := (w_sessions w)(s := None)\<rparr>))"
    unfolding c using core_ident [OF assms(2)] assms(3) by (intro core_ok_release) simp_all
  then show ?thesis by (intro sys_inv_cong [OF _ _ _ assms(1)]) simp_all
qed

lemma sys_inv_action:
  fixes E :: "('r, 'c) env"
  assumes "action E spec html w w'" "sys_inv w"
  shows "sys_inv w'"
  using assms
proof (induction rule: action.induct)
  case (act_accept w s handshake)
  then show ?case by (intro sys_inv_new_session)
next
  case (act_request req w res w')
  then show ?case using sys_inv_effects [OF eff_handle_connection] by blast
next
  case (act_upgrade req w w' s)
  then show ?case using sys_inv_effects [OF eff_handle_connection] sys_inv_new_session(1) by blast
next
  case (act_tcp_login w s ss input rest w')
  then show ?case by (blast intro: sys_inv_tcp_auth(1))
next
  case (act_tcp_refuse w s ss input e w')
  then show ?case by (blast intro: sys_inv_tcp_auth(2))
next
  case (act_tcp_frame w s ss input rest w')
  then show ?case using sys_inv_effects [OF eff_tcp_frame [OF _ eff_refl]] by blast
next
  case (act_tcp_end w s ss input e w')
  then show ?case by (intro sys_inv_leave [OF _ _ _ eff_tcp_frame [OF _ eff_refl]]) auto
next
  case (act_ws_login w s ss msg x w')
  then show ?case by (blast intro: sys_inv_ws_auth(1))
next
  case (act_ws_refuse w s ss msg e w')
  then show ?case by (blast intro: sys_inv_ws_auth(2))
next
  case (act_ws_frame w s ss frame w')
  then show ?case using sys_inv_effects [OF eff_ws_frame [OF _ eff_refl]] by blast
next
  case (act_ws_fail w s ss frame w')
  then show ?case by (intro sys_inv_leave [OF _ _ _ eff_ws_frame [OF _ eff_refl]]) auto
next
  case (act_ws_close w s ss)
  then show ?case by (intro sys_inv_leave [OF _ _ _ eff_refl])
next
  case (act_deliver w s)
  then show ?case
    by (intro sys_inv_cong [OF deliver_same _ act_deliver]) (simp add: core_deliver sys_inv_def)
next
  case (act_write w s ss)
  have "effects E w (upd_session s do_write_step w)"
    by (rule eff_session [OF eff_refl]) (simp add: do_write_step_def split: list.splits)
  then show ?case using act_write.prems by (rule sys_inv_effects)
next
  case (act_job w js j js' w')
  then show ?case using sys_inv_effects [OF eff_run_job [OF _ eff_jobs [OF eff_refl]]] by blast
next
  case (act_heartbeat w t w' s)
  have "effects E w (upd_session s (heartbeat_expire t) (snd (w_steady_now E w)))"
    by (intro eff_session eff_primitive eff_refl) (simp add: heartbeat_expire_def split: option.splits)
  then show ?case using act_heartbeat sys_inv_effects by fastforce
next
  case (act_release w s ss)
  then show ?case by (intro sys_inv_release)
next
  case (act_peer w s)
  then show ?case by (intro sys_inv_effects [OF eff_session [OF eff_refl]]) simp_all
next
  case (act_redis w r)
  then show ?case by (intro sys_inv_effects [OF eff_redis [OF eff_refl]])
next
  case (act_cassandra w c)
  then show ?case by (intro sys_inv_effects [OF eff_cass_state [OF eff_refl]])
next
  case (act_time w t)
  have "effects E w (w\<lparr>w_pg := (w_pg w)\<lparr>pg_db := (pg_db (w_pg w))\<lparr>db_now := t\<rparr>\<rparr>\<rparr>)"
    by (rule eff_pg [OF eff_refl]) (simp_all add: db_ok_time)
  then show ?case using act_time by (rule sys_inv_effects)
qed

lemma sys_inv_starts: "starts w \<Longrightarrow> sys_inv w"
  by (simp add: starts_def sys_inv_def core_def reg_ok_def count_def)

lemma reachable_inv:
  assumes "reachable E spec html w w'" "sys_inv w"
  shows "sys_inv w'"
  using assms unfolding reachable_def
  by (induction rule: rtranclp_induct) (auto simp: step_def dest: sys_inv_action)

section \<open>A direct message from socket to socket\<close>

lemma step_action: "\<not> w_crashed w \<Longrightarrow> action E spec html w w' \<Longrightarrow> reachable E spec html w w'"
  by (simp add: reachable_def step_def r_into_rtranclp)

lemma reachable_trans: "reachable E spec html u v \<Longrightarrow> reachable E spec html v w \<Longrightarrow> reachable E spec html u w"
  unfolding reachable_def by (rule rtranclp_trans)

lemma dm_deliver_session:
  "w_lookup w r = Some t \<Longrightarrow> w_lookup w u \<noteq> Some t \<Longrightarrow>
   w_sessions (dm_deliver E u r c i b w) t = map_option (\<lambda>tt. tt\<lparr>ss_mailbox := ss_mailbox tt @ [b]\<rparr>) (w_sessions w t)"
  by (auto simp: dm_deliver_def Let_def w_post_def split: option.splits)

lemma crashed_same:
  "w_crashed (dm_deliver E u r c i b w) = w_crashed w" "w_snowflake E w = Some (j, w1) \<Longrightarrow> w_crashed w1 = w_crashed w"
  by (auto simp: dm_deliver_def Let_def w_post_def w_lpush_def w_spawn_def w_snowflake_def bind_eq_Some_conv
      split: option.splits)

text \<open>What the sender's frame does to the session of the recipient.\<close>

definition dm_frame_ok :: "('r, 'c) env \<Rightarrow> ('r, 'c) world \<Rightarrow> sid \<Rightarrow> FrameHeader \<Rightarrow> bytes \<Rightarrow> bool" where
  "dm_frame_ok E w s hdr payload \<longleftrightarrow>
     (case w_sessions w s of
        None \<Rightarrow> False
      | Some ss \<Rightarrow>
          ss_kind ss = Tcp \<and> ss_phase ss = Running \<and> ss_user_id ss \<noteq> fh_recipient_id hdr \<and>
          fst (consume (e_rnd E) (ss_bucket ss) (e_steady E (w_steady w)))) \<and>
     fh_msg_type hdr = MsgType_CHAT \<and> fh_flags hdr AND kFlagIsGroup = 0 \<and>
     fh_payload_len hdr = of_nat (length payload) \<and> length payload \<le> 2 ^ 20"

lemma lookup_inv:
  assumes "sys_inv w" "w_lookup w u = Some s"
  obtains ss where "w_sessions w s = Some ss" "ss_user_id ss = u" "ss_phase ss \<noteq> Handshake"
proof -
  obtain ss where ss: "w_sessions w s = Some ss" using w_lookup_alive [OF assms(2)] by blast
  have "w_registry w u = Some s"
    using assms(2) by (auto simp: w_lookup_def registry_lookup_def split: option.splits if_splits)
  moreover have "reg_ok (w_registry w) (snd (snd (snd (core w))))"
    using assms(1) core_tuple [of w] unfolding sys_inv_def by (metis core_ok.simps)
  ultimately show ?thesis using that ss reg_okD core_ident [OF ss] by metis
qed

lemma dm_frame:
  assumes "sys_inv w" "clock_moves (e_clk E)" "dm_frame_ok E w s hdr payload"
    "w_lookup w (fh_recipient_id hdr) = Some t" "w_sessions w s = Some ss" "w_sessions w t = Some tt"
  obtains w' i ts where "action E spec html w w'" "w_crashed w' = w_crashed w"
    "w_sessions w' t = Some (tt\<lparr>ss_mailbox := ss_mailbox tt @
       [serialize_delivery (dm_message (ss_user_id ss) (fh_recipient_id hdr) i ts payload)]\<rparr>)"
proof -
  let ?u = "ss_user_id ss" and ?r = "fh_recipient_id hdr" and ?n = "e_steady E (w_steady w)"
  have f: "ss_kind ss = Tcp" "ss_phase ss = Running" "?u \<noteq> ?r" "fst (consume (e_rnd E) (ss_bucket ss) ?n)"
    "fh_msg_type hdr = MsgType_CHAT" "fh_flags hdr AND kFlagIsGroup = 0"
    "fh_payload_len hdr = of_nat (length payload)" "length payload \<le> 2 ^ 20"
    using assms(3,5) by (simp_all add: dm_frame_ok_def)
  define w1 where "w1 = upd_session s (\<lambda>ss'. ss'\<lparr>ss_bucket := snd (consume (e_rnd E) (ss_bucket ss) ?n)\<rparr>) (snd (w_steady_now E w))"
  have "live w1" using assms(1) by (simp add: w1_def sys_inv_def)
  then obtain i w2 where n: "w_snowflake E w1 = Some (i, w2)" using assms(2) by (rule live_snowflake)
  define v where "v = snd (w_now E w2)"
  define ts where "ts = fst (w_now E w2)"
  define w3 where "w3 = dm_deliver E ?u ?r (min ?u ?r) i (serialize_delivery (dm_message ?u ?r i ts payload)) v"
  define w' where "w' = w_count_message (w_spawn (Job_activity (min ?u ?r) False (preview payload))
    (w_spawn (Job_upsert (min ?u ?r) ?u ?r) (w_spawn (Job_store (min ?u ?r) i ?u ?r payload ts MsgType_CHAT) w3)))"
  have "tcp_route_message E ?u hdr payload w1 = Some w'"
    using f(6) by (simp add: tcp_route_message_def route_dm_def n Let_def split_beta w'_def w3_def v_def ts_def)
  moreover have "read_frame_payload (fh_payload_len hdr) payload = Some (payload, [])"
    using f(7,8) read_frame_payload_append [of payload "[]"] by simp
  moreover have "unat (fh_payload_len hdr) \<le> 2 ^ 20"
    using f(7,8) by (simp add: unsigned_of_nat take_bit_nat_eq_self)
  ultimately have "tcp_frame E s ?u (header_bytes hdr @ payload) w = Some (Inr [], w')"
    using f(4,5) assms(5)
    by (simp add: tcp_frame_def Let_def split_beta w1_def w_steady_now_def MsgType_CHAT_def MsgType_PING_def)
  then have a: "action E spec html w w'" using assms(5) f(1,2) by (intro act_tcp_frame)
  obtain tt' where t: "w_sessions w t = Some tt'" "ss_user_id tt' = ?r"
    using lookup_inv [OF assms(1,4)] by blast
  with f(3) assms(5) have ts: "t \<noteq> s" by auto
  have nu: "w_lookup w ?u \<noteq> Some t"
  proof
    assume "w_lookup w ?u = Some t"
    then obtain x where "w_sessions w t = Some x" "ss_user_id x = ?u" using lookup_inv [OF assms(1)] by blast
    with t f(3) show False by simp
  qed
  have l: "w_lookup v = w_lookup w"
    using snowflake_lookup [OF n] core_lookup [OF core_primitive(5), of E w] by (simp add: v_def w1_def)
  have sv: "w_sessions v t = Some tt" using snowflake_same [OF n] assms(6) ts by (simp add: v_def w1_def)
  have "w_sessions w3 t = Some (tt\<lparr>ss_mailbox := ss_mailbox tt @ [serialize_delivery (dm_message ?u ?r i ts payload)]\<rparr>)"
    unfolding w3_def using dm_deliver_session [of v ?r t ?u] l sv assms(4) nu by simp
  moreover have "w_crashed w' = w_crashed w"
    using crashed_same(2) [OF n] by (simp add: w'_def w3_def v_def w1_def crashed_same w_count_message_def w_spawn_def w_now_def w_steady_now_def)
  ultimately show ?thesis using a by (intro that [of w' i ts]) (simp_all add: w'_def)
qed

lemma reachable_do_write:
  "w_sessions w t = Some ss \<Longrightarrow> \<not> w_crashed w \<Longrightarrow>
   \<exists>w'. reachable E spec html w w' \<and> w_sessions w' t = Some (do_write ss) \<and> \<not> w_crashed w'"
proof (induction ss arbitrary: w rule: do_write.induct)
  case (1 ss)
  show ?case
  proof (cases "ss_writing ss")
    case False
    then have "do_write ss = ss" by (simp add: do_write.simps)
    with 1 show ?thesis by (auto simp: reachable_def)
  next
    case True
    let ?v = "upd_session t do_write_step w"
    have "\<exists>w'. reachable E spec html ?v w' \<and> w_sessions w' t = Some (do_write (do_write_step ss)) \<and> \<not> w_crashed w'"
      using "1.IH" [OF True, of ?v] "1.prems" by simp
    moreover have "reachable E spec html w ?v"
      using "1.prems" True by (intro step_action act_write)
    moreover have "do_write ss = do_write (do_write_step ss)" using True by (subst do_write.simps) simp
    ultimately show ?thesis using reachable_trans by metis
  qed
qed

section \<open>The server of the examples\<close>

definition start_world :: "(rstore, cass_ref) world" where
  "start_world = demo_world\<lparr>w_registry := Map.empty, w_sessions := Map.empty, w_active_sessions := 0, w_active_connections := 0\<rparr>"

lemma start_world_starts: "starts start_world"
proof -
  have "live start_world" using demo_live(1) by (simp add: start_world_def live_def)
  moreover have "world_db_ok start_world" using demo_db_ok by (simp add: start_world_def world_db_ok_def demo_world_def)
  ultimately show ?thesis by (simp add: starts_def start_world_def demo_world_def)
qed

lemma accepted_reachable:
  "reachable E spec html start_world (accept_tcp E True 1 start_world)"
  by (intro step_action act_accept) (simp_all add: start_world_def demo_world_def fresh_sid_def)

lemma demo_sys_inv: "sys_inv demo_world"
proof -
  have i: "snd (snd (snd (core demo_world))) = [1 \<mapsto> (Tcp, 7, Running), 2 \<mapsto> (Ws, 12, Running)]"
    by (auto simp: core_def demo_world_def session_init_def fun_eq_iff)
  have c: "core demo_world = ([7 \<mapsto> 1, 12 \<mapsto> 2], 2, 2, [1 \<mapsto> (Tcp, 7, Running), 2 \<mapsto> (Ws, 12, Running)])"
  proof -
    have "w_registry demo_world = [7 \<mapsto> 1, 12 \<mapsto> 2]" "w_active_sessions demo_world = 2" "w_active_connections demo_world = 2"
      by (simp_all add: demo_world_def)
    then show ?thesis using core_tuple [of demo_world] by (simp only: i)
  qed
  have "count P Map.empty = 0" if "\<not> P None" for P using that by (simp add: count_def)
  moreover have "reg_ok [7 \<mapsto> 1, 12 \<mapsto> 2] [1 \<mapsto> (Tcp, 7, Running), 2 \<mapsto> (Ws, 12, Running)]"
    by (intro reg_okI) (auto split: if_splits)
  ultimately have "core_ok (core demo_world)" unfolding c by (simp add: count_upd)
  then show ?thesis using demo_live(1) demo_db_ok by (simp add: sys_inv_def world_db_ok_def demo_world_def)
qed

section \<open>Properties\<close>

text \<open>What the invariant says about sessions and gauges.\<close>

lemma sys_inv_sessions:
  assumes i: "sys_inv w"
  shows "(\<forall>u s. w_lookup w u = Some s \<longrightarrow>
      (\<exists>ss. w_sessions w s = Some ss \<and> ss_user_id ss = u \<and> ss_phase ss \<noteq> Handshake)) \<and>
    (\<forall>s ss. w_sessions w s = Some ss \<longrightarrow> ss_phase ss = Handshake \<longrightarrow> ss_user_id ss = 0) \<and>
    int (card {s. \<exists>ss. w_sessions w s = Some ss \<and> ss_phase ss = Running}) \<le> w_active_sessions w \<and>
    int (card {s. \<exists>ss. w_sessions w s = Some ss \<and>
      (ss_phase ss = Running \<or> ss_kind ss = Tcp \<and> ss_phase ss = Handshake)}) \<le> w_active_connections w"
proof -
  let ?i = "snd (snd (snd (core w)))"
  have c: "core_ok (w_registry w, w_active_sessions w, w_active_connections w, ?i)"
    using i core_tuple [of w] by (simp add: sys_inv_def)
  have "{s. is_running (?i s)} = {s. \<exists>ss. w_sessions w s = Some ss \<and> ss_phase ss = Running}"
    "{s. is_connected (?i s)} = {s. \<exists>ss. w_sessions w s = Some ss \<and> (ss_phase ss = Running \<or> ss_kind ss = Tcp \<and> ss_phase ss = Handshake)}"
    by (auto simp: core_def is_running_def is_connected_def split: option.splits)
  moreover have "ss_user_id ss = 0" if "w_sessions w s = Some ss" "ss_phase ss = Handshake" for s ss
    using c core_ident [OF that(1)] that(2) by auto
  moreover have "\<exists>ss. w_sessions w s = Some ss \<and> ss_user_id ss = u \<and> ss_phase ss \<noteq> Handshake" if "w_lookup w u = Some s" for u s
    using lookup_inv [OF i that] by blast
  ultimately show ?thesis using c by (auto simp: count_def)
qed

text \<open>C2. In every state that the server can reach: a session that the registry returns for a user exists, was
  authenticated as that user and is not in its handshake; a session in its handshake has no user; and the two
  gauges are never below the number of sessions that serve a user and of connections that are open.\<close>

theorem system_invariant:
  assumes "starts w0" "reachable E spec html w0 w"
  shows "(\<forall>u s. w_lookup w u = Some s \<longrightarrow>
      (\<exists>ss. w_sessions w s = Some ss \<and> ss_user_id ss = u \<and> ss_phase ss \<noteq> Handshake)) \<and>
    (\<forall>s ss. w_sessions w s = Some ss \<longrightarrow> ss_phase ss = Handshake \<longrightarrow> ss_user_id ss = 0) \<and>
    int (card {s. \<exists>ss. w_sessions w s = Some ss \<and> ss_phase ss = Running}) \<le> w_active_sessions w \<and>
    int (card {s. \<exists>ss. w_sessions w s = Some ss \<and>
      (ss_phase ss = Running \<or> ss_kind ss = Tcp \<and> ss_phase ss = Handshake)}) \<le> w_active_connections w"
  using reachable_inv [OF assms(2) sys_inv_starts [OF assms(1)]] by (rule sys_inv_sessions)

theorem system_invariant_witness:
  "\<exists>w. reachable demo_env [] [] start_world w \<and> (\<exists>ss. w_sessions w 1 = Some ss \<and> ss_user_id ss = 0) \<and> w_active_connections w \<ge> 0"
proof -
  let ?w = "accept_tcp demo_env True 1 start_world"
  have s: "w_sessions ?w 1 = Some (session_init Tcp (e_steady demo_env 0))"
    by (simp add: accept_tcp_def new_session_def w_steady_now_def start_world_def demo_world_def)
  note i = system_invariant [OF start_world_starts accepted_reachable [of demo_env "[]" "[]"]]
  have "ss_user_id (session_init Tcp (e_steady demo_env 0)) = 0 \<and> 0 \<le> w_active_connections ?w"
    using i s by (auto simp: session_init_def)
  with s accepted_reachable show ?thesis by blast
qed



text \<open>C9. Nothing hangs: as long as the system clock moves, in every state that the server can reach every HTTP request
  is answered, dropped or upgraded, every frame of a TCP or WebSocket session is handled, and every coroutine
  that was started can be run.\<close>

theorem system_progress:
  fixes E :: "('r, 'c) env"
  assumes "starts w0" "reachable E spec html w0 w" "clock_moves (e_clk E)"
  shows "(\<forall>req. handle_connection E (routes spec html) req w \<noteq> None) \<and> (\<forall>s u input. tcp_frame E s u input w \<noteq> None) \<and>
    (\<forall>s u frame. ws_frame E s u frame w \<noteq> None) \<and> (\<forall>j \<in> set (w_jobs w). run_job E j w \<noteq> None)"
proof -
  have l: "live w" using reachable_inv [OF assms(2) sys_inv_starts [OF assms(1)]] by (simp add: sys_inv_def)
  have "handle_connection E (routes spec html) req w \<noteq> None" for req
    by (rule handle_connection_returns [OF l assms(3), of spec html req]) auto
  moreover have "tcp_frame E s u input w \<noteq> None" for s u input
    by (rule live_tcp_frame [OF l assms(3), of s u input]) auto
  moreover have "ws_frame E s u frame w \<noteq> None" for s u frame
    using ws_frame_returns [OF l assms(3), of s u frame] by auto
  moreover have "run_job E j w \<noteq> None" for j
    by (rule live_run_job [OF l, of E j]) auto
  ultimately show ?thesis by blast
qed

theorem system_progress_witness:
  "\<exists>w. reachable demo_env [] [] start_world w \<and> handle_connection demo_env (routes [] []) (demo_request Get ''/health'' [] []) w \<noteq> None"
  using system_progress [OF start_world_starts accepted_reachable demo_live(2), of "[]" "[]"]
    accepted_reachable [of demo_env "[]" "[]"] by blast

text \<open>C1. From socket to socket: when a TCP client sends a direct message within its rate to a user who is online with an open TCP
  session that has no delivery waiting, the server can go on to a state in which that session has written, after
  everything that was queued before, the chat frame with this sender and content.\<close>

theorem dm_reaches_socket:
  assumes "sys_inv w" "\<not> w_crashed w" "clock_moves (e_clk E)" "dm_frame_ok E w s hdr payload"
    and "u = ss_user_id (the (w_sessions w s))" "r = fh_recipient_id hdr" "w_lookup w r = Some t"
    and "w_sessions w t = Some tt" "ss_kind tt = Tcp" "ss_open tt" "ss_mailbox tt = []"
  shows "\<exists>w' i ts. reachable E spec html w w' \<and> \<not> w_crashed w' \<and>
    map_option ss_sent (w_sessions w' t) = Some (ss_sent tt @ ss_write_queue tt @
      [Frame (build_chat_frame (e_pb_serialize E) (dm_message u r i ts payload))])"
proof -
  obtain ss where ss: "w_sessions w s = Some ss" using assms(4) by (auto simp: dm_frame_ok_def split: option.splits)
  then have u: "ss_user_id ss = u" using assms(5) by simp
  obtain w1 i ts where w1: "action E spec html w w1" "w_crashed w1 = w_crashed w"
    "w_sessions w1 t = Some (tt\<lparr>ss_mailbox := [serialize_delivery (dm_message u r i ts payload)]\<rparr>)"
    by (rule dm_frame [OF assms(1,3,4) assms(7) [unfolded assms(6)] ss assms(8)]) (use assms(6,11) u in auto)
  let ?f = "Frame (build_chat_frame (e_pb_serialize E) (dm_message u r i ts payload))"
  let ?tt = "tt\<lparr>ss_mailbox := [], ss_write_queue := ss_write_queue tt @ [?f], ss_writing := True\<rparr>"
  have "length payload \<le> 2 ^ 20" using assms(4) by (simp add: dm_frame_ok_def)
  then have "tcp_enqueue E (serialize_delivery (dm_message u r i ts payload)) (tt\<lparr>ss_mailbox := []\<rparr>) = ?tt"
    by (subst tcp_enqueue_delivery) (simp_all add: dm_message_def tcp_wire_frame_def MsgType_CHAT_def
        MsgType_DELIVERED_def MsgType_READ_def MsgType_TYPING_def)
  then have d: "w_sessions (deliver E t w1) t = Some ?tt" "w_crashed (deliver E t w1) = w_crashed w1"
    using w1(3) assms(9) by (simp_all add: deliver_def enqueue_def)
  obtain w2 where w2: "reachable E spec html (deliver E t w1) w2" "w_sessions w2 t = Some (do_write ?tt)" "\<not> w_crashed w2"
    using reachable_do_write [OF d(1), of E spec html] d(2) w1(2) assms(2) by auto
  have "reachable E spec html w w1" by (rule step_action [OF assms(2) w1(1)])
  moreover have "reachable E spec html w1 (deliver E t w1)"
    using assms(2) w1(2) by (intro step_action act_deliver) simp
  ultimately have "reachable E spec html w w2" using w2(1) reachable_trans by blast
  moreover have "ss_sent (do_write ?tt) = ss_sent tt @ ss_write_queue tt @ [?f]"
    using do_write_open [of ?tt] assms(10) by simp
  ultimately show ?thesis using w2(2,3) by auto
qed

definition socket_world :: "(rstore, cass_ref) world" where
  "socket_world = upd_session 2 (\<lambda>ss. ss\<lparr>ss_kind := Tcp\<rparr>) demo_world"

definition demo_chat :: "bytes \<Rightarrow> FrameHeader" where
  "demo_chat payload = FrameHeader_zero\<lparr>fh_msg_type := MsgType_CHAT, fh_recipient_id := 12,
     fh_payload_len := of_nat (length payload)\<rparr>"

lemma demo_chat_ok:
  assumes "w = demo_world \<or> w = socket_world" "length payload \<le> 2 ^ 20"
  shows "dm_frame_ok demo_env w 1 (demo_chat payload) payload" "fh_recipient_id (demo_chat payload) = 12"
proof -
  have "fst (consume (\<lambda>x. x) (TokenBucket_init 0) 0)"
    by (simp add: consume_def TokenBucket_init_def seconds_def Let_def)
  then show "dm_frame_ok demo_env w 1 (demo_chat payload) payload"
    using assms by (auto simp: dm_frame_ok_def demo_chat_def socket_world_def demo_world_def demo_env_def session_init_def
        FrameHeader_zero_def)
  show "fh_recipient_id (demo_chat payload) = 12" by (simp add: demo_chat_def)
qed

lemma socket_sys_inv: "sys_inv socket_world"
proof -
  have i: "snd (snd (snd (core socket_world))) = [1 \<mapsto> (Tcp, 7, Running), 2 \<mapsto> (Tcp, 12, Running)]"
    by (auto simp: core_def socket_world_def demo_world_def session_init_def fun_eq_iff)
  have c: "core socket_world = ([7 \<mapsto> 1, 12 \<mapsto> 2], 2, 2, [1 \<mapsto> (Tcp, 7, Running), 2 \<mapsto> (Tcp, 12, Running)])"
  proof -
    have "w_registry socket_world = [7 \<mapsto> 1, 12 \<mapsto> 2]" "w_active_sessions socket_world = 2" "w_active_connections socket_world = 2"
      by (simp_all add: socket_world_def demo_world_def)
    then show ?thesis using core_tuple [of socket_world] by (simp only: i)
  qed
  have "count P Map.empty = 0" if "\<not> P None" for P using that by (simp add: count_def)
  moreover have "reg_ok [7 \<mapsto> 1, 12 \<mapsto> 2] [1 \<mapsto> (Tcp, 7, Running), 2 \<mapsto> (Tcp, 12, Running)]"
    by (intro reg_okI) (auto split: if_splits)
  ultimately have "core_ok (core socket_world)" unfolding c by (simp add: count_upd)
  then show ?thesis using demo_live(1) demo_db_ok by (simp add: socket_world_def sys_inv_def world_db_ok_def demo_world_def)
qed

theorem dm_reaches_socket_witness:
  "\<exists>w' i ts. reachable demo_env [] [] socket_world w' \<and> map_option ss_sent (w_sessions w' 2) =
     Some [Frame (build_chat_frame ref_serialize (dm_message 7 12 i ts [104, 105]))]"
proof -
  have s: "w_sessions socket_world 2 = Some ((session_init Tcp 0)\<lparr>ss_user_id := 12, ss_phase := Running\<rparr>)"
    "w_lookup socket_world 12 = Some 2" "ss_user_id (the (w_sessions socket_world 1)) = 7" "\<not> w_crashed socket_world"
    by (simp_all add: socket_world_def demo_world_def session_init_def w_lookup_def registry_lookup_def w_alive_def)
  have e: "e_pb_serialize demo_env = ref_serialize" by (simp add: demo_env_def)
  show ?thesis
    using dm_reaches_socket [where spec = "[]" and html = "[]" and payload = "[104, 105]", OF socket_sys_inv s(4) demo_live(2)
        demo_chat_ok(1) [OF disjI2 [OF refl]] s(3) [symmetric] demo_chat_ok(2) [OF disjI2 [OF refl], symmetric] s(2,1)]
    by (auto simp: e session_init_def)
qed

text \<open>C15. The process ends: a direct message whose content is not UTF-8 text, sent by any TCP client to a user who is
  online with a WebSocket session, takes the server in two steps to the state in which an exception has left
  \<open>io_context::run\<close>; from there nothing happens any more.\<close>

theorem dm_crashes_server:
  assumes "sys_inv w" "\<not> w_crashed w" "clock_moves (e_clk E)" "dm_frame_ok E w s hdr payload"
    and "w_lookup w (fh_recipient_id hdr) = Some t" "w_sessions w t = Some tt" "ss_kind tt = Ws" "ss_mailbox tt = []"
    and "json_library (e_json E) utf8" "\<not> utf8 (chars_of_bytes payload)"
  shows "\<exists>w1 w2. step E spec html w w1 \<and> step E spec html w1 w2 \<and> w_crashed w2 \<and> (\<forall>w3. \<not> step E spec html w2 w3)"
proof -
  obtain ss where ss: "w_sessions w s = Some ss" using assms(4) by (auto simp: dm_frame_ok_def split: option.splits)
  obtain w1 i ts where w1: "action E spec html w w1" "w_crashed w1 = w_crashed w"
    "w_sessions w1 t = Some (tt\<lparr>ss_mailbox :=
       [serialize_delivery (dm_message (ss_user_id ss) (fh_recipient_id hdr) i ts payload)]\<rparr>)"
    by (rule dm_frame [OF assms(1,3,4,5) ss assms(6)]) (use assms(8) in auto)
  let ?m = "dm_message (ss_user_id ss) (fh_recipient_id hdr) i ts payload"
  have "length payload \<le> 2 ^ 20" using assms(4) by (simp add: dm_frame_ok_def)
  then have "ws_enqueue E (serialize_delivery ?m) (tt\<lparr>ss_mailbox := []\<rparr>) = None"
    using assms(10) by (subst json_library.enqueue_throws [OF assms(9) refl]) (simp_all add: dm_message_def
        MsgType_CHAT_def MsgType_DELETE_NOTIFY_def MsgType_DELIVERED_def MsgType_READ_def MsgType_TYPING_def)
  then have "w_crashed (deliver E t w1)"
    using w1(3) assms(7) by (simp add: deliver_def enqueue_def)
  with w1(1,2) assms(2) act_deliver [of E spec html w1 t] show ?thesis
    by (intro exI [of _ w1] exI [of _ "deliver E t w1"]) (simp add: step_def)
qed

theorem dm_crashes_server_witness:
  "\<exists>w1 w2. step demo_env [] [] demo_world w1 \<and> step demo_env [] [] w1 w2 \<and> w_crashed w2"
proof -
  have s: "w_sessions demo_world 2 = Some ((session_init Ws 0)\<lparr>ss_user_id := 12, ss_phase := Running\<rparr>)" "\<not> w_crashed demo_world"
    by (simp_all add: demo_world_def)
  have j: "json_library (e_json demo_env) ascii" by (simp add: demo_env_def ref_jl.json_library_axioms)
  have a: "\<not> ascii (chars_of_bytes [255])" by code_simp
  have l: "w_lookup demo_world (fh_recipient_id (demo_chat [255])) = Some 2" by (simp add: demo_chat_def)
  show ?thesis
    using dm_crashes_server [where spec = "[]" and html = "[]", OF demo_sys_inv s(2) demo_live(2) demo_chat_ok(1) l s(1) _ _ j a]
    by (auto simp: session_init_def)
qed

text \<open>C31. A user who reconnects is shown as offline: when the older session of a user ends while a newer one is registered, the
  newer one stays registered, but the clean-up has deleted the presence key of the user, and a ping of the
  newer session does not bring it back.\<close>

theorem stale_cleanup_hides_user:
  assumes "redis_server (e_rx E) up content ttl pass" "up (w_redis w)"
    and "w_sessions w s = Some ss" "ss_user_id ss = u" "u \<noteq> 0" "w_lookup w u = Some t" "t \<noteq> s"
    and "w' = leave E s RunThrow w"
  shows "w_lookup w' u = Some t \<and> fst (get_presence (e_rx E) (w_redis w') u) = None \<and>
    fst (get_presence (e_rx E) (refresh_presence (e_rx E) (w_redis w') u) u) = None"
proof -
  have "ss_user_id (reset_heartbeat n ss) = u" for n
    using assms(4) by (simp add: reset_heartbeat_def heartbeat_start_def)
  then obtain ts where r: "w_redis w' = set_last_seen (e_rx E) (del_presence (e_rx E) (w_redis w) u) u ts"
    using assms(3,5,8) by (auto simp: session_cleanup_def Let_def w_steady_now_def w_now_def w_spawn_def)
  note c = redis_server.content_presence [OF assms(1)] and k = redis_server.up_simple [OF assms(1)]
  have "up (del_presence (e_rx E) (w_redis w) u)" "up (w_redis w')" using assms(2) by (simp_all add: r k)
  then have p: "content (w_redis w') (presence_key u) = None"
    "content (refresh_presence (e_rx E) (w_redis w') u) (presence_key u) = None"
    using assms(2) by (simp_all add: r c)
  have "up (refresh_presence (e_rx E) (w_redis w') u)" using \<open>up (w_redis w')\<close> by (rule k(2))
  then have "fst (get_presence (e_rx E) (w_redis w') u) = None"
    "fst (get_presence (e_rx E) (refresh_presence (e_rx E) (w_redis w') u) u) = None"
    using p \<open>up (w_redis w')\<close> by (simp_all add: redis_server.fst_get_presence(2) [OF assms(1)])
  moreover have "w_lookup w' u = Some t"
    using session_cleanup_effect(1,4) [OF assms(3,4,5), of E] assms(6,7,8)
    by (simp add: w_lookup_def registry_lookup_remove)
  ultimately show ?thesis by simp
qed

theorem stale_cleanup_hides_user_witness:
  "\<exists>w'. w' = leave demo_env 2 RunThrow (upd_session 2 (\<lambda>ss. ss\<lparr>ss_user_id := 7\<rparr>) demo_world) \<and> w_lookup w' 7 = Some 1 \<and>
     fst (get_presence ref_exec (w_redis w') 7) = None"
proof -
  let ?w = "upd_session 2 (\<lambda>ss. ss\<lparr>ss_user_id := 7\<rparr>) demo_world"
  have s: "w_sessions ?w 2 = Some ((session_init Ws 0)\<lparr>ss_user_id := 7, ss_phase := Running\<rparr>)"
    by (simp add: demo_world_def)
  show ?thesis
    using stale_cleanup_hides_user [of demo_env rs_up ref_content ref_ttl ref_pass ?w 2 _ 7 1, OF _ _ s]
      ref_redis.redis_server_axioms
    by (simp add: rstore_empty_def)
qed

end
