(* ===== verification/Config.thy ===== *)
theory Config
  imports Http_Routes
begin

text \<open>
  \<open>src/server/src/util/Config.cpp\<close>, \<open>main\<close> (\<open>src/server/src/main.cpp\<close>) up to the construction of the server, and the
  parts of \<open>Server::Server\<close> (\<open>src/server/src/core/Server.cpp\<close>) that read the configuration.  A process
  environment is a map from names to values, a file is its text (\<open>None\<close>: it cannot be opened).  An exception
  is \<open>Inl\<close> with its message; \<open>what()\<close> of an exception of the JSON library is not modelled (\<open>''json''\<close>).
  The conversions \<open>get<T>()\<close> of JSON values to machine integers and the comment-tolerant parser are parameters.
\<close>

type_synonym u16 = "16 word"

section \<open>Config\<close>

record Config =
  bind_address :: string
  port :: u16
  http_health_port :: u16
  thread_count :: u32
  tls_cert_path :: string
  tls_key_path :: string
  pg_conn_string :: string
  redis_host :: string
  redis_port :: u16
  redis_password :: string
  redis_ssl :: bool
  cassandra_contact_points :: string
  cassandra_port :: u16
  cassandra_username :: string
  cassandra_password :: string
  cassandra_keyspace :: string
  cassandra_ssl :: bool
  cassandra_ca_cert :: string
  azure_storage_account :: string
  azure_storage_key :: string
  azure_container :: string
  azure_sas_ttl_min :: int
  jwt_secret :: string
  log_level :: string
  log_file :: string
  metrics_port :: u16

definition Config_init :: Config where
  "Config_init = \<lparr>bind_address = ''0.0.0.0'', port = 7777, http_health_port = 8080, thread_count = 0,
     tls_cert_path = [], tls_key_path = [], pg_conn_string = [], redis_host = ''127.0.0.1'', redis_port = 6379,
     redis_password = [], redis_ssl = False, cassandra_contact_points = [], cassandra_port = 10350,
     cassandra_username = [], cassandra_password = [], cassandra_keyspace = ''loomic'', cassandra_ssl = True,
     cassandra_ca_cert = [], azure_storage_account = [], azure_storage_key = [],
     azure_container = ''loomic-uploads'', azure_sas_ttl_min = 60, jwt_secret = [], log_level = ''info'',
     log_file = ''logs/server.log'', metrics_port = 9090\<rparr>"

section \<open>from_file\<close>

text \<open>\<open>cl_parse\<close> ignores comments; \<open>get<uint16_t>()\<close>, \<open>get<unsigned>()\<close>: \<open>None\<close> when the library throws.\<close>

record config_lib =
  cl_parse :: "string \<Rightarrow> json option"
  cl_contains :: "json \<Rightarrow> string \<Rightarrow> bool"
  cl_at :: "json \<Rightarrow> string \<Rightarrow> json"
  cl_u16 :: "json \<Rightarrow> u16 option"
  cl_u32 :: "json \<Rightarrow> u32 option"

definition get_str :: "json \<Rightarrow> string option" where
  "get_str j = (case j of JStr s \<Rightarrow> Some s | _ \<Rightarrow> None)"

definition get_bool :: "json \<Rightarrow> bool option" where
  "get_bool j = (case j of JBool b \<Rightarrow> Some b | _ \<Rightarrow> None)"

text \<open>\<open>if (j.contains(key)) cfg.field = j[key].get<T>();\<close>\<close>

definition read_key ::
  "config_lib \<Rightarrow> json \<Rightarrow> string \<Rightarrow> (json \<Rightarrow> 'a option) \<Rightarrow> ('a \<Rightarrow> Config \<Rightarrow> Config) \<Rightarrow> Config \<Rightarrow> string + Config" where
  "read_key L j key get upd cfg =
     (if cl_contains L j key
      then case get (cl_at L j key) of None \<Rightarrow> Inl ''json'' | Some v \<Rightarrow> Inr (upd v cfg)
      else Inr cfg)"

definition read_required ::
  "config_lib \<Rightarrow> json \<Rightarrow> string \<Rightarrow> (string \<Rightarrow> Config \<Rightarrow> Config) \<Rightarrow> Config \<Rightarrow> string + Config" where
  "read_required L j key upd cfg =
     (let missing = Inl (''Config: missing required field '' @ [CHR 0x27] @ key @ [CHR 0x27])
      in if \<not> cl_contains L j key then missing
         else case get_str (cl_at L j key) of
           None \<Rightarrow> Inl ''json''
         | Some s \<Rightarrow> if s = [] then missing else Inr (upd s cfg))"

text \<open>Statements one after the other; the first exception ends them.\<close>

fun steps :: "('a \<Rightarrow> 'e + 'a) list \<Rightarrow> 'a \<Rightarrow> 'e + 'a" where
  "steps [] c = Inr c"
| "steps (f # fs) c = (case f c of Inl e \<Rightarrow> Inl e | Inr c \<Rightarrow> steps fs c)"

definition from_json :: "config_lib \<Rightarrow> json \<Rightarrow> string + Config" where
  "from_json L j = steps
     [read_key L j ''bind_address'' get_str (\<lambda>v c. c\<lparr>bind_address := v\<rparr>),
      read_key L j ''port'' (cl_u16 L) (\<lambda>v c. c\<lparr>port := v\<rparr>),
      read_key L j ''http_health_port'' (cl_u16 L) (\<lambda>v c. c\<lparr>http_health_port := v\<rparr>),
      read_key L j ''thread_count'' (cl_u32 L) (\<lambda>v c. c\<lparr>thread_count := v\<rparr>),
      read_key L j ''tls_cert_path'' get_str (\<lambda>v c. c\<lparr>tls_cert_path := v\<rparr>),
      read_key L j ''tls_key_path'' get_str (\<lambda>v c. c\<lparr>tls_key_path := v\<rparr>),
      read_key L j ''redis_host'' get_str (\<lambda>v c. c\<lparr>redis_host := v\<rparr>),
      read_key L j ''redis_port'' (cl_u16 L) (\<lambda>v c. c\<lparr>redis_port := v\<rparr>),
      read_key L j ''redis_password'' get_str (\<lambda>v c. c\<lparr>redis_password := v\<rparr>),
      read_key L j ''redis_ssl'' get_bool (\<lambda>v c. c\<lparr>redis_ssl := v\<rparr>),
      read_key L j ''cassandra_contact_points'' get_str (\<lambda>v c. c\<lparr>cassandra_contact_points := v\<rparr>),
      read_key L j ''cassandra_port'' (cl_u16 L) (\<lambda>v c. c\<lparr>cassandra_port := v\<rparr>),
      read_key L j ''cassandra_username'' get_str (\<lambda>v c. c\<lparr>cassandra_username := v\<rparr>),
      read_key L j ''cassandra_password'' get_str (\<lambda>v c. c\<lparr>cassandra_password := v\<rparr>),
      read_key L j ''cassandra_keyspace'' get_str (\<lambda>v c. c\<lparr>cassandra_keyspace := v\<rparr>),
      read_key L j ''cassandra_ssl'' get_bool (\<lambda>v c. c\<lparr>cassandra_ssl := v\<rparr>),
      read_key L j ''cassandra_ca_cert'' get_str (\<lambda>v c. c\<lparr>cassandra_ca_cert := v\<rparr>),
      read_required L j ''pg_conn_string'' (\<lambda>v c. c\<lparr>pg_conn_string := v\<rparr>),
      read_required L j ''jwt_secret'' (\<lambda>v c. c\<lparr>jwt_secret := v\<rparr>),
      read_key L j ''log_level'' get_str (\<lambda>v c. c\<lparr>log_level := v\<rparr>),
      read_key L j ''log_file'' get_str (\<lambda>v c. c\<lparr>log_file := v\<rparr>),
      read_key L j ''metrics_port'' (cl_u16 L) (\<lambda>v c. c\<lparr>metrics_port := v\<rparr>)] Config_init"

definition from_file :: "config_lib \<Rightarrow> string \<Rightarrow> string option \<Rightarrow> string + Config" where
  "from_file L path contents =
     (case contents of
        None \<Rightarrow> Inl (''Cannot open config file: '' @ path)
      | Some txt \<Rightarrow>
          (case cl_parse L txt of None \<Rightarrow> Inl ''json'' | Some j \<Rightarrow> from_json L j))"

section \<open>from_env\<close>

type_synonym environment = "string \<rightharpoonup> string"

text \<open>The lambdas \<open>get\<close> and \<open>to_int\<close>; then \<open>if (auto v = get(name); !v.empty()) cfg.field = \<dots>\<close>.\<close>

definition env_get :: "environment \<Rightarrow> string \<Rightarrow> string" where
  "env_get env name = (case env name of Some v \<Rightarrow> v | None \<Rightarrow> [])"

definition to_int :: "string \<Rightarrow> string \<Rightarrow> string + int" where
  "to_int v name =
     (case stoi v of
        Some i \<Rightarrow> Inr i
      | None \<Rightarrow> Inl (''Config: env var '' @ name @ '' has non-integer value '' @ [CHR 0x22] @ v @ [CHR 0x22]))"

definition env_text :: "environment \<Rightarrow> string \<Rightarrow> (string \<Rightarrow> Config \<Rightarrow> Config) \<Rightarrow> Config \<Rightarrow> string + Config" where
  "env_text env name upd cfg =
     (let v = env_get env name in Inr (if v \<noteq> [] then upd v cfg else cfg))"

definition env_flag :: "environment \<Rightarrow> string \<Rightarrow> (bool \<Rightarrow> Config \<Rightarrow> Config) \<Rightarrow> Config \<Rightarrow> string + Config" where
  "env_flag env name upd cfg =
     (let v = env_get env name in Inr (if v \<noteq> [] then upd (v = ''true'' \<or> v = ''1'') cfg else cfg))"

definition env_int :: "environment \<Rightarrow> string \<Rightarrow> (int \<Rightarrow> Config \<Rightarrow> Config) \<Rightarrow> Config \<Rightarrow> string + Config" where
  "env_int env name upd cfg =
     (let v = env_get env name
      in if v = [] then Inr cfg
         else case to_int v name of Inl e \<Rightarrow> Inl e | Inr i \<Rightarrow> Inr (upd i cfg))"

definition from_env :: "environment \<Rightarrow> Config \<Rightarrow> string + Config" where
  "from_env env = steps
     [env_text env ''LOOMIC_BIND_ADDRESS'' (\<lambda>v c. c\<lparr>bind_address := v\<rparr>),
      env_int env ''LOOMIC_PORT'' (\<lambda>i c. c\<lparr>port := of_int i\<rparr>),
      env_int env ''LOOMIC_HTTP_HEALTH_PORT'' (\<lambda>i c. c\<lparr>http_health_port := of_int i\<rparr>),
      env_int env ''LOOMIC_THREAD_COUNT'' (\<lambda>i c. c\<lparr>thread_count := of_int i\<rparr>),
      env_text env ''LOOMIC_TLS_CERT_PATH'' (\<lambda>v c. c\<lparr>tls_cert_path := v\<rparr>),
      env_text env ''LOOMIC_TLS_KEY_PATH'' (\<lambda>v c. c\<lparr>tls_key_path := v\<rparr>),
      env_text env ''LOOMIC_PG_CONN_STRING'' (\<lambda>v c. c\<lparr>pg_conn_string := v\<rparr>),
      env_text env ''LOOMIC_JWT_SECRET'' (\<lambda>v c. c\<lparr>jwt_secret := v\<rparr>),
      env_text env ''LOOMIC_LOG_LEVEL'' (\<lambda>v c. c\<lparr>log_level := v\<rparr>),
      env_text env ''LOOMIC_LOG_FILE'' (\<lambda>v c. c\<lparr>log_file := v\<rparr>),
      env_text env ''LOOMIC_REDIS_HOST'' (\<lambda>v c. c\<lparr>redis_host := v\<rparr>),
      env_int env ''LOOMIC_REDIS_PORT'' (\<lambda>i c. c\<lparr>redis_port := of_int i\<rparr>),
      env_text env ''LOOMIC_REDIS_PASSWORD'' (\<lambda>v c. c\<lparr>redis_password := v\<rparr>),
      env_flag env ''LOOMIC_REDIS_SSL'' (\<lambda>b c. c\<lparr>redis_ssl := b\<rparr>),
      env_int env ''LOOMIC_METRICS_PORT'' (\<lambda>i c. c\<lparr>metrics_port := of_int i\<rparr>),
      env_text env ''LOOMIC_CASSANDRA_CONTACT_POINTS'' (\<lambda>v c. c\<lparr>cassandra_contact_points := v\<rparr>),
      env_int env ''LOOMIC_CASSANDRA_PORT'' (\<lambda>i c. c\<lparr>cassandra_port := of_int i\<rparr>),
      env_text env ''LOOMIC_CASSANDRA_USERNAME'' (\<lambda>v c. c\<lparr>cassandra_username := v\<rparr>),
      env_text env ''LOOMIC_CASSANDRA_PASSWORD'' (\<lambda>v c. c\<lparr>cassandra_password := v\<rparr>),
      env_text env ''LOOMIC_CASSANDRA_KEYSPACE'' (\<lambda>v c. c\<lparr>cassandra_keyspace := v\<rparr>),
      env_flag env ''LOOMIC_CASSANDRA_SSL'' (\<lambda>b c. c\<lparr>cassandra_ssl := b\<rparr>),
      env_text env ''LOOMIC_CASSANDRA_CA_CERT'' (\<lambda>v c. c\<lparr>cassandra_ca_cert := v\<rparr>),
      env_text env ''LOOMIC_AZURE_STORAGE_ACCOUNT'' (\<lambda>v c. c\<lparr>azure_storage_account := v\<rparr>),
      env_text env ''LOOMIC_AZURE_STORAGE_KEY'' (\<lambda>v c. c\<lparr>azure_storage_key := v\<rparr>),
      env_text env ''LOOMIC_AZURE_CONTAINER'' (\<lambda>v c. c\<lparr>azure_container := v\<rparr>),
      env_int env ''LOOMIC_AZURE_SAS_TTL_MINUTES'' (\<lambda>i c. c\<lparr>azure_sas_ttl_min := i\<rparr>)]"

section \<open>load_dotenv\<close>

text \<open>\<open>std::getline\<close>: the pieces between newlines, without an empty last one.\<close>

function lines :: "string \<Rightarrow> string list" where
  "lines s =
     (if s = [] then []
      else case find_index (\<lambda>c. c = CHR 0x0A) s of
        None \<Rightarrow> [s]
      | Some i \<Rightarrow> take i s # lines (drop (i + 1) s))"
  by pat_completeness auto

termination
  by (relation "measure length") auto

declare lines.simps [simp del]

definition blank :: "char \<Rightarrow> bool" where
  "blank c \<longleftrightarrow> c = CHR '' '' \<or> c = CHR 0x09"

definition ltrim :: "string \<Rightarrow> string" where
  "ltrim s = dropWhile blank s"

text \<open>Nothing is erased when every character is blank.\<close>

definition rtrim :: "string \<Rightarrow> string" where
  "rtrim s = (if \<forall>c \<in> set s. blank c then s else rev (dropWhile blank (rev s)))"

definition unquote :: "string \<Rightarrow> string" where
  "unquote v =
     (if length v \<ge> 2 \<and> (hd v = CHR 0x22 \<and> last v = CHR 0x22 \<or> hd v = CHR 0x27 \<and> last v = CHR 0x27)
      then substr v 1 (length v - 2) else v)"

definition c_str :: "string \<Rightarrow> string" where
  "c_str s = takeWhile (\<lambda>c. c \<noteq> CHR 0x00) s"

text \<open>\<open>setenv(name, value, 0)\<close>, which refuses an empty name.\<close>

definition setenv :: "string \<Rightarrow> string \<Rightarrow> environment \<Rightarrow> environment" where
  "setenv key val env =
     (if c_str key = [] \<or> env (c_str key) \<noteq> None then env else env(c_str key \<mapsto> c_str val))"

definition dotenv_line :: "string \<Rightarrow> environment \<Rightarrow> environment" where
  "dotenv_line line env =
     (let line = (if line \<noteq> [] \<and> last line = CHR 0x0D then butlast line else line)
      in if line = [] \<or> hd line = CHR ''#'' then env
         else case find_index (\<lambda>c. c = CHR ''='') line of
           None \<Rightarrow> env
         | Some eq \<Rightarrow>
             (let key = rtrim (ltrim (take eq line));
                  val = unquote (rtrim (ltrim (drop (eq + 1) line)))
              in if key = [] then env else setenv key val env))"

definition load_dotenv :: "string option \<Rightarrow> environment \<Rightarrow> environment" where
  "load_dotenv contents env =
     (case contents of None \<Rightarrow> env | Some txt \<Rightarrow> foldl (\<lambda>env line. dotenv_line line env) env (lines txt))"

section \<open>main\<close>

fun config_path :: "string list \<Rightarrow> string \<Rightarrow> string" where
  "config_path (a # b # args) path = config_path (b # args) (if a = ''--config'' then b else path)"
| "config_path _ path = path"

text \<open>\<open>args\<close> are the arguments after the program's name; \<open>files\<close> the file system.\<close>

definition startup ::
  "config_lib \<Rightarrow> (string \<rightharpoonup> string) \<Rightarrow> string list \<Rightarrow> environment \<Rightarrow> string + Config" where
  "startup L files args env =
     (let path = config_path args ''config/server.json'';
          env = load_dotenv (files ''.env'') env
      in case from_file L path (files path) of Inl e \<Rightarrow> Inl e | Inr cfg \<Rightarrow> from_env env cfg)"

text \<open>What \<open>Server::Server\<close> and \<open>Server::register_routes\<close> take from the configuration.\<close>

definition server_threads :: "nat \<Rightarrow> Config \<Rightarrow> nat" where
  "server_threads hardware_concurrency cfg =
     (if thread_count cfg = 0 then max 1 hardware_concurrency else unat (thread_count cfg))"

definition configured :: "string \<Rightarrow> Config \<Rightarrow> ('r, 'c) env \<Rightarrow> ('r, 'c) env" where
  "configured host_name cfg E = E
     \<lparr>e_secret := jwt_secret cfg,
      e_server_id := host_name @ '':'' @ string_of_nat (unat (port cfg)),
      e_ws_server_id := host_name @ '':ws'',
      e_blob := (e_blob E)\<lparr>bl_account := azure_storage_account cfg, bl_key := azure_storage_key cfg,
        bl_container := azure_container cfg, bl_sas_ttl_minutes := azure_sas_ttl_min cfg\<rparr>\<rparr>"

section \<open>Settings\<close>

text \<open>The step \<open>g\<close> acts on the field \<open>f\<close> by \<open>F\<close>.\<close>

definition sets :: "('a \<Rightarrow> 'b) \<Rightarrow> ('a \<Rightarrow> 'e + 'a) \<Rightarrow> ('b \<Rightarrow> 'b) \<Rightarrow> bool" where
  "sets f g F \<longleftrightarrow> (\<forall>c c'. g c = Inr c' \<longrightarrow> f c' = F (f c))"

lemma steps_sets: "list_all2 (sets f) gs Fs \<Longrightarrow> steps gs c = Inr c' \<Longrightarrow> f c' = foldl (\<lambda>x F. F x) (f c) Fs"
  by (induction arbitrary: c rule: list_all2_induct) (auto simp: sets_def split: sum.splits)

lemma sets_env:
  "(\<And>v c. f (upd v c) = v) \<Longrightarrow> sets f (env_text env n upd) (\<lambda>x. if env_get env n = [] then x else env_get env n)"
  "(\<And>v c. g (upd v c) = g c) \<Longrightarrow> sets g (env_text env n upd) (\<lambda>x. x)"
  "(\<And>b c. g (updb b c) = g c) \<Longrightarrow> sets g (env_flag env n updb) (\<lambda>x. x)"
  "(\<And>i c. g (updi i c) = g c) \<Longrightarrow> sets g (env_int env n updi) (\<lambda>x. x)"
  "(\<And>b c. h (updb b c) = b) \<Longrightarrow> sets h (env_flag env n updb)
     (\<lambda>x. if env_get env n = [] then x else env_get env n = ''true'' \<or> env_get env n = ''1'')"
  by (auto simp: sets_def env_text_def env_flag_def env_int_def Let_def split: sum.splits if_splits)

lemma sets_read:
  "(\<And>v c. f (upd v c) = f c) \<Longrightarrow> sets f (read_key L j key get upd) (\<lambda>x. x)"
  "(\<And>v c. f (updr v c) = f c) \<Longrightarrow> sets f (read_required L j key updr) (\<lambda>x. x)"
  "(\<And>v c. g (updr v c) = v) \<Longrightarrow> sets g (read_required L j key updr) (\<lambda>x. case cl_at L j key of JStr s \<Rightarrow> s | _ \<Rightarrow> [])"
  by (auto simp: sets_def read_key_def read_required_def get_str_def Let_def split: sum.splits if_splits option.splits json.splits)

text \<open>The settings that are texts, with the environment variable of each.\<close>

definition text_settings :: "(string \<times> (Config \<Rightarrow> string)) list" where
  "text_settings =
     [(''LOOMIC_BIND_ADDRESS'', bind_address), (''LOOMIC_TLS_CERT_PATH'', tls_cert_path), (''LOOMIC_TLS_KEY_PATH'', tls_key_path),
      (''LOOMIC_PG_CONN_STRING'', pg_conn_string), (''LOOMIC_JWT_SECRET'', jwt_secret), (''LOOMIC_LOG_LEVEL'', log_level),
      (''LOOMIC_LOG_FILE'', log_file), (''LOOMIC_REDIS_HOST'', redis_host), (''LOOMIC_REDIS_PASSWORD'', redis_password),
      (''LOOMIC_CASSANDRA_CONTACT_POINTS'', cassandra_contact_points), (''LOOMIC_CASSANDRA_USERNAME'', cassandra_username),
      (''LOOMIC_CASSANDRA_PASSWORD'', cassandra_password), (''LOOMIC_CASSANDRA_KEYSPACE'', cassandra_keyspace),
      (''LOOMIC_CASSANDRA_CA_CERT'', cassandra_ca_cert), (''LOOMIC_AZURE_STORAGE_ACCOUNT'', azure_storage_account),
      (''LOOMIC_AZURE_STORAGE_KEY'', azure_storage_key), (''LOOMIC_AZURE_CONTAINER'', azure_container)]"

lemma from_env_text:
  assumes "from_env env c = Inr c'" "(n, f) \<in> set text_settings"
  shows "f c' = (if env_get env n = [] then f c else env_get env n)"
proof -
  note s = steps_sets [OF _ assms(1) [unfolded from_env_def]]
  have "\<forall>(n, f) \<in> set text_settings. f c' = (if env_get env n = [] then f c else env_get env n)"
    unfolding text_settings_def list.set ball_simps prod.case
    by (intro conjI; (rule TrueI | (rule trans, rule s, (rule list.rel_intros | (rule sets_env, fastforce))+, simp)))
  with assms(2) show ?thesis by blast
qed

lemma from_env_redis_ssl:
  assumes "from_env env c = Inr c'"
  shows "redis_ssl c' = (if env_get env ''LOOMIC_REDIS_SSL'' = [] then redis_ssl c
    else env_get env ''LOOMIC_REDIS_SSL'' = ''true'' \<or> env_get env ''LOOMIC_REDIS_SSL'' = ''1'')"
  by (rule trans, rule steps_sets [OF _ assms [unfolded from_env_def]],
      (rule list.rel_intros | (rule sets_env, fastforce))+, simp)

lemma from_json_required:
  assumes "from_json L j = Inr c"
  shows "jwt_secret c \<noteq> [] \<and> pg_conn_string c \<noteq> []"
proof -
  have r: "sets (\<lambda>c. g c \<noteq> []) (read_required L j key updr) (\<lambda>_. True)" if "\<And>v c. g (updr v c) = v" for g :: "Config \<Rightarrow> string" and key updr
    using that by (auto simp: sets_def read_required_def get_str_def Let_def split: if_splits option.splits)
  note s = steps_sets [OF _ assms [unfolded from_json_def]]
  have "(\<lambda>c. jwt_secret c \<noteq> []) c = True"
    by (rule trans, rule s, (rule list.rel_intros | (rule r, fastforce) | (rule sets_read(1,2), fastforce))+, simp)
  moreover have "(\<lambda>c. pg_conn_string c \<noteq> []) c = True"
    by (rule trans, rule s, (rule list.rel_intros | (rule r, fastforce) | (rule sets_read(1,2), fastforce))+, simp)
  ultimately show ?thesis by simp
qed

text \<open>What the JSON library documents of the conversions that the configuration uses.\<close>

locale config_library =
  fixes L :: config_lib
  assumes contains_obj: "cl_contains L (JObj kv) k \<longleftrightarrow> map_of kv k \<noteq> None"
    and at_obj: "map_of kv k = Some v \<Longrightarrow> cl_at L (JObj kv) k = v"
    and u16_int: "cl_u16 L (JInt i) = Some (of_int i)"
    and u32_int: "cl_u32 L (JInt i) = Some (of_int i)"
begin

lemma read_obj:
  "read_key L (JObj kv) key get upd cfg =
     (case map_of kv key of None \<Rightarrow> Inr cfg
      | Some j \<Rightarrow> (case get j of None \<Rightarrow> Inl ''json'' | Some v \<Rightarrow> Inr (upd v cfg)))"
  by (cases "map_of kv key") (simp_all add: read_key_def contains_obj at_obj)

lemma required_obj:
  "map_of kv key = Some (JStr s) \<Longrightarrow> s \<noteq> [] \<Longrightarrow> read_required L (JObj kv) key upd cfg = Inr (upd s cfg)"
  by (simp add: read_required_def contains_obj at_obj get_str_def)

end

definition ref_config :: "(string \<Rightarrow> json option) \<Rightarrow> config_lib" where
  "ref_config parse = \<lparr>cl_parse = parse,
     cl_contains = (\<lambda>j k. case j of JObj kv \<Rightarrow> map_of kv k \<noteq> None | _ \<Rightarrow> False),
     cl_at = (\<lambda>j k. case j of JObj kv \<Rightarrow> (case map_of kv k of Some v \<Rightarrow> v | None \<Rightarrow> JNull) | _ \<Rightarrow> JNull),
     cl_u16 = (\<lambda>j. case j of JInt i \<Rightarrow> Some (of_int i) | JBool b \<Rightarrow> Some (if b then 1 else 0) | _ \<Rightarrow> None),
     cl_u32 = (\<lambda>j. case j of JInt i \<Rightarrow> Some (of_int i) | JBool b \<Rightarrow> Some (if b then 1 else 0) | _ \<Rightarrow> None)\<rparr>"

interpretation ref_cl: config_library "ref_config parse"
  for parse
  by unfold_locales (simp_all add: ref_config_def)

section \<open>The environment after load_dotenv\<close>

lemma setenv_get: "setenv k v env n = (case env n of Some x \<Rightarrow> Some x | None \<Rightarrow> setenv k v Map.empty n)"
  by (auto simp: setenv_def split: option.splits)

lemma dotenv_line_get: "dotenv_line line env n = (case env n of Some v \<Rightarrow> Some v | None \<Rightarrow> dotenv_line line Map.empty n)"
  by (cases "env n") (auto simp: dotenv_line_def Let_def setenv_get [of _ _ env] split: option.splits)

lemma load_dotenv_get: "load_dotenv c env n = (case env n of Some v \<Rightarrow> Some v | None \<Rightarrow> load_dotenv c Map.empty n)"
proof -
  have f: "foldl (\<lambda>env line. dotenv_line line env) e ls n =
      (case e n of Some v \<Rightarrow> Some v | None \<Rightarrow> foldl (\<lambda>env line. dotenv_line line env) Map.empty ls n)" for e ls
  proof (induction ls arbitrary: e)
    case (Cons l ls)
    show ?case
      by (simp add: Cons.IH [of "dotenv_line l e"] Cons.IH [of "dotenv_line l Map.empty"] dotenv_line_get [of l e]
          split: option.splits)
  qed (simp split: option.splits)
  show ?thesis by (cases c) (simp_all add: load_dotenv_def f [of env] split: option.splits)
qed

section \<open>Lines of a .env file\<close>

lemma lines_cons: "\<forall>c \<in> set l. c \<noteq> CHR 0x0A \<Longrightarrow> lines (l @ CHR 0x0A # rest) = l # lines rest"
  by (subst lines.simps) (simp add: find_index_append)

lemma dropWhile_hd: "s \<noteq> [] \<Longrightarrow> \<not> P (hd s) \<Longrightarrow> dropWhile P s = s"
  by (cases s) simp_all

lemma trim_id: "s \<noteq> [] \<Longrightarrow> \<not> blank (hd s) \<Longrightarrow> \<not> blank (last s) \<Longrightarrow> rtrim (ltrim s) = s"
  using dropWhile_hd [of s blank] dropWhile_hd [of "rev s" blank] by (simp add: rtrim_def ltrim_def hd_rev)

text \<open>The line \<open>key="value"\<close>; keys that such a line can carry, and values without newline or NUL.\<close>

definition dotenv_entry :: "string \<times> string \<Rightarrow> string" where
  "dotenv_entry kv = fst kv @ ''='' @ [CHR 0x22] @ snd kv @ [CHR 0x22, CHR 0x0A]"

definition dotenv_key :: "string \<Rightarrow> bool" where
  "dotenv_key k \<longleftrightarrow> k \<noteq> [] \<and> hd k \<noteq> CHR ''#'' \<and> \<not> blank (hd k) \<and> \<not> blank (last k) \<and>
     set k \<inter> {CHR ''='', CHR 0x0A, CHR 0x00} = {}"

definition dotenv_value :: "string \<Rightarrow> bool" where
  "dotenv_value v \<longleftrightarrow> set v \<inter> {CHR 0x0A, CHR 0x00} = {}"

lemma c_str_id: "CHR 0x00 \<notin> set s \<Longrightarrow> c_str s = s"
  by (auto simp: c_str_def takeWhile_eq_all_conv)

lemma dotenv_line_entry:
  assumes "dotenv_key k" "dotenv_value v"
  shows "dotenv_line (k @ ''='' @ [CHR 0x22] @ v @ [CHR 0x22]) env = (if env k = None then env(k \<mapsto> v) else env)"
proof -
  let ?q = "[CHR 0x22] @ v @ [CHR 0x22]"
  have k: "k \<noteq> []" "hd k \<noteq> CHR ''#''" "c_str k = k" "rtrim (ltrim k) = k"
    using assms(1) by (auto simp: dotenv_key_def intro: c_str_id trim_id)
  have f: "find_index (\<lambda>c. c = CHR ''='') (k @ CHR ''='' # ?q) = Some (length k)"
    using assms(1) by (subst find_index_append) (auto simp: dotenv_key_def)
  have q: "rtrim (ltrim ?q) = ?q" by (rule trim_id) (simp_all add: blank_def)
  have u: "unquote ?q = v" by (simp add: unquote_def substr_def)
  have "c_str v = v" using assms(2) by (intro c_str_id) (auto simp: dotenv_value_def)
  with k f q u show ?thesis by (auto simp: dotenv_line_def Let_def setenv_def)
qed

lemma lines_entries:
  assumes "\<forall>(k, v) \<in> set kvs. dotenv_key k \<and> dotenv_value v"
  shows "lines (concat (map dotenv_entry kvs)) = map (\<lambda>(k, v). k @ ''='' @ [CHR 0x22] @ v @ [CHR 0x22]) kvs"
  using assms
proof (induction kvs)
  case (Cons p kvs)
  obtain k v where p: "p = (k, v)" by (cases p)
  have "\<forall>c \<in> set (k @ ''='' @ [CHR 0x22] @ v @ [CHR 0x22]). c \<noteq> CHR 0x0A"
    using Cons.prems by (auto simp: p dotenv_key_def dotenv_value_def)
  from lines_cons [OF this] Cons show ?case by (simp add: p dotenv_entry_def)
qed (simp add: lines.simps)

section \<open>Examples\<close>

text \<open>The file \<open>src/server/config/server.json\<close> and a line of \<open>src/server/.env.example\<close>.\<close>

definition shipped_json :: json where
  "shipped_json = JObj
     [(''bind_address'', JStr ''0.0.0.0''), (''port'', JInt 7777), (''http_health_port'', JInt 8080), (''thread_count'', JInt 0),
      (''tls_cert_path'', JStr ''certs/server.crt''), (''tls_key_path'', JStr ''certs/server.key''),
      (''cassandra_contact_points'', JStr ''127.0.0.1''), (''pg_conn_string'', JStr ''SET_VIA_ENV''),
      (''redis_host'', JStr ''127.0.0.1''), (''redis_port'', JInt 6379), (''jwt_secret'', JStr ''SET_VIA_ENV''),
      (''log_level'', JStr ''info''), (''log_file'', JStr ''logs/server.log''), (''metrics_port'', JInt 9090)]"

definition template_line :: string where
  "template_line = ''LOOMIC_REDIS_SSL=true               # set true for Redis Cloud (rediss://)''"

lemma env_get_empty [simp]: "env_get Map.empty n = []"
  by (simp add: env_get_def)

lemma from_env_empty: "from_env Map.empty c = Inr c"
  by (simp add: from_env_def env_text_def env_flag_def env_int_def)

lemma shipped_loads:
  assumes "config_library L"
  shows "\<exists>cfg. from_json L shipped_json = Inr cfg \<and> jwt_secret cfg = ''SET_VIA_ENV''"
proof -
  note r = config_library.read_obj [OF assms] config_library.required_obj [OF assms]
  show ?thesis
    unfolding from_json_def shipped_json_def
    by (simp add: r config_library.u16_int [OF assms] config_library.u32_int [OF assms] get_str_def)
qed

lemma load_entries:
  assumes "\<forall>(k, v) \<in> set kvs. dotenv_key k \<and> dotenv_value v"
  shows "foldl (\<lambda>env line. dotenv_line line env) env (map (\<lambda>(k, v). k @ ''='' @ [CHR 0x22] @ v @ [CHR 0x22]) kvs) = map_of kvs ++ env"
  using assms
proof (induction kvs arbitrary: env)
  case (Cons p kvs)
  obtain k v where p: "p = (k, v)" by (cases p)
  have "dotenv_line (k @ ''='' @ [CHR 0x22] @ v @ [CHR 0x22]) env = (if env k = None then env(k \<mapsto> v) else env)"
    using Cons.prems by (intro dotenv_line_entry) (auto simp: p)
  with Cons show ?case by (auto simp: p map_add_def fun_eq_iff split: option.splits)
qed simp

lemma template_env:
  "load_dotenv (Some template_line) Map.empty = [''LOOMIC_REDIS_SSL'' \<mapsto> ''true               # set true for Redis Cloud (rediss://)'']"
proof -
  have "lines template_line = [template_line]" by (simp add: lines.simps template_line_def)
  then show ?thesis
    by (simp add: load_dotenv_def dotenv_line_def template_line_def ltrim_def rtrim_def blank_def unquote_def setenv_def c_str_def)
qed

lemma startup_secret:
  assumes "startup L files args env = Inr cfg"
  shows "jwt_secret cfg \<noteq> []" "pg_conn_string cfg \<noteq> []"
proof -
  let ?p = "config_path args ''config/server.json''" and ?env = "load_dotenv (files ''.env'') env"
  obtain c where c: "from_file L ?p (files ?p) = Inr c" "from_env ?env c = Inr cfg"
    using assms by (auto simp: startup_def Let_def split: sum.splits)
  have "jwt_secret c \<noteq> [] \<and> pg_conn_string c \<noteq> []"
    using c(1) from_json_required by (auto simp: from_file_def split: option.splits)
  moreover have "jwt_secret cfg = (if env_get ?env ''LOOMIC_JWT_SECRET'' = [] then jwt_secret c else env_get ?env ''LOOMIC_JWT_SECRET'')"
    "pg_conn_string cfg = (if env_get ?env ''LOOMIC_PG_CONN_STRING'' = [] then pg_conn_string c else env_get ?env ''LOOMIC_PG_CONN_STRING'')"
    by (rule from_env_text [OF c(2)], simp add: text_settings_def)+
  ultimately show "jwt_secret cfg \<noteq> []" "pg_conn_string cfg \<noteq> []" by simp_all
qed

section \<open>Properties\<close>



text \<open>C37. A \<open>.env\<close> file whose lines are \<open>key="value"\<close> is read back exactly: every value without newline or NUL, whatever
  quotes, blanks, hashes or equals signs it contains, becomes the variable's value; the first line for a key
  counts, and a variable that the process already has is never changed.\<close>

theorem dotenv_roundtrip:
  assumes "\<forall>(k, v) \<in> set kvs. dotenv_key k \<and> dotenv_value v"
  shows "load_dotenv (Some (concat (map dotenv_entry kvs))) env n = (case env n of Some v \<Rightarrow> Some v | None \<Rightarrow> map_of kvs n)"
  using load_entries [OF assms, of env] lines_entries [OF assms] by (auto simp: load_dotenv_def map_add_def split: option.splits)

theorem dotenv_roundtrip_witness:
  "load_dotenv (Some (concat (map dotenv_entry [(''A'', ''x # y = '' @ [CHR 0x22]), (''A'', ''z'')]))) Map.empty ''A'' =
     Some (''x # y = '' @ [CHR 0x22])"
  using dotenv_roundtrip [of "[(''A'', ''x # y = '' @ [CHR 0x22]), (''A'', ''z'')]" Map.empty "''A''"]
  by (simp add: dotenv_key_def dotenv_value_def blank_def)

text \<open>The documentation asks for the secret in the environment, but the check for a missing secret never fires with
  the configuration file of the repository, whose placeholder is a text like any other: the server starts, and
  anyone who knows the placeholder can make a token that authenticates as any user.\<close>

theorem shipped_secret_forges:
  assumes "config_library L" and "files ''config/server.json'' = Some txt" "cl_parse L txt = Some shipped_json"
    and "files ''.env'' = None" and "jwt_library (e_jwt E)"
    and "jwt_issue (e_jwt E) ''SET_VIA_ENV'' uid ttl t0 \<noteq> []" "sint now div 1000 \<le> (sint t0 + ttl * 1000) div 1000"
  shows "\<exists>cfg. startup L files [] Map.empty = Inr cfg \<and>
    require_auth (e_jwt (configured host cfg E)) (e_secret (configured host cfg E)) now
      (''Bearer '' @ jwt_issue (e_jwt E) ''SET_VIA_ENV'' uid ttl t0) = Some uid"
proof -
  obtain c where c: "from_json L shipped_json = Inr c" "jwt_secret c = ''SET_VIA_ENV''"
    using shipped_loads [OF assms(1)] by blast
  have "startup L files [] Map.empty = Inr c"
    using assms(2-4) c(1) by (simp add: startup_def from_file_def load_dotenv_def from_env_empty)
  moreover have "require_auth (e_jwt (configured host c E)) (e_secret (configured host c E)) now
      (''Bearer '' @ jwt_issue (e_jwt E) ''SET_VIA_ENV'' uid ttl t0) = Some uid"
    using assms(6,7) c(2)
    by (simp add: configured_def require_auth_def Let_def jwt_library.verify_issue [OF assms(5)])
  ultimately show ?thesis by blast
qed

theorem shipped_secret_forges_witness:
  "\<exists>cfg. startup (ref_config (\<lambda>_. Some shipped_json)) [''config/server.json'' \<mapsto> ''{}''] [] Map.empty = Inr cfg \<and>
     require_auth ref_jwt (e_secret (configured ''h'' cfg (demo_env\<lparr>e_jwt := ref_jwt\<rparr>))) 5000
       (''Bearer '' @ jwt_issue ref_jwt ''SET_VIA_ENV'' 42 86400 1000) = Some 42"
  using shipped_secret_forges [of "ref_config (\<lambda>_. Some shipped_json)" "[''config/server.json'' \<mapsto> ''{}'']" "''{}''"
      "demo_env\<lparr>e_jwt := ref_jwt\<rparr>" 42 86400 1000 5000 "''h''"] ref_cl.config_library_axioms ref_jw.jwt_library_axioms
  by (auto simp: ref_config_def configured_def jwt_issue_def ref_jwt_def tok_def)

text \<open>The template of the repository writes a comment after a value; \<open>load_dotenv\<close> keeps it as part of the value, so that the
  line that asks for TLS to Redis turns it off.\<close>

theorem template_disables_tls:
  assumes "env ''LOOMIC_REDIS_SSL'' = None" and "from_env (load_dotenv (Some template_line) env) cfg = Inr cfg'"
  shows "\<not> redis_ssl cfg'"
  using from_env_redis_ssl [OF assms(2)]
  by (simp add: env_get_def load_dotenv_get [of _ env] assms(1) template_env)

theorem template_disables_tls_witness:
  "\<exists>cfg'. from_env (load_dotenv (Some template_line) Map.empty) Config_init = Inr cfg' \<and> \<not> redis_ssl cfg'"
proof -
  obtain cfg' where "from_env (load_dotenv (Some template_line) Map.empty) Config_init = Inr cfg'"
    by (simp add: template_env from_env_def env_text_def env_flag_def env_int_def env_get_def Let_def)
  then show ?thesis using template_disables_tls [of Map.empty] by blast
qed

end
