(* ===== verification/Metrics.thy ===== *)
theory Metrics
  imports Http_Server
begin

text \<open>
  \<open>src/server/src/metrics/MetricsRegistry.cpp\<close>: the singleton around the Prometheus library.  The library is a
  parameter: a registry of metrics in which families are registered by name, metrics are added to a family by their
  labels, and references to metrics are counted up; the locale \<open>prometheus\<close> states what its documentation
  promises, in particular that adding the same labels twice gives the same metric.  The singleton pointer is an
  option (\<open>None\<close> before \<open>init\<close>); the mutex makes \<open>http_requests_total\<close> atomic.  The model of the server keeps the
  number of requests in \<open>w_http_total\<close>; the theorem at the end shows that the registry exposes that number.
\<close>

section \<open>Data\<close>

datatype metric_type = CounterType | GaugeType | HistogramType

type_synonym labels = "(string \<times> string) list"

text \<open>Families and metrics are references.  \<open>pl_exposer\<close>: whether the exposer can listen on an address.\<close>

record 'p prom_lib =
  pl_new :: 'p
  pl_register :: "'p \<Rightarrow> metric_type \<Rightarrow> string \<Rightarrow> nat \<times> 'p"
  pl_add :: "'p \<Rightarrow> nat \<Rightarrow> labels \<Rightarrow> rat list \<Rightarrow> nat \<times> 'p"
  pl_inc :: "'p \<Rightarrow> nat \<Rightarrow> 'p"
  pl_exposer :: "string \<Rightarrow> bool"

record 'p MetricsRegistry =
  mr_registry :: 'p
  mr_exposer :: bool
  mr_messages_family :: nat
  mr_messages_counter :: nat
  mr_http_req_family :: nat
  mr_http_req_cache :: "string \<rightharpoonup> nat"
  mr_active_sess_family :: nat
  mr_active_sess :: nat
  mr_active_conn_family :: nat
  mr_active_conn :: nat
  mr_msg_lat_family :: nat
  mr_msg_lat :: nat
  mr_http_lat_family :: nat
  mr_http_lat :: nat

section \<open>Operations\<close>

text \<open>\<open>MetricsRegistry::init\<close>; a failure of the exposer is caught.\<close>

definition metrics_init :: "'p prom_lib \<Rightarrow> nat \<Rightarrow> 'p MetricsRegistry option \<Rightarrow> 'p MetricsRegistry option" where
  "metrics_init L port s_instance =
     (case s_instance of
        Some m \<Rightarrow> Some m
      | None \<Rightarrow>
          (let p = pl_new L;
               (messages_family, p) = pl_register L p CounterType ''loomic_messages_total'';
               (messages_counter, p) = pl_add L p messages_family [] [];
               (http_req_family, p) = pl_register L p CounterType ''loomic_http_requests_total'';
               (active_sess_family, p) = pl_register L p GaugeType ''loomic_active_sessions'';
               (active_sess, p) = pl_add L p active_sess_family [] [];
               (active_conn_family, p) = pl_register L p GaugeType ''loomic_active_connections'';
               (active_conn, p) = pl_add L p active_conn_family [] [];
               (msg_lat_family, p) = pl_register L p HistogramType ''loomic_message_latency_ms'';
               (msg_lat, p) = pl_add L p msg_lat_family [] [1/10, 1, 5, 10, 50, 100];
               (http_lat_family, p) = pl_register L p HistogramType ''loomic_http_latency_ms'';
               (http_lat, p) = pl_add L p http_lat_family [] [1, 5, 10, 25, 50, 100, 250]
           in Some \<lparr>mr_registry = p,
                mr_exposer = (port > 0 \<and> pl_exposer L (''0.0.0.0:'' @ string_of_nat port)),
                mr_messages_family = messages_family, mr_messages_counter = messages_counter,
                mr_http_req_family = http_req_family, mr_http_req_cache = Map.empty,
                mr_active_sess_family = active_sess_family, mr_active_sess = active_sess,
                mr_active_conn_family = active_conn_family, mr_active_conn = active_conn,
                mr_msg_lat_family = msg_lat_family, mr_msg_lat = msg_lat,
                mr_http_lat_family = http_lat_family, mr_http_lat = http_lat\<rparr>))"

definition metrics_get :: "'p MetricsRegistry option \<Rightarrow> string + 'p MetricsRegistry" where
  "metrics_get s_instance =
     (case s_instance of
        None \<Rightarrow> Inl ''MetricsRegistry::init() must be called before get()''
      | Some m \<Rightarrow> Inr m)"

definition http_requests_total ::
  "'p prom_lib \<Rightarrow> string \<Rightarrow> string \<Rightarrow> 'p MetricsRegistry \<Rightarrow> nat \<times> 'p MetricsRegistry" where
  "http_requests_total L method status m =
     (let key = method @ '':'' @ status
      in case mr_http_req_cache m key of
           Some counter \<Rightarrow> (counter, m)
         | None \<Rightarrow>
             (let (counter, p) = pl_add L (mr_registry m) (mr_http_req_family m)
                    [(''method'', method), (''status'', status)] []
              in (counter, m\<lparr>mr_registry := p, mr_http_req_cache := (mr_http_req_cache m)(key \<mapsto> counter)\<rparr>)))"

text \<open>What \<open>HttpServer::handle_connection\<close> does after a request; the exception of \<open>get\<close> is caught.\<close>

definition record_request ::
  "'p prom_lib \<Rightarrow> verb \<Rightarrow> nat \<Rightarrow> 'p MetricsRegistry option \<Rightarrow> 'p MetricsRegistry option" where
  "record_request L v status s_instance =
     (case metrics_get s_instance of
        Inl _ \<Rightarrow> s_instance
      | Inr m \<Rightarrow>
          (let (counter, m) = http_requests_total L (verb_string v) (string_of_nat status) m
           in Some (m\<lparr>mr_registry := pl_inc L (mr_registry m) counter\<rparr>)))"

section \<open>What the library promises\<close>

text \<open>\<open>family p f n\<close>: \<open>f\<close> refers to the family with name \<open>n\<close>; \<open>metric p r n l\<close>: \<open>r\<close> refers to the metric of that family
  with the labels \<open>l\<close>; \<open>exposed p n l\<close>: its value, 0 if there is none.\<close>

locale prometheus =
  fixes L :: "'p prom_lib"
    and family :: "'p \<Rightarrow> nat \<Rightarrow> string \<Rightarrow> bool"
    and metric :: "'p \<Rightarrow> nat \<Rightarrow> string \<Rightarrow> labels \<Rightarrow> bool"
    and exposed :: "'p \<Rightarrow> string \<Rightarrow> labels \<Rightarrow> nat"
  assumes new_exposed: "exposed (pl_new L) n l = 0"
    and register_family: "pl_register L p ty n = (f, q) \<Longrightarrow> family q f n"
    and register_keeps: "pl_register L p ty n = (f, q) \<Longrightarrow>
      exposed q = exposed p \<and> (\<forall>g n'. family p g n' \<longrightarrow> family q g n') \<and> (\<forall>r n' l. metric p r n' l \<longrightarrow> metric q r n' l)"
    and add_metric: "pl_add L p f l bs = (r, q) \<Longrightarrow> family p f n \<Longrightarrow> metric q r n l"
    and add_keeps: "pl_add L p f l bs = (r, q) \<Longrightarrow>
      exposed q = exposed p \<and> (\<forall>g n'. family p g n' \<longrightarrow> family q g n') \<and> (\<forall>s n' l'. metric p s n' l' \<longrightarrow> metric q s n' l')"
    and inc_exposed: "metric p r n l \<Longrightarrow>
      exposed (pl_inc L p r) n' l' = exposed p n' l' + (if n' = n \<and> l' = l then 1 else 0)"
    and inc_keeps: "(family p g n' \<longrightarrow> family (pl_inc L p r) g n') \<and> (metric p s n' l' \<longrightarrow> metric (pl_inc L p r) s n' l')"

abbreviation requests_total :: string where "requests_total \<equiv> ''loomic_http_requests_total''"

definition request_labels :: "verb \<Rightarrow> nat \<Rightarrow> labels" where
  "request_labels v status = [(''method'', verb_string v), (''status'', string_of_nat status)]"

definition cache_key :: "verb \<Rightarrow> nat \<Rightarrow> string" where
  "cache_key v status = verb_string v @ '':'' @ string_of_nat status"

lemma count_request_total:
  "w_http_total (count_request v s w) (m, t) = w_http_total w (m, t) + (if m = verb_string v \<and> t = s then 1 else 0)"
  by (simp add: count_request_def)

text \<open>A status has no colon: the key determines the method and the status.\<close>

lemma colon_not_digit: "CHR '':'' \<notin> set (string_of_nat n)"
  using string_of_nat_digits [of n] by (auto simp: is_digit_def)

lemma last_separator:
  assumes "a @ c # s = b @ c # t" "c \<notin> set s" "c \<notin> set t"
  shows "a = b \<and> s = t"
proof -
  have "rev s @ c # rev a = rev t @ c # rev b" using arg_cong [OF assms(1), of rev] by simp
  moreover have "takeWhile (\<lambda>x. x \<noteq> c) (rev s @ c # rev a) = rev s" "takeWhile (\<lambda>x. x \<noteq> c) (rev t @ c # rev b) = rev t"
    by (subst takeWhile_append2, use assms(2,3) in auto)+
  ultimately have "rev s = rev t" by metis
  with assms(1) show ?thesis by simp
qed

lemma cache_key_inject: "cache_key v s = cache_key v' s' \<longleftrightarrow> verb_string v = verb_string v' \<and> s = s'"
proof
  assume "cache_key v s = cache_key v' s'"
  then have "verb_string v @ CHR '':'' # string_of_nat s = verb_string v' @ CHR '':'' # string_of_nat s'"
    by (simp add: cache_key_def)
  from last_separator [OF this colon_not_digit colon_not_digit] show "verb_string v = verb_string v' \<and> s = s'" by simp
qed (simp add: cache_key_def)

lemma request_labels_inject:
  "request_labels v s = request_labels v' s' \<longleftrightarrow> verb_string v = verb_string v' \<and> s = s'"
  by (simp add: request_labels_def)

context prometheus
begin

lemma family_register: "pl_register L p ty n = (f, q) \<Longrightarrow> family p g m \<Longrightarrow> family q g m"
  using register_keeps by blast

lemma family_add: "pl_add L p f l bs = (r, q) \<Longrightarrow> family p g m \<Longrightarrow> family q g m"
  using add_keeps by blast

text \<open>The cache is sound: what it holds for the key of a request is the counter of that request.\<close>

definition cache_ok :: "'p MetricsRegistry \<Rightarrow> bool" where
  "cache_ok m \<longleftrightarrow> family (mr_registry m) (mr_http_req_family m) requests_total \<and>
     (\<forall>k r. mr_http_req_cache m k = Some r \<longrightarrow>
       (\<exists>v s. k = cache_key v s \<and> metric (mr_registry m) r requests_total (request_labels v s)))"

lemma init_ok:
  assumes "metrics_init L port None = Some m"
  shows "cache_ok m \<and> exposed (mr_registry m) = (\<lambda>n l. 0) \<and> mr_http_req_cache m = Map.empty"
proof -
  obtain f1 p1 where s1: "pl_register L (pl_new L) CounterType ''loomic_messages_total'' = (f1, p1)" by fastforce
  obtain r1 q1 where t1: "pl_add L p1 f1 [] [] = (r1, q1)" by fastforce
  obtain f2 p2 where s2: "pl_register L q1 CounterType requests_total = (f2, p2)" by fastforce
  obtain f3 p3 where s3: "pl_register L p2 GaugeType ''loomic_active_sessions'' = (f3, p3)" by fastforce
  obtain r3 q3 where t3: "pl_add L p3 f3 [] [] = (r3, q3)" by fastforce
  obtain f4 p4 where s4: "pl_register L q3 GaugeType ''loomic_active_connections'' = (f4, p4)" by fastforce
  obtain r4 q4 where t4: "pl_add L p4 f4 [] [] = (r4, q4)" by fastforce
  obtain f5 p5 where s5: "pl_register L q4 HistogramType ''loomic_message_latency_ms'' = (f5, p5)" by fastforce
  obtain r5 q5 where t5: "pl_add L p5 f5 [] [1/10, 1, 5, 10, 50, 100] = (r5, q5)" by fastforce
  obtain f6 p6 where s6: "pl_register L q5 HistogramType ''loomic_http_latency_ms'' = (f6, p6)" by fastforce
  obtain r6 q6 where t6: "pl_add L p6 f6 [] [1, 5, 10, 25, 50, 100, 250] = (r6, q6)" by fastforce
  have m: "mr_registry m = q6 \<and> mr_http_req_family m = f2 \<and> mr_http_req_cache m = Map.empty"
    using assms by (auto simp: metrics_init_def s1 t1 s2 s3 t3 s4 t4 s5 t5 s6 t6)
  note keeps = register_keeps [OF s1] add_keeps [OF t1] register_keeps [OF s2] register_keeps [OF s3] add_keeps [OF t3]
    register_keeps [OF s4] add_keeps [OF t4] register_keeps [OF s5] add_keeps [OF t5] register_keeps [OF s6] add_keeps [OF t6]
  have "exposed q6 = (\<lambda>n l. 0)" using keeps by (simp add: new_exposed fun_eq_iff)
  moreover have "family q6 f2 requests_total"
    by (rule family_add [OF t6], rule family_register [OF s6], rule family_add [OF t5], rule family_register [OF s5],
        rule family_add [OF t4], rule family_register [OF s4], rule family_add [OF t3], rule family_register [OF s3],
        rule register_family [OF s2])
  ultimately show ?thesis using m by (simp add: cache_ok_def)
qed

text \<open>One request: the counter of its labels goes up by one, and the cache stays sound.\<close>

lemma counter_of_request:
  assumes "cache_ok m" "http_requests_total L (verb_string v) (string_of_nat s) m = (r, m')"
  shows "cache_ok m' \<and> metric (mr_registry m') r requests_total (request_labels v s) \<and>
    exposed (mr_registry m') = exposed (mr_registry m) \<and>
    dom (mr_http_req_cache m') = insert (cache_key v s) (dom (mr_http_req_cache m))"
proof (cases "mr_http_req_cache m (cache_key v s)")
  case (Some c)
  then have e: "r = c" "m' = m" using assms(2) by (simp_all add: http_requests_total_def cache_key_def)
  obtain v' s' where "cache_key v s = cache_key v' s'" "metric (mr_registry m) c requests_total (request_labels v' s')"
    using assms(1) Some unfolding cache_ok_def by blast
  then have "metric (mr_registry m) c requests_total (request_labels v s)"
    by (simp add: cache_key_inject request_labels_def)
  with assms(1) e Some show ?thesis by (auto simp: insert_absorb domI)
next
  case None
  obtain c q where a: "pl_add L (mr_registry m) (mr_http_req_family m) (request_labels v s) [] = (c, q)" by fastforce
  have "http_requests_total L (verb_string v) (string_of_nat s) m =
      (c, m\<lparr>mr_registry := q, mr_http_req_cache := (mr_http_req_cache m)(cache_key v s \<mapsto> c)\<rparr>)"
    using None a by (simp add: http_requests_total_def cache_key_def request_labels_def)
  with assms(2) have e: "r = c" "m' = m\<lparr>mr_registry := q, mr_http_req_cache := (mr_http_req_cache m)(cache_key v s \<mapsto> c)\<rparr>"
    by auto
  have f: "family (mr_registry m) (mr_http_req_family m) requests_total" using assms(1) by (simp add: cache_ok_def)
  have r: "metric q c requests_total (request_labels v s)" by (rule add_metric [OF a f])
  have "\<exists>v s. k = cache_key v s \<and> metric q x requests_total (request_labels v s)"
    if k: "mr_http_req_cache m' k = Some x" for k x
  proof (cases "k = cache_key v s")
    case True
    with k e r show ?thesis by auto
  next
    case False
    with k e have "mr_http_req_cache m k = Some x" by simp
    then show ?thesis using assms(1) add_keeps [OF a] unfolding cache_ok_def by blast
  qed
  then have "cache_ok m'" using e family_add [OF a f] by (simp add: cache_ok_def)
  with r e add_keeps [OF a] show ?thesis by auto
qed

lemma record_request_step:
  assumes "cache_ok m"
  shows "\<exists>m'. record_request L v s (Some m) = Some m' \<and> cache_ok m' \<and>
    dom (mr_http_req_cache m') = insert (cache_key v s) (dom (mr_http_req_cache m)) \<and>
    (\<forall>v' s'. exposed (mr_registry m') requests_total (request_labels v' s') =
       exposed (mr_registry m) requests_total (request_labels v' s') + (if verb_string v' = verb_string v \<and> s' = s then 1 else 0))"
proof -
  obtain r m1 where r: "http_requests_total L (verb_string v) (string_of_nat s) m = (r, m1)" by fastforce
  let ?m = "m1\<lparr>mr_registry := pl_inc L (mr_registry m1) r\<rparr>"
  note c = counter_of_request [OF assms r]
  have k: "family (mr_registry m1) g n \<Longrightarrow> family (pl_inc L (mr_registry m1) r) g n"
    "metric (mr_registry m1) x n l \<Longrightarrow> metric (pl_inc L (mr_registry m1) r) x n l" for g n x l
    using inc_keeps [of "mr_registry m1" g n r x l] by simp_all
  have "cache_ok m1" using c by simp
  then have "cache_ok ?m" using k unfolding cache_ok_def by (simp, meson)
  moreover have "record_request L v s (Some m) = Some ?m"
    by (simp add: record_request_def metrics_get_def r)
  ultimately show ?thesis
    using c inc_exposed [of "mr_registry m1" r requests_total "request_labels v s"]
    by (intro exI [of _ ?m]) (auto simp: request_labels_inject)
qed

lemma record_requests:
  assumes "cache_ok m"
  shows "\<exists>m'. foldl (\<lambda>i (v, s). record_request L v s i) (Some m) rs = Some m' \<and> cache_ok m' \<and>
    dom (mr_http_req_cache m') = dom (mr_http_req_cache m) \<union> (\<lambda>(v, s). cache_key v s) ` set rs \<and>
    (\<forall>v s. exposed (mr_registry m') requests_total (request_labels v s) =
       exposed (mr_registry m) requests_total (request_labels v s) +
       length (filter (\<lambda>(v', s'). verb_string v' = verb_string v \<and> s' = s) rs))"
  using assms
proof (induction rs arbitrary: m)
  case (Cons p rs)
  obtain v s where p: "p = (v, s)" by (cases p)
  obtain m1 where 1: "record_request L v s (Some m) = Some m1" "cache_ok m1"
    "dom (mr_http_req_cache m1) = insert (cache_key v s) (dom (mr_http_req_cache m))"
    "\<And>v' s'. exposed (mr_registry m1) requests_total (request_labels v' s') =
       exposed (mr_registry m) requests_total (request_labels v' s') + (if verb_string v' = verb_string v \<and> s' = s then 1 else 0)"
    using record_request_step [OF Cons.prems, of v s] by blast
  from Cons.IH [OF 1(2)] obtain m2 where
    2: "foldl (\<lambda>i (v, s). record_request L v s i) (Some m1) rs = Some m2" "cache_ok m2"
    "dom (mr_http_req_cache m2) = dom (mr_http_req_cache m1) \<union> (\<lambda>(v, s). cache_key v s) ` set rs"
    "\<And>v s. exposed (mr_registry m2) requests_total (request_labels v s) =
       exposed (mr_registry m1) requests_total (request_labels v s) +
       length (filter (\<lambda>(v', s'). verb_string v' = verb_string v \<and> s' = s) rs)" by blast
  show ?case
    by (intro exI [of _ m2]) (use 1 2 in \<open>auto simp: p\<close>)
qed simp

end

section \<open>A reference registry\<close>

text \<open>Family references are positions in the list of names, metric references positions in the list of metrics; the value
  for a name and labels is the sum over the metrics that have them.\<close>

record ref_prom =
  rp_families :: "string list"
  rp_metrics :: "((string \<times> labels) \<times> nat) list"

fun slot :: "'a \<Rightarrow> ('a \<times> nat) list \<Rightarrow> nat option" where
  "slot k [] = None"
| "slot k ((k', n) # xs) = (if k = k' then Some 0 else map_option Suc (slot k xs))"

definition ref_add :: "ref_prom \<Rightarrow> nat \<Rightarrow> labels \<Rightarrow> nat \<times> ref_prom" where
  "ref_add p f l =
     (let k = (rp_families p ! f, l)
      in case slot k (rp_metrics p) of
           Some r \<Rightarrow> (r, p)
         | None \<Rightarrow> (length (rp_metrics p), p\<lparr>rp_metrics := rp_metrics p @ [(k, 0)]\<rparr>))"

definition ref_inc :: "ref_prom \<Rightarrow> nat \<Rightarrow> ref_prom" where
  "ref_inc p r = p\<lparr>rp_metrics := (rp_metrics p)[r := (fst (rp_metrics p ! r), snd (rp_metrics p ! r) + 1)]\<rparr>"

definition ref_prom_lib :: "ref_prom prom_lib" where
  "ref_prom_lib = \<lparr>pl_new = \<lparr>rp_families = [], rp_metrics = []\<rparr>,
     pl_register = (\<lambda>p ty n. (length (rp_families p), p\<lparr>rp_families := rp_families p @ [n]\<rparr>)),
     pl_add = (\<lambda>p f l bs. ref_add p f l), pl_inc = ref_inc, pl_exposer = (\<lambda>_. True)\<rparr>"

definition ref_family :: "ref_prom \<Rightarrow> nat \<Rightarrow> string \<Rightarrow> bool" where
  "ref_family p f n \<longleftrightarrow> f < length (rp_families p) \<and> rp_families p ! f = n"

definition ref_metric :: "ref_prom \<Rightarrow> nat \<Rightarrow> string \<Rightarrow> labels \<Rightarrow> bool" where
  "ref_metric p r n l \<longleftrightarrow> r < length (rp_metrics p) \<and> fst (rp_metrics p ! r) = (n, l)"

definition ref_exposed :: "ref_prom \<Rightarrow> string \<Rightarrow> labels \<Rightarrow> nat" where
  "ref_exposed p n l = sum_list (map snd (filter (\<lambda>m. fst m = (n, l)) (rp_metrics p)))"

lemma slot_Some: "slot k xs = Some r \<Longrightarrow> r < length xs \<and> fst (xs ! r) = k"
  by (induction xs arbitrary: r) (auto split: if_splits)

lemma sum_incremented:
  "r < length xs \<Longrightarrow> sum_list (map snd (filter (\<lambda>m. fst m = k) (xs[r := (fst (xs ! r), snd (xs ! r) + 1)]))) =
     sum_list (map snd (filter (\<lambda>m. fst m = k) xs)) + (if k = fst (xs ! r) then 1 else (0 :: nat))"
proof (induction xs arbitrary: r)
  case (Cons x xs)
  show ?case
  proof (cases r)
    case (Suc n)
    with Cons.IH [of n] Cons.prems show ?thesis by (auto split: if_splits)
  qed simp
qed simp

interpretation ref_pl: prometheus ref_prom_lib ref_family ref_metric ref_exposed
proof (unfold_locales, goal_cases)
  case (1 n l) show ?case by (simp add: ref_exposed_def ref_prom_lib_def)
next
  case (2 p ty n f q) then show ?case by (auto simp: ref_family_def ref_prom_lib_def)
next
  case (3 p ty n f q) then show ?case
    by (auto simp: ref_family_def ref_metric_def ref_exposed_def fun_eq_iff ref_prom_lib_def nth_append)
next
  case (4 p f l bs r q n) then show ?case
    by (auto simp: ref_metric_def ref_family_def ref_prom_lib_def ref_add_def Let_def nth_append dest: slot_Some
        split: option.splits)
next
  case (5 p f l bs r q) then show ?case
    by (auto simp: ref_family_def ref_metric_def ref_exposed_def fun_eq_iff ref_prom_lib_def ref_add_def Let_def nth_append
        split: option.splits)
next
  case (6 p r n l n' l') then show ?case
    using sum_incremented [of r "rp_metrics p" "(n', l')"]
    by (simp add: ref_metric_def ref_exposed_def ref_prom_lib_def ref_inc_def)
next
  case (7 p g n' r s l') show ?case
    by (cases "r = s") (auto simp: ref_family_def ref_metric_def ref_prom_lib_def ref_inc_def nth_list_update)
qed

section \<open>Properties\<close>



text \<open>\<open>init\<close> happens once, and before it the registry cannot be had.\<close>

theorem metrics_init_once:
  "metrics_init L p2 (metrics_init L p1 i) = metrics_init L p1 i \<and>
   (\<exists>m. metrics_get (metrics_init L p1 i) = Inr m) \<and> (\<exists>e. metrics_get None = Inl e) \<and>
   record_request L v s None = None"
  by (cases i) (simp_all add: metrics_init_def metrics_get_def record_request_def split_beta Let_def)

end
