(* ===== verification/Boot.thy ===== *)
theory Boot
  imports System Config Metrics
begin

text \<open>
  The start of the server: \<open>Logger::init\<close> and the lines of the log (\<open>src/server/src/util/Logger.cpp\<close>), the constructors of \<open>RedisClient\<close> and
  \<open>CassandraClient\<close> (\<open>src/server/src/db\<close>), of \<open>Server\<close> with \<open>setup_tls\<close>, and \<open>Server::run\<close> with its event loops and \<open>Server::shutdown\<close>
  (\<open>src/server/src/core/Server.cpp\<close>), put together as in \<open>main\<close> (\<open>src/server/src/main.cpp\<close>).  What the libraries of
  the services answer is a parameter: an error text or a connection.  An exception is \<open>Inl\<close> with its message.
  The theorem at the end shows that a server whose construction succeeds is in a state from which the invariants of
  the theory \<open>System\<close> hold.
\<close>

section \<open>Logger\<close>

datatype level = Trace | Debug | Info | Warn | Err | Critical | Off

fun level_num :: "level \<Rightarrow> nat" where
  "level_num Trace = 0" | "level_num Debug = 1" | "level_num Info = 2" | "level_num Warn = 3"
| "level_num Err = 4" | "level_num Critical = 5" | "level_num Off = 6"

text \<open>spdlog: the level with a name (\<open>Off\<close> for an unknown one), whether the directories of a file can be created and
  whether a file can be opened.\<close>

record log_lib =
  ll_from_str :: "string \<Rightarrow> level"
  ll_directories :: "string \<Rightarrow> bool"
  ll_open :: "string \<Rightarrow> bool"

record Logger =
  lg_stdout :: level
  lg_file :: "level option"
  lg_level :: level

definition Logger_init :: "log_lib \<Rightarrow> Config \<Rightarrow> string + Logger" where
  "Logger_init L cfg =
     (if log_file cfg \<noteq> [] \<and> \<not> ll_directories L (log_file cfg) then Inl ''filesystem''
      else if log_file cfg \<noteq> [] \<and> \<not> ll_open L (log_file cfg) then Inl ''spdlog''
      else let level = ll_from_str L (log_level cfg)
           in Inr \<lparr>lg_stdout = Err,
                lg_file = (if log_file cfg \<noteq> [] then Some (ll_from_str L (log_level cfg)) else None),
                lg_level = (if level = Off \<and> log_level cfg \<noteq> ''off'' then Info else level)\<rparr>)"

text \<open>Whether a message of a level reaches the console and the file.\<close>

definition logs_to :: "level \<Rightarrow> Logger \<Rightarrow> level \<Rightarrow> bool" where
  "logs_to sink lg l \<longleftrightarrow> level_num (lg_level lg) \<le> level_num l \<and> level_num sink \<le> level_num l"

definition Logger_get :: "Logger option \<Rightarrow> string + Logger" where
  "Logger_get s_logger =
     (case s_logger of
        None \<Rightarrow> Inl ''Logger::init() must be called before Logger::get()''
      | Some lg \<Rightarrow> Inr lg)"

text \<open>A line of the log.  \<open>g_request_ctx\<close> is one variable for each thread, which the connections set on the thread of the event
  loop.  The logger is asynchronous: a line is formatted by \<open>worker\<close>, the thread of spdlog's pool, and \<open>RequestIdFlag\<close> reads
  the variable of the thread that it runs on.  The other fields were recorded with the message.\<close>

record log_msg =
  lm_time :: string
  lm_thread :: nat
  lm_level :: string
  lm_text :: string

type_synonym request_ctx = "nat \<Rightarrow> string"

definition set_request_id :: "nat \<Rightarrow> string \<Rightarrow> request_ctx \<Rightarrow> request_ctx" where
  "set_request_id thread rid ctx = ctx(thread := rid)"

definition log_prefix :: "request_ctx \<Rightarrow> nat \<Rightarrow> log_msg \<Rightarrow> string" where
  "log_prefix ctx worker m =
     ''{\"ts\":\"'' @ lm_time m @ ''\",\"tid\":'' @ string_of_nat (lm_thread m) @ '',\"lvl\":\"'' @ lm_level m @
     ''\",\"rid\":\"'' @ ctx worker @ ''\",\"msg\":\"''"

definition log_line :: "request_ctx \<Rightarrow> nat \<Rightarrow> log_msg \<Rightarrow> string" where
  "log_line ctx worker m = log_prefix ctx worker m @ lm_text m @ ''\"}'' @ [CHR 0x0A]"

section \<open>RedisClient\<close>

text \<open>\<open>hr_connect\<close>: \<open>redisConnect\<close>, \<open>Inl\<close> for a null pointer or a context with an error.\<close>

record 'r hiredis =
  hr_ssl_context :: "string \<Rightarrow> string option"
  hr_connect :: "string \<Rightarrow> u16 \<Rightarrow> string + 'r"
  hr_initiate_ssl :: "'r \<Rightarrow> string + 'r"
  hr_auth :: "'r \<Rightarrow> string \<Rightarrow> redis_reply option \<times> 'r"

definition RedisClient_init :: "'r hiredis \<Rightarrow> string \<Rightarrow> u16 \<Rightarrow> string \<Rightarrow> bool \<Rightarrow> string + 'r" where
  "RedisClient_init H host tcp_port password use_ssl =
     (let connected =
        (if use_ssl
         then case hr_ssl_context H host of
                Some err \<Rightarrow> Inl (''RedisClient: failed to create SSL context: '' @ err)
              | None \<Rightarrow>
                  (case hr_connect H host tcp_port of
                     Inl err \<Rightarrow> Inl (''RedisClient: connect failed: '' @ err)
                   | Inr ctx \<Rightarrow>
                       (case hr_initiate_ssl H ctx of
                          Inl err \<Rightarrow> Inl (''RedisClient: SSL handshake failed: '' @ err)
                        | Inr ctx \<Rightarrow> Inr ctx))
         else case hr_connect H host tcp_port of
                Inl err \<Rightarrow> Inl (''RedisClient: connect failed: '' @ err)
              | Inr ctx \<Rightarrow> Inr ctx)
      in case connected of
           Inl e \<Rightarrow> Inl e
         | Inr ctx \<Rightarrow> Inr (if password \<noteq> [] then snd (hr_auth H ctx password) else ctx))"

section \<open>CassandraClient\<close>

text \<open>The loop that turns the two characters of an escaped newline into a newline; \<open>replace(pos, 2, "\n")\<close>.\<close>

definition escaped_newline :: string where "escaped_newline = [CHR 0x5C, CHR ''n'']"

lemma find_str_escaped: "find_str escaped_newline s pos = Some n \<Longrightarrow> pos \<le> n \<and> n + 2 \<le> length s"
  by (auto simp: find_str_def escaped_newline_def dest: find_sub_bound split: if_splits)

text \<open>Each replacement shortens the text by one character.\<close>

function pem_loop :: "string \<Rightarrow> nat \<Rightarrow> string" where
  "pem_loop ca_pem pos =
     (case find_str escaped_newline ca_pem pos of
        None \<Rightarrow> ca_pem
      | Some pos \<Rightarrow> pem_loop (take pos ca_pem @ [CHR 0x0A] @ drop (pos + 2) ca_pem) pos)"
  by pat_completeness auto

termination
  by (relation "measure (\<lambda>(s, pos). length s)") (auto dest: find_str_escaped)

declare pem_loop.simps [simp del]

record cass_tls =
  ct_trusted :: "string option"
  ct_verify_peer :: bool

record cass_cluster_options =
  co_contact_points :: string
  co_port :: u16
  co_username :: string
  co_password :: string
  co_tcp_keepalive :: nat
  co_heartbeat_interval :: nat
  co_idle_timeout :: nat
  co_ssl :: "cass_tls option"

text \<open>The driver: the dead-letter log is available, \<open>cass_ssl_add_trusted_cert\<close>, \<open>cass_session_connect\<close> and
  \<open>cass_session_prepare\<close>; \<open>Some\<close>: an error with its description.\<close>

record 'c cass_driver =
  cd_log :: bool
  cd_trusted_cert :: "string \<Rightarrow> string option"
  cd_connect :: "cass_cluster_options \<Rightarrow> string + 'c"
  cd_prepare :: "'c \<Rightarrow> string \<Rightarrow> string option"

definition insert_cql :: "string \<Rightarrow> string" where
  "insert_cql keyspace = ''INSERT INTO '' @ keyspace @
     ''.messages (conv_id, msg_id, sender_id, recipient_id, content, msg_type, ts) VALUES (?, ?, ?, ?, ?, ?, ?)''"

definition select_cql :: "string \<Rightarrow> string" where
  "select_cql keyspace = ''SELECT conv_id, msg_id, sender_id, recipient_id, content, msg_type, ts FROM '' @ keyspace @
     ''.messages WHERE conv_id=? AND msg_id < ? LIMIT ?''"

definition delete_cql :: "string \<Rightarrow> string" where
  "delete_cql keyspace = ''DELETE FROM '' @ keyspace @ ''.messages WHERE conv_id=? AND msg_id=?''"

definition cass_tls_of :: "'c cass_driver \<Rightarrow> Config \<Rightarrow> string + cass_tls option" where
  "cass_tls_of D cfg =
     (if \<not> cassandra_ssl cfg then Inr None
      else if cassandra_ca_cert cfg \<noteq> []
      then let ca_pem = pem_loop (cassandra_ca_cert cfg) 0
           in case cd_trusted_cert D ca_pem of
                Some err \<Rightarrow> Inl (''CassandraClient: failed to load CA cert: '' @ err)
              | None \<Rightarrow> Inr (Some \<lparr>ct_trusted = Some ca_pem, ct_verify_peer = True\<rparr>)
      else Inr (Some \<lparr>ct_trusted = None, ct_verify_peer = False\<rparr>))"

definition cass_options :: "Config \<Rightarrow> cass_tls option \<Rightarrow> cass_cluster_options" where
  "cass_options cfg tls = \<lparr>co_contact_points = cassandra_contact_points cfg, co_port = cassandra_port cfg,
     co_username = cassandra_username cfg, co_password = cassandra_password cfg,
     co_tcp_keepalive = 30, co_heartbeat_interval = 30, co_idle_timeout = 60, co_ssl = tls\<rparr>"

definition CassandraClient_init :: "'c cass_driver \<Rightarrow> Config \<Rightarrow> string + CassandraClient \<times> 'c" where
  "CassandraClient_init D cfg =
     (case cass_tls_of D cfg of
        Inl e \<Rightarrow> Inl e
      | Inr tls \<Rightarrow>
          (case cd_connect D (cass_options cfg tls) of
             Inl err \<Rightarrow> Inl (''CassandraClient: connect failed: '' @ err)
           | Inr c \<Rightarrow>
               (case cd_prepare D c (insert_cql (cassandra_keyspace cfg)) of
                  Some err \<Rightarrow> Inl (''CassandraClient: prepare INSERT failed: '' @ err)
                | None \<Rightarrow>
                    (case cd_prepare D c (select_cql (cassandra_keyspace cfg)) of
                       Some err \<Rightarrow> Inl (''CassandraClient: prepare SELECT failed: '' @ err)
                     | None \<Rightarrow>
                         (case cd_prepare D c (delete_cql (cassandra_keyspace cfg)) of
                            Some err \<Rightarrow> Inl (''CassandraClient: prepare DELETE failed: '' @ err)
                          | None \<Rightarrow> Inr (\<lparr>cc_insert_msg = True, cc_select_hist = True, cc_delete_msg = True,
                              cc_has_log = cd_log D, cc_dead_letters = [], cc_slept_ms = 0\<rparr>, c))))))"

text \<open>The build without the driver: the constructor, and the three operations that do nothing.\<close>

definition CassandraClient_disabled :: CassandraClient where
  "CassandraClient_disabled = \<lparr>cc_insert_msg = False, cc_select_hist = False, cc_delete_msg = False,
     cc_has_log = False, cc_dead_letters = [], cc_slept_ms = 0\<rparr>"

section \<open>Server\<close>

text \<open>\<open>bt_tls\<close>: the error of loading the files of the certificate and the key.\<close>

record ('r, 'c, 'p) boot =
  bt_hardware_concurrency :: nat
  bt_host_name :: string
  bt_files :: "string \<rightharpoonup> string"
  bt_config :: config_lib
  bt_log :: log_lib
  bt_hiredis :: "'r hiredis"
  bt_cass :: "'c cass_driver"
  bt_prom :: "'p prom_lib"
  bt_tls :: "string \<Rightarrow> string \<Rightarrow> string option"

definition setup_tls :: "('r, 'c, 'p) boot \<Rightarrow> Config \<Rightarrow> string option" where
  "setup_tls B cfg = (if tls_cert_path cfg \<noteq> [] then bt_tls B (tls_cert_path cfg) (tls_key_path cfg) else None)"

definition openapi_spec :: "(string \<rightharpoonup> string) \<Rightarrow> string" where
  "openapi_spec files =
     (case files ''api/openapi.json'' of
        None \<Rightarrow>
          ''{\"openapi\":\"3.0.3\",\"info\":{\"title\":\"Loomic API\",\"version\":\"0.1.0\"},\"paths\":{}}''
      | Some spec_json \<Rightarrow> spec_json)"

text \<open>\<open>Server::Server\<close>: the members in the order of their declaration, then the body.  \<open>db\<close> is the database behind the
  connection string.\<close>

definition Server_init ::
  "('r, 'c, 'p) boot \<Rightarrow> ('r, 'c) env \<Rightarrow> Db \<Rightarrow> Config \<Rightarrow> string + ('r, 'c) world \<times> 'p MetricsRegistry option" where
  "Server_init B E db cfg =
     (case PgPool_init (e_pg E) (server_threads (bt_hardware_concurrency B) cfg) db of
        None \<Rightarrow> Inl ''PgPool''
      | Some pg \<Rightarrow>
          (case RedisClient_init (bt_hiredis B) (redis_host cfg) (redis_port cfg) (redis_password cfg) (redis_ssl cfg) of
             Inl e \<Rightarrow> Inl e
           | Inr r \<Rightarrow>
               (case CassandraClient_init (bt_cass B) cfg of
                  Inl e \<Rightarrow> Inl e
                | Inr (cc, c) \<Rightarrow>
                    (let metrics = metrics_init (bt_prom B) (unat (metrics_port cfg)) None
                     in case setup_tls B cfg of
                          Some e \<Rightarrow> Inl e
                        | None \<Rightarrow> Inr
                            (\<lparr>w_registry = Map.empty, w_sessions = Map.empty, w_redis = r, w_cass = c, w_cc = cc, w_pg = pg,
                              w_sf = SnowflakeGen_init 1, w_clk = 0, w_steady = 0, w_jobs = [], w_rand = 0, w_rng = 0,
                              w_uploads = [], w_http_total = (\<lambda>_. 0), w_messages_total = 0, w_active_sessions = 0,
                              w_active_connections = 0, w_crashed = False\<rparr>, metrics)))))"

text \<open>\<open>Server::run\<close>: the coroutines that listen bind their ports, HTTP first; the exception of an acceptor that cannot be
  bound is in front of their \<open>try\<close> block and is discarded by \<open>detached\<close>.\<close>

definition listeners :: "u16 set \<Rightarrow> Config \<Rightarrow> bool \<times> bool" where
  "listeners used cfg =
     (let http = http_health_port cfg \<notin> used;
          used = (if http then insert (http_health_port cfg) used else used)
      in (http, port cfg \<notin> used))"

text \<open>The event loops.  \<open>io_context::run\<close> returns when the context is stopped or has no work outstanding.  The two listeners
  and the wait for a signal are started on the first context, and whatever they start runs there.\<close>

record io_context =
  ic_work :: nat
  ic_stopped :: bool

definition io_run_returns :: "io_context \<Rightarrow> bool" where
  "io_run_returns ctx \<longleftrightarrow> ic_stopped ctx \<or> ic_work ctx = 0"

definition add_work :: "nat \<Rightarrow> io_context list \<Rightarrow> io_context list" where
  "add_work i ctxs = ctxs[i := (ctxs ! i)\<lparr>ic_work := Suc (ic_work (ctxs ! i))\<rparr>]"

text \<open>\<open>run\<close>: the contexts, which of the worker threads' \<open>run\<close> returns at once, and whether that of the main thread does.\<close>

definition Server_run :: "nat \<Rightarrow> bool \<times> bool \<Rightarrow> io_context list \<times> bool list \<times> bool" where
  "Server_run threads listening =
     (let ctxs = replicate threads \<lparr>ic_work = 0, ic_stopped = False\<rparr>;
          ctxs = (if fst listening then add_work 0 ctxs else ctxs);
          ctxs = (if snd listening then add_work 0 ctxs else ctxs);
          ctxs = add_work 0 ctxs
      in (ctxs, map (\<lambda>i. io_run_returns (ctxs ! i)) [1..<threads], io_run_returns (ctxs ! 0)))"

definition Server_shutdown :: "io_context list \<Rightarrow> io_context list" where
  "Server_shutdown ctxs = map (\<lambda>ctx. ctx\<lparr>ic_stopped := True\<rparr>) ctxs"

text \<open>\<open>main\<close>: either the exit with status 1 and a message, or the event loop with its state, what listens, and the routes.\<close>

datatype ('r, 'c) outcome =
    Fatal string
  | Serving "bool \<times> bool" "('r, 'c) env" "('r, 'c) Route list" "('r, 'c) world"

definition main ::
  "('r, 'c, 'p) boot \<Rightarrow> ('r, 'c) env \<Rightarrow> Db \<Rightarrow> u16 set \<Rightarrow> string \<Rightarrow> string list \<Rightarrow> environment \<Rightarrow> ('r, 'c) outcome" where
  "main B E db used html args env =
     (case startup (bt_config B) (bt_files B) args env of
        Inl e \<Rightarrow> Fatal e
      | Inr cfg \<Rightarrow>
          (case Logger_init (bt_log B) cfg of
             Inl e \<Rightarrow> Fatal e
           | Inr _ \<Rightarrow>
               (case Server_init B E db cfg of
                  Inl e \<Rightarrow> Fatal e
                | Inr (w, _) \<Rightarrow> Serving (listeners used cfg) (configured (bt_host_name B) cfg E)
                    (routes (openapi_spec (bt_files B)) html) w)))"

section \<open>Lemmas\<close>

text \<open>What the loop over the certificate computes: one pass from the left.\<close>

fun unescape :: "string \<Rightarrow> string" where
  "unescape [] = []"
| "unescape [c] = [c]"
| "unescape (c # d # s) = (if c = CHR 0x5C \<and> d = CHR ''n'' then CHR 0x0A # unescape s else c # unescape (d # s))"

lemma unescape_find:
  "unescape s = (case find_sub escaped_newline s of
     None \<Rightarrow> s | Some n \<Rightarrow> take n s @ CHR 0x0A # unescape (drop (n + 2) s))"
  by (induction s rule: unescape.induct) (auto simp: escaped_newline_def split: option.splits)

lemma unescape_newline: "unescape (CHR 0x0A # s) = CHR 0x0A # unescape s"
  by (cases s) simp_all

lemma pem_loop_unescape: "pem_loop (u @ s) (length u) = u @ unescape s"
proof (induction s arbitrary: u rule: measure_induct_rule [where f = length])
  case (less s)
  show ?case
  proof (cases "find_sub escaped_newline s")
    case None
    then show ?thesis by (subst pem_loop.simps) (simp add: find_str_def unescape_find [of s])
  next
    case (Some n)
    have n: "n + 2 \<le> length s" using find_sub_bound [OF Some] by (simp add: escaped_newline_def)
    have "pem_loop (u @ s) (length u) =
        pem_loop ((u @ take n s) @ CHR 0x0A # drop (n + 2) s) (length (u @ take n s))"
      using Some n by (subst pem_loop.simps) (simp add: find_str_def)
    also have "\<dots> = (u @ take n s) @ unescape (CHR 0x0A # drop (n + 2) s)"
      by (rule less.IH) (use n in simp)
    finally show ?thesis using Some by (simp add: unescape_newline unescape_find [of s])
  qed
qed

lemma pem_loop_eq: "pem_loop s 0 = unescape s"
  using pem_loop_unescape [of "[]" s] by simp

definition escape :: "string \<Rightarrow> string" where
  "escape pem = concat (map (\<lambda>c. if c = CHR 0x0A then escaped_newline else [c]) pem)"

lemma unescape_plain: "c \<noteq> CHR 0x5C \<Longrightarrow> unescape (c # s) = c # unescape s"
  by (cases s) simp_all

lemma unescape_escape:
  "CHR 0x5C \<notin> set pem \<Longrightarrow> unescape (escape pem) = pem" "CHR 0x5C \<notin> set pem \<Longrightarrow> unescape pem = pem"
  by (induction pem) (auto simp: escape_def escaped_newline_def unescape_plain)

lemma escape_nonempty: "escape pem = [] \<longleftrightarrow> pem = []"
  by (cases pem) (simp_all add: escape_def escaped_newline_def)

text \<open>The pool of a new server lends every connection, on the database as it is.\<close>

lemma connect_all_list:
  "connect_all E now i n p = Some q \<Longrightarrow> pg_free_list q = pg_free_list p @ [i..<i + n] \<and> pg_db q = pg_db p"
proof (induction n arbitrary: i p)
  case (Suc n)
  let ?p = "p\<lparr>pg_ev_index := Suc (pg_ev_index p), pg_connections := pg_connections p @ [\<lparr>sl_conn = Some True,
    sl_created_at = now, sl_last_used_at = now, sl_last_validated_at = now\<rparr>], pg_free_list := pg_free_list p @ [i]\<rparr>"
  have "connect_all E now (Suc i) n ?p = Some q"
    using Suc.prems by (simp add: next_event_def split: if_splits)
  from Suc.IH [OF this] show ?case by (simp add: upt_conv_Cons)
qed simp

lemma connect_all_ok: "(\<And>k. pe_event E k = EvOk) \<Longrightarrow> \<exists>q. connect_all E now i n p = Some q"
  by (induction n arbitrary: i p) (simp_all add: next_event_def)

lemma PgPool_init_free: "PgPool_init E n db = Some p \<Longrightarrow> pg_free_list p = [0..<n] \<and> pg_db p = db"
  using connect_all_list by (fastforce simp: PgPool_init_def steady_now_def)

lemma server_threads_pos: "0 < server_threads n cfg"
  by (simp add: server_threads_def unat_gt_0 less_max_iff_disj)

lemma Server_init_Inr:
  assumes "Server_init B E db cfg = Inr (w, m)"
  shows "w_registry w = Map.empty \<and> w_sessions w = Map.empty \<and> w_jobs w = [] \<and> w_active_sessions w = 0 \<and>
    w_active_connections w = 0 \<and> \<not> w_crashed w \<and> w_sf w = SnowflakeGen_init 1 \<and>
    PgPool_init (e_pg E) (server_threads (bt_hardware_concurrency B) cfg) db = Some (w_pg w) \<and>
    RedisClient_init (bt_hiredis B) (redis_host cfg) (redis_port cfg) (redis_password cfg) (redis_ssl cfg) = Inr (w_redis w) \<and>
    CassandraClient_init (bt_cass B) cfg = Inr (w_cc w, w_cass w)"
  using assms by (auto simp: Server_init_def Let_def split: option.splits sum.splits)

lemma CassandraClient_init_Inr:
  assumes "CassandraClient_init D cfg = Inr (cc, c)"
  shows "cc_insert_msg cc \<and> cc_select_hist cc \<and> cc_delete_msg cc \<and>
    (\<exists>tls. cass_tls_of D cfg = Inr tls \<and> cd_connect D (cass_options cfg tls) = Inr c)"
  using assms by (auto simp: CassandraClient_init_def split: option.splits sum.splits)

lemma CassandraClient_init_ok:
  assumes "\<And>x. cd_trusted_cert D x = None" "\<And>opts. cd_connect D opts = Inr c" "\<And>q. cd_prepare D c q = None"
  shows "\<exists>cc. CassandraClient_init D cfg = Inr (cc, c)"
proof -
  obtain tls where "cass_tls_of D cfg = Inr tls" using assms(1) by (fastforce simp: cass_tls_of_def Let_def)
  then show ?thesis by (simp add: CassandraClient_init_def assms(2,3))
qed

lemma main_Serving:
  assumes "main B E db used html args env = Serving l E' rs w"
  obtains cfg m where "startup (bt_config B) (bt_files B) args env = Inr cfg" "Server_init B E db cfg = Inr (w, m)"
    "E' = configured (bt_host_name B) cfg E" "rs = routes (openapi_spec (bt_files B)) html" "l = listeners used cfg"
  using assms by (auto simp: main_def split: sum.splits prod.splits)

section \<open>A server for examples\<close>

definition demo_boot :: "(rstore, cass_ref, ref_prom) boot" where
  "demo_boot = \<lparr>bt_hardware_concurrency = 4, bt_host_name = ''h'', bt_files = [''config/server.json'' \<mapsto> ''{}''],
     bt_config = ref_config (\<lambda>_. Some shipped_json),
     bt_log = \<lparr>ll_from_str = (\<lambda>s. if s = ''info'' then Info else Off), ll_directories = (\<lambda>_. True), ll_open = (\<lambda>_. True)\<rparr>,
     bt_hiredis = \<lparr>hr_ssl_context = (\<lambda>_. None), hr_connect = (\<lambda>_ _. Inr rstore_empty), hr_initiate_ssl = Inr,
       hr_auth = (\<lambda>r _. (Some (R_ERROR ''WRONGPASS''), r))\<rparr>,
     bt_cass = \<lparr>cd_log = True, cd_trusted_cert = (\<lambda>_. None), cd_connect = (\<lambda>_. Inr \<lparr>cr_rows = [], cr_failures = 0\<rparr>),
       cd_prepare = (\<lambda>_ _. None)\<rparr>,
     bt_prom = ref_prom_lib, bt_tls = (\<lambda>_ _. None)\<rparr>"

lemma demo_boots:
  "\<exists>l E' rs w. main demo_boot demo_env demo_db used [] [] Map.empty = Serving l E' rs w"
proof -
  obtain c where c: "from_json (ref_config (\<lambda>_. Some shipped_json)) shipped_json = Inr c"
    using shipped_loads [OF ref_cl.config_library_axioms] by blast
  have s: "startup (bt_config demo_boot) (bt_files demo_boot) [] Map.empty = Inr c"
    by (simp add: demo_boot_def startup_def from_file_def load_dotenv_def from_env_empty c
        ref_config_def [THEN arg_cong [where f = cl_parse]])
  have "\<exists>pg. PgPool_init (e_pg demo_env) (server_threads 4 c) demo_db = Some pg"
    unfolding PgPool_init_def steady_now_def Let_def prod.case by (rule connect_all_ok) (simp add: demo_env_def)
  then obtain pg where pg: "PgPool_init (e_pg demo_env) (server_threads 4 c) demo_db = Some pg" by blast
  obtain m where "metrics_init ref_prom_lib (unat (metrics_port c)) None = m" by blast
  moreover obtain cc cs where "CassandraClient_init (bt_cass demo_boot) c = Inr (cc, cs)"
    using CassandraClient_init_ok [of "bt_cass demo_boot"] by (fastforce simp: demo_boot_def)
  moreover obtain r where "RedisClient_init (bt_hiredis demo_boot) (redis_host c) (redis_port c) (redis_password c) (redis_ssl c) = Inr r"
    by (simp add: RedisClient_init_def demo_boot_def Let_def)
  moreover obtain lg where "Logger_init (bt_log demo_boot) c = Inr lg"
    by (simp add: Logger_init_def demo_boot_def Let_def)
  ultimately show ?thesis
    using s pg by (simp add: main_def Server_init_def setup_tls_def demo_boot_def Let_def)
qed

section \<open>Properties\<close>

text \<open>C10. A server that gets as far as its event loop has everything it needs: its state satisfies the assumption of the
  theorems on reachable states, the pool can lend as many connections as there are threads and at least one, the
  three statements of the history are prepared, and the secret is not empty.\<close>

theorem boot_starts:
  assumes "main B E db used html args env = Serving l E' rs w" "db_ok db"
  shows "starts w \<and> rs = routes (openapi_spec (bt_files B)) html \<and> e_secret E' \<noteq> [] \<and>
    cc_insert_msg (w_cc w) \<and> cc_select_hist (w_cc w) \<and> cc_delete_msg (w_cc w) \<and>
    (\<exists>cfg. startup (bt_config B) (bt_files B) args env = Inr cfg \<and> e_secret E' = jwt_secret cfg \<and>
      pg_free_list (w_pg w) = [0..<server_threads (bt_hardware_concurrency B) cfg] \<and>
      0 < server_threads (bt_hardware_concurrency B) cfg)"
proof -
  obtain cfg m where c: "startup (bt_config B) (bt_files B) args env = Inr cfg" "Server_init B E db cfg = Inr (w, m)"
    "E' = configured (bt_host_name B) cfg E" "rs = routes (openapi_spec (bt_files B)) html"
    by (rule main_Serving [OF assms(1)]) auto
  note w = Server_init_Inr [OF c(2)]
  have "PgPool_init (e_pg E) (server_threads (bt_hardware_concurrency B) cfg) db = Some (w_pg w)" using w by simp
  from PgPool_init_free [OF this]
  have pg: "pg_free_list (w_pg w) = [0..<server_threads (bt_hardware_concurrency B) cfg]" "pg_db (w_pg w) = db" by simp_all
  have "starts w"
    using w pg server_threads_pos [of "bt_hardware_concurrency B" cfg] assms(2)
    by (simp add: starts_def live_def world_db_ok_def gen_inv_init)
  moreover have "jwt_secret cfg \<noteq> []" by (rule startup_secret [OF c(1)])
  moreover have "e_secret E' = jwt_secret cfg" by (simp add: c(3) configured_def)
  moreover have "cc_insert_msg (w_cc w) \<and> cc_select_hist (w_cc w) \<and> cc_delete_msg (w_cc w)"
    using w CassandraClient_init_Inr [of "bt_cass B" cfg "w_cc w" "w_cass w"] by simp
  ultimately show ?thesis using c(1,4) pg(1) server_threads_pos [of "bt_hardware_concurrency B" cfg] by simp
qed

theorem boot_starts_witness:
  "\<exists>l E' rs w. main demo_boot demo_env demo_db {} [] [] Map.empty = Serving l E' rs w \<and> starts w \<and> w_registry w = Map.empty"
proof -
  obtain l E' rs w where m: "main demo_boot demo_env demo_db {} [] [] Map.empty = Serving l E' rs w"
    using demo_boots by blast
  from boot_starts [OF m demo_db_ok] m show ?thesis by (auto simp: starts_def)
qed

text \<open>A certificate that is given in one line, with escaped newlines, reaches the driver as it was, and then the server
  of the history is verified against it; the certificate may also be given with its newlines.\<close>

theorem ca_cert_roundtrip:
  assumes "cassandra_ssl cfg" "cassandra_ca_cert cfg = escape pem \<or> cassandra_ca_cert cfg = pem"
    and "pem \<noteq> []" "CHR 0x5C \<notin> set pem" "CassandraClient_init D cfg = Inr (cc, c)"
  shows "cd_trusted_cert D pem = None \<and>
    cd_connect D (cass_options cfg (Some \<lparr>ct_trusted = Some pem, ct_verify_peer = True\<rparr>)) = Inr c"
proof -
  have "pem_loop (cassandra_ca_cert cfg) 0 = pem" "cassandra_ca_cert cfg \<noteq> []"
    using assms(2,3,4) unescape_escape [of pem] escape_nonempty [of pem] by (auto simp: pem_loop_eq)
  then show ?thesis
    using CassandraClient_init_Inr [OF assms(5)] assms(1) by (auto simp: cass_tls_of_def split: option.splits)
qed

theorem ca_cert_roundtrip_witness:
  "cd_trusted_cert (bt_cass demo_boot) [CHR ''A'', CHR 0x0A, CHR ''B''] = None"
proof -
  let ?cfg = "Config_init\<lparr>cassandra_ca_cert := escape [CHR ''A'', CHR 0x0A, CHR ''B'']\<rparr>"
  obtain cc c where "CassandraClient_init (bt_cass demo_boot) ?cfg = Inr (cc, c)"
    using CassandraClient_init_ok [of "bt_cass demo_boot"] by (fastforce simp: demo_boot_def)
  from ca_cert_roundtrip [OF _ _ _ _ this, of "[CHR ''A'', CHR 0x0A, CHR ''B'']"] show ?thesis
    by (simp add: Config_init_def)
qed

text \<open>The answer to \<open>AUTH\<close> is not looked at: with a password that Redis refuses the client is constructed all the same, and
  when Redis then answers every command with an error, every message for the offline queue is lost in silence.\<close>

theorem redis_refusal_unnoticed:
  assumes "(if use_ssl then hr_ssl_context H host = None \<and> (\<exists>c. hr_connect H host tcp_port = Inr c \<and> hr_initiate_ssl H c = Inr ctx)
      else hr_connect H host tcp_port = Inr ctx)"
    and "password \<noteq> []" "hr_auth H ctx password = (Some (R_ERROR err), r)" "\<And>cmd. rx r cmd = (Some (R_ERROR noauth), r)"
  shows "RedisClient_init H host tcp_port password use_ssl = Inr r \<and> lpush rx r key data = r \<and> lrange_and_del rx r key = ([], r)"
  using assms by (auto simp: RedisClient_init_def lpush_def lrange_and_del_def split: if_splits)

theorem redis_refusal_unnoticed_witness:
  "RedisClient_init (bt_hiredis demo_boot) ''127.0.0.1'' 6379 ''wrong'' False = Inr rstore_empty \<and>
   lpush (\<lambda>r _. (Some (R_ERROR ''NOAUTH''), r)) rstore_empty ''offline:7'' [1] = rstore_empty"
  using redis_refusal_unnoticed [of False "bt_hiredis demo_boot" "''127.0.0.1''" 6379 rstore_empty "''wrong''" "''WRONGPASS''"
      rstore_empty "\<lambda>r _. (Some (R_ERROR ''NOAUTH''), r)" "''NOAUTH''"]
  by (simp add: demo_boot_def)

text \<open>A port that is in use is not noticed: the server starts as it would otherwise, only that nothing listens on the port;
  a server configured with one port for both protocols never accepts a TCP session.\<close>

theorem port_in_use_unnoticed:
  assumes "main B E db used html args env = Serving l E' rs w"
    and "startup (bt_config B) (bt_files B) args env = Inr cfg"
  shows "main B E db (insert (port cfg) used) html args env =
      Serving (if http_health_port cfg = port cfg then False else fst l, False) E' rs w \<and>
    (http_health_port cfg = port cfg \<longrightarrow> \<not> snd l)"
  using assms by (auto simp: main_def listeners_def Let_def split: sum.splits prod.splits)

theorem port_in_use_unnoticed_witness:
  "\<exists>http E' rs w. main demo_boot demo_env demo_db {p. True} [] [] Map.empty = Serving (http, False) E' rs w"
proof -
  obtain l E' rs w where m: "main demo_boot demo_env demo_db UNIV [] [] Map.empty = Serving l E' rs w"
    using demo_boots by blast
  obtain cfg where "startup (bt_config demo_boot) (bt_files demo_boot) [] Map.empty = Inr cfg"
    by (rule main_Serving [OF m]) auto
  from port_in_use_unnoticed [OF m this] show ?thesis by (auto simp: insert_absorb)
qed

text \<open>A level that the library does not know: the logger itself falls back to \<open>info\<close>, but the file was given the level
  \<open>off\<close>, and nothing is ever written to it.\<close>

theorem unknown_level_silences_file:
  assumes "Logger_init L cfg = Inr lg" "ll_from_str L (log_level cfg) = Off" "log_level cfg \<noteq> ''off''" "log_file cfg \<noteq> []"
  shows "lg_level lg = Info \<and> (\<exists>sink. lg_file lg = Some sink \<and> (\<forall>l. l \<noteq> Off \<longrightarrow> \<not> logs_to sink lg l))"
proof -
  have "6 \<le> level_num l \<Longrightarrow> l = Off" for l by (cases l) simp_all
  then show ?thesis using assms by (auto simp: Logger_init_def logs_to_def split: if_splits)
qed

theorem unknown_level_silences_file_witness:
  "\<exists>lg sink. Logger_init (bt_log demo_boot) (Config_init\<lparr>log_level := ''verbose''\<rparr>) = Inr lg \<and> lg_file lg = Some sink \<and>
     \<not> logs_to sink lg Critical"
proof -
  obtain lg where l: "Logger_init (bt_log demo_boot) (Config_init\<lparr>log_level := ''verbose''\<rparr>) = Inr lg"
    by (simp add: Logger_init_def demo_boot_def Config_init_def Let_def)
  have "\<exists>sink. lg_file lg = Some sink \<and> (\<forall>l. l \<noteq> Off \<longrightarrow> \<not> logs_to sink lg l)"
    using unknown_level_silences_file [OF l] by (simp add: demo_boot_def Config_init_def)
  with l show ?thesis by blast
qed

text \<open>The request identifier is in no line: whatever the threads that handle requests set, the line that another thread formats
  is the one of a program that never sets it.\<close>

lemma fold_request_id:
  "worker \<notin> fst ` set updates \<Longrightarrow> fold (\<lambda>(thread, rid). set_request_id thread rid) updates ctx worker = ctx worker"
  by (induction updates arbitrary: ctx) (auto simp: set_request_id_def)

theorem request_id_missing:
  assumes "\<forall>(thread, rid) \<in> set updates. thread \<noteq> worker"
  shows "log_line (fold (\<lambda>(thread, rid). set_request_id thread rid) updates (\<lambda>_. [])) worker m = log_line (\<lambda>_. []) worker m"
proof -
  have "worker \<notin> fst ` set updates" using assms by auto
  then show ?thesis by (simp add: log_line_def log_prefix_def fold_request_id)
qed

theorem request_id_missing_witness:
  "log_line (set_request_id 0 ''4f1c'' (\<lambda>_. [])) 1 m = log_line (\<lambda>_. []) 1 m"
  using request_id_missing [of "[(0, ''4f1c'')]" 1 m] by simp

text \<open>Texts are not escaped: one message can look like two, of any level and thread.\<close>

theorem log_injection:
  "\<exists>text. log_line ctx worker (m\<lparr>lm_text := text\<rparr>) = log_line ctx worker m @ log_line ctx worker forged"
proof
  show "log_line ctx worker (m\<lparr>lm_text := lm_text m @ ''\"}'' @ [CHR 0x0A] @ log_prefix ctx worker forged @ lm_text forged\<rparr>) =
      log_line ctx worker m @ log_line ctx worker forged"
    by (simp add: log_line_def log_prefix_def)
qed

text \<open>The server runs on one thread: the loops of the worker threads return at once, that of the main thread goes on until a
  signal; and then it stops although sessions are open, whose coroutines are not resumed any more and so never reach their clean-up.\<close>

theorem server_single_thread:
  assumes "0 < threads" "Server_run threads listening = (ctxs, workers, main_returns)"
  shows "length workers = threads - 1 \<and> (\<forall>r \<in> set workers. r) \<and> \<not> main_returns \<and> io_run_returns (Server_shutdown ctxs ! 0)"
proof -
  have l: "length (add_work i cs) = length cs" "j \<noteq> i \<Longrightarrow> add_work i cs ! j = cs ! j"
    "i < length cs \<Longrightarrow> ic_work (add_work i cs ! i) = Suc (ic_work (cs ! i))"
    "i < length cs \<Longrightarrow> ic_stopped (add_work i cs ! i) = ic_stopped (cs ! i)" for i j cs
    by (simp_all add: add_work_def)
  show ?thesis
    using assms by (cases "fst listening"; cases "snd listening")
      (auto simp: Server_run_def Let_def l io_run_returns_def Server_shutdown_def)
qed

theorem server_single_thread_witness:
  "fst (snd (Server_run 4 (True, True))) = [True, True, True]"
proof -
  obtain ctxs workers m where s: "Server_run 4 (True, True) = (ctxs, workers, m)" by (cases "Server_run 4 (True, True)") auto
  have "length workers = 3 \<and> (\<forall>r \<in> set workers. r)" using server_single_thread [OF _ s] by auto
  then have "workers = [True, True, True]" by (simp add: length_Suc_conv numeral_3_eq_3) auto
  with s show ?thesis by simp
qed

text \<open>Without the driver the client does nothing: nothing is stored, nothing is found, nothing is written to a log.\<close>

lemma disabled_client:
  "store_message_async cx b64 cv mi se re co ts ty CassandraClient_disabled c = (CassandraClient_disabled, c)"
  "select_history cx cv before n CassandraClient_disabled c = ([], c)"
  "delete_message cx cv mi CassandraClient_disabled c = c"
  by (simp_all add: store_message_async_def select_history_def delete_message_def CassandraClient_disabled_def)

end
