(* ===== verification/Load_Client.thy ===== *)
theory Load_Client
  imports Tcp_Session "HOL-Library.AList" "HOL-Library.Multiset"
begin

text \<open>
  \<open>src/server/tools/load_client.cpp\<close>: the load test, a client of the TCP protocol.  Its arguments, its token bucket, its
  connection and login, the loop of a session with the accounting of what was sent and measured, the percentiles, and \<open>main\<close> with its report.
  A \<open>double\<close> is a real number with a rounding parameter \<open>rnd\<close>, as in the theory \<open>RateLimit\<close>; times are nanoseconds of
  \<open>steady_clock\<close>, whose readings are a sequence.  One round of a session is described by what the network and the
  random generator did in it.  The resolver, the sockets and TLS are parameters and the printed text is not modelled; the threads differ
  only in the order in which they add their results.
\<close>

section \<open>Options\<close>

record Options =
  op_host :: string
  op_port :: "16 word"
  op_threads :: int
  op_sessions_per_thread :: int
  op_rate :: real
  op_duration_sec :: int
  op_jwt :: string
  op_reconnect_pct :: int

definition Options_init :: Options where
  "Options_init = \<lparr>op_host = ''127.0.0.1'', op_port = 7777, op_threads = 4, op_sessions_per_thread = 10, op_rate = 10,
     op_duration_sec = 30, op_jwt = [], op_reconnect_pct = 0\<rparr>"

text \<open>What one key does with its value (outer \<open>None\<close>: no such key; inner \<open>None\<close>: \<open>stoi\<close> or \<open>stod\<close> throws).\<close>

definition set_option :: "(string \<Rightarrow> real option) \<Rightarrow> string \<Rightarrow> string \<Rightarrow> Options \<Rightarrow> Options option option" where
  "set_option stod key val opt =
     (if key = ''--host'' then Some (Some (opt\<lparr>op_host := val\<rparr>))
      else if key = ''--port'' then Some (map_option (\<lambda>i. opt\<lparr>op_port := of_int i\<rparr>) (stoi val))
      else if key = ''--threads'' then Some (map_option (\<lambda>i. opt\<lparr>op_threads := i\<rparr>) (stoi val))
      else if key = ''--sessions-per-thread'' then Some (map_option (\<lambda>i. opt\<lparr>op_sessions_per_thread := i\<rparr>) (stoi val))
      else if key = ''--rate'' then Some (map_option (\<lambda>r. opt\<lparr>op_rate := r\<rparr>) (stod val))
      else if key = ''--duration'' then Some (map_option (\<lambda>i. opt\<lparr>op_duration_sec := i\<rparr>) (stoi val))
      else if key = ''--jwt'' then Some (Some (opt\<lparr>op_jwt := val\<rparr>))
      else if key = ''--reconnect-pct'' then Some (map_option (\<lambda>i. opt\<lparr>op_reconnect_pct := i\<rparr>) (stoi val))
      else None)"

text \<open>The arguments after the program's name; \<open>None\<close>: an exception.\<close>

fun parse_args :: "(string \<Rightarrow> real option) \<Rightarrow> string list \<Rightarrow> Options \<Rightarrow> Options option" where
  "parse_args stod (key # val # args) opt =
     (case set_option stod key val opt of
        None \<Rightarrow> parse_args stod (val # args) opt
      | Some None \<Rightarrow> None
      | Some (Some opt) \<Rightarrow> parse_args stod args opt)"
| "parse_args stod _ opt = Some opt"

section \<open>Token bucket\<close>

record PaceBucket =
  pb_tokens :: real
  pb_rate :: real
  pb_max_tokens :: real
  pb_last :: int

definition PaceBucket_init :: "real \<Rightarrow> real \<Rightarrow> int \<Rightarrow> PaceBucket" where
  "PaceBucket_init r max_tokens now = \<lparr>pb_tokens = max_tokens, pb_rate = r, pb_max_tokens = max_tokens, pb_last = now\<rparr>"

definition refill :: "(real \<Rightarrow> real) \<Rightarrow> int \<Rightarrow> PaceBucket \<Rightarrow> PaceBucket" where
  "refill rnd now b =
     (let elapsed = seconds rnd (now - pb_last b);
          b = b\<lparr>pb_last := now\<rparr>
      in b\<lparr>pb_tokens := min (pb_max_tokens b) (rnd (pb_tokens b + rnd (elapsed * pb_rate b)))\<rparr>)"

text \<open>\<open>clk k\<close> is the \<open>k\<close>-th reading of the clock, which goes on while the thread sleeps; \<open>None\<close>: the loop does not end.\<close>

partial_function (option) wait_and_consume ::
  "(real \<Rightarrow> real) \<Rightarrow> (nat \<Rightarrow> int) \<Rightarrow> nat \<Rightarrow> PaceBucket \<Rightarrow> (PaceBucket \<times> nat) option" where
  "wait_and_consume rnd clk k b =
     (let b = refill rnd (clk k) b
      in if 1 \<le> pb_tokens b then Some (b\<lparr>pb_tokens := rnd (pb_tokens b - 1)\<rparr>, Suc k)
         else wait_and_consume rnd clk (Suc k) b)"

section \<open>The connection\<close>

text \<open>The resolver, the connection to the first endpoint that answers, and the handshake, after which the bytes that the server
  will send are there; each can fail with an exception.\<close>

record ('e, 's) tls_client =
  tc_resolve :: "string \<Rightarrow> string \<Rightarrow> string + 'e list"
  tc_connect :: "'e list \<Rightarrow> string + 's"
  tc_handshake :: "'s \<Rightarrow> string + bytes"

definition make_connection :: "('e, 's) tls_client \<Rightarrow> Options \<Rightarrow> string + bytes" where
  "make_connection T opt =
     (case tc_resolve T (op_host opt) (string_of_nat (unat (op_port opt))) of
        Inl e \<Rightarrow> Inl e
      | Inr endpoints \<Rightarrow>
          (case tc_connect T endpoints of
             Inl e \<Rightarrow> Inl e
           | Inr stream \<Rightarrow> tc_handshake T stream))"

section \<open>The wire\<close>

definition send_frame :: "FrameHeader \<Rightarrow> bytes \<Rightarrow> bytes" where
  "send_frame hdr payload = (let wire = header_bytes hdr in if payload \<noteq> [] then wire @ payload else wire)"

definition auth_frame :: "string \<Rightarrow> bytes" where
  "auth_frame jwt = send_frame (FrameHeader_zero\<lparr>fh_msg_type := MsgType_AUTH, fh_payload_len := of_nat (length jwt)\<rparr>)
     (bytes_of_chars jwt)"

text \<open>The rest of \<open>do_auth\<close>, on the bytes that come back; \<open>None\<close>: \<open>net::read\<close> throws.\<close>

definition do_auth :: "bytes \<Rightarrow> bool option" where
  "do_auth reply = map_option (\<lambda>(hdr, _). fh_msg_type hdr = MsgType_PONG) (read_frame_header reply)"

definition test_payload :: bytes where
  "test_payload = bytes_of_chars ''loomic-load-test-message-payload''"

definition chat_header :: "u64 \<Rightarrow> u64 \<Rightarrow> FrameHeader" where
  "chat_header session_idx msg_id = FrameHeader_zero
     \<lparr>fh_msg_type := MsgType_CHAT, fh_payload_len := of_nat (length test_payload), fh_sender_id := session_idx,
      fh_recipient_id := 1, fh_msg_id := msg_id, fh_flags := 0\<rparr>"

section \<open>A session\<close>

record Stats =
  st_latencies_ms :: "real list"
  st_sent :: u64
  st_dropped :: u64

definition Stats_init :: Stats where
  "Stats_init = \<lparr>st_latencies_ms = [], st_sent = 0, st_dropped = 0\<rparr>"

text \<open>A round: the identifier drawn, the time before sending, whether sending worked, the header that was read (\<open>None\<close>: an
  error), and the time after that.\<close>

record round =
  rd_msg_id :: u64
  rd_t_send :: int
  rd_sent :: bool
  rd_receipt :: "FrameHeader option"
  rd_now :: int

type_synonym in_flight = "(u64 \<times> int) list"

definition note_receipt :: "(real \<Rightarrow> real) \<Rightarrow> round \<Rightarrow> in_flight \<times> Stats \<Rightarrow> in_flight \<times> Stats" where
  "note_receipt rnd r = (\<lambda>(in_flight, st).
     (case rd_receipt r of
        None \<Rightarrow> (in_flight, st)
      | Some receipt \<Rightarrow>
          if fh_msg_type receipt = MsgType_DELIVERED
          then (case map_of in_flight (fh_msg_id receipt) of
                  None \<Rightarrow> (in_flight, st)
                | Some t \<Rightarrow> (AList.delete (fh_msg_id receipt) in_flight,
                    st\<lparr>st_latencies_ms := st_latencies_ms st @ [rnd (real_of_int (rd_now r - t) / 1000000)]\<rparr>))
          else (in_flight, st)))"

text \<open>The loop over the rounds before the deadline; a failed write ends it.\<close>

fun session_loop :: "(real \<Rightarrow> real) \<Rightarrow> round list \<Rightarrow> in_flight \<times> Stats \<Rightarrow> in_flight \<times> Stats" where
  "session_loop rnd [] s = s"
| "session_loop rnd (r # rs) (in_flight, st) =
     (if rd_sent r
      then session_loop rnd rs (note_receipt rnd r
        (AList.update (rd_msg_id r) (rd_t_send r) in_flight, st\<lparr>st_sent := st_sent st + 1\<rparr>))
      else (in_flight, st\<lparr>st_dropped := st_dropped st + 1\<rparr>))"

definition run_session :: "(real \<Rightarrow> real) \<Rightarrow> bool option \<Rightarrow> round list \<Rightarrow> Stats" where
  "run_session rnd auth rounds =
     (if auth = Some False then Stats_init
      else let (in_flight, st) = (if auth = None then ([], Stats_init) else session_loop rnd rounds ([], Stats_init))
           in st\<lparr>st_dropped := st_dropped st + of_nat (length in_flight)\<rparr>)"

text \<open>How a session begins: the connection and the login; \<open>None\<close> when one of them throws.\<close>

definition open_session :: "('e, 's) tls_client \<Rightarrow> Options \<Rightarrow> bool option" where
  "open_session T opt = (case make_connection T opt of Inl e \<Rightarrow> None | Inr stream \<Rightarrow> do_auth stream)"

text \<open>\<open>thread_worker\<close> runs the sessions one after the other; \<open>main\<close> adds their counters and joins their samples.\<close>

definition thread_worker :: "Options \<Rightarrow> (u64 \<Rightarrow> Stats) \<Rightarrow> int \<Rightarrow> Stats list" where
  "thread_worker opt run thread_idx =
     map (\<lambda>s. run (of_int thread_idx * of_int (op_sessions_per_thread opt) + of_int s)) [0..op_sessions_per_thread opt - 1]"

definition merge_stats :: "Stats list \<Rightarrow> Stats" where
  "merge_stats sts = foldl (\<lambda>a st. \<lparr>st_latencies_ms = st_latencies_ms a @ st_latencies_ms st,
     st_sent = st_sent a + st_sent st, st_dropped = st_dropped a + st_dropped st\<rparr>) Stats_init sts"

section \<open>Percentiles\<close>

definition percentile :: "(real \<Rightarrow> real) \<Rightarrow> real list \<Rightarrow> real \<Rightarrow> real" where
  "percentile rnd v p =
     (if v = [] then 0
      else let v = sort v;
               idx = nat \<lfloor>rnd (rnd (p * real (length v - 1)) / 100)\<rfloor>
           in v ! idx)"

section \<open>The report\<close>

record Report =
  rp_elapsed :: real
  rp_sent :: u64
  rp_dropped :: u64
  rp_throughput :: real
  rp_latency :: "(real \<times> real \<times> real) option"
  rp_warned :: bool

definition report :: "(real \<Rightarrow> real) \<Rightarrow> Stats list \<Rightarrow> real \<Rightarrow> Report" where
  "report rnd all_stats elapsed =
     (let total = merge_stats all_stats; all_latencies = st_latencies_ms total
      in \<lparr>rp_elapsed = elapsed, rp_sent = st_sent total, rp_dropped = st_dropped total,
           rp_throughput = rnd (rnd (real_of_int (uint (st_sent total))) / elapsed),
           rp_latency = (if all_latencies \<noteq> []
             then Some (percentile rnd all_latencies 50, percentile rnd all_latencies 99, percentile rnd all_latencies (rnd (999 / 10)))
             else None),
           rp_warned = (all_latencies \<noteq> [] \<and> percentile rnd all_latencies 99 > 10)\<rparr>)"

text \<open>\<open>main\<close>: the exit status and what was reported; \<open>None\<close>: an exception ends the program, from a bad argument or from
  \<open>reserve\<close> with a negative number.  \<open>order\<close> is the order in which the threads finish.\<close>

definition load_main ::
  "(real \<Rightarrow> real) \<Rightarrow> (string \<Rightarrow> real option) \<Rightarrow> string list \<Rightarrow> (Options \<Rightarrow> u64 \<Rightarrow> Stats) \<Rightarrow>
   (Stats list list \<Rightarrow> Stats list list) \<Rightarrow> real \<Rightarrow> (nat \<times> Report option) option" where
  "load_main rnd stod args run order elapsed =
     (case parse_args stod args Options_init of
        None \<Rightarrow> None
      | Some opt \<Rightarrow>
          if op_jwt opt = [] then Some (1, None)
          else if op_threads opt < 0 \<or> op_threads opt > 0 \<and> op_sessions_per_thread opt < 0 then None
          else let all_stats = concat (order (map (thread_worker opt (run opt)) [0..op_threads opt - 1]))
               in Some (0, Some (report rnd all_stats elapsed)))"

section \<open>Lemmas\<close>

lemma merge_stats_sums:
  "merge_stats sts = \<lparr>st_latencies_ms = concat (map st_latencies_ms sts), st_sent = sum_list (map st_sent sts),
     st_dropped = sum_list (map st_dropped sts)\<rparr>"
proof -
  have "foldl (\<lambda>a st. \<lparr>st_latencies_ms = st_latencies_ms a @ st_latencies_ms st, st_sent = st_sent a + st_sent st,
      st_dropped = st_dropped a + st_dropped st\<rparr>) a sts =
    \<lparr>st_latencies_ms = st_latencies_ms a @ concat (map st_latencies_ms sts), st_sent = st_sent a + sum_list (map st_sent sts),
      st_dropped = st_dropped a + sum_list (map st_dropped sts)\<rparr>" for a
    by (induction sts arbitrary: a) (simp_all add: ac_simps)
  then show ?thesis by (simp add: merge_stats_def Stats_init_def)
qed

lemma mset_concat_sum: "mset (concat xss) = sum_mset (image_mset mset (mset xss))"
  by (induction xss) simp_all

lemma percentile_mset: "mset v = mset v' \<Longrightarrow> percentile rnd v p = percentile rnd v' p"
proof -
  assume m: "mset v = mset v'"
  then have "sort v = sort v'" by (metis sorted_list_of_multiset_mset)
  moreover have "length v = length v'" "v = [] \<longleftrightarrow> v' = []" using m by (auto dest: mset_eq_length)
  ultimately show ?thesis by (simp add: percentile_def)
qed

lemma report_mset:
  assumes "mset sts = mset sts'"
  shows "report rnd sts t = report rnd sts' t"
proof -
  let ?l = "\<lambda>sts. concat (map st_latencies_ms sts)"
  have l: "mset (?l sts) = mset (?l sts')"
    using assms by (simp add: mset_concat_sum flip: mset_map) (simp add: assms)
  then have e: "?l sts = [] \<longleftrightarrow> ?l sts' = []" by (metis mset_zero_iff)
  have s: "sum_list (map f sts) = sum_list (map f sts')" for f :: "Stats \<Rightarrow> u64"
    using assms by (metis mset_map sum_mset_sum_list)
  show ?thesis
    using percentile_mset [OF l] e by (simp add: report_def merge_stats_sums Let_def s del: concat_eq_Nil_conv)
qed

lemma refill_fields [simp]:
  "pb_rate (refill rnd now b) = pb_rate b" "pb_max_tokens (refill rnd now b) = pb_max_tokens b"
  "pb_last (refill rnd now b) = now" "pb_tokens (refill rnd now b) \<le> pb_max_tokens b"
  by (simp_all add: refill_def Let_def)

lemma send_frame_eq: "send_frame hdr payload = write_frame hdr payload"
  by (simp add: send_frame_def write_frame_def Let_def)

text \<open>A session that does not get to its loop, whatever failed, reports nothing: no message counts as sent or dropped.\<close>

lemma unreachable_reports_nothing:
  "open_session T opt \<noteq> Some True \<Longrightarrow> run_session rnd (open_session T opt) rounds = Stats_init"
  by (cases "open_session T opt") (auto simp: run_session_def Stats_init_def Let_def)

text \<open>A bucket that cannot hold one token never gives one.\<close>

lemma wait_never:
  assumes "wait_and_consume rnd clk k b = Some r"
  shows "1 \<le> pb_max_tokens b"
  using assms
proof (induction rule: wait_and_consume.raw_induct [rotated 1, consumes 1])
  case (1 f rnd clk k b r)
  show ?case
  proof (cases "1 \<le> pb_tokens (refill rnd (clk k) b)")
    case True
    then show ?thesis using refill_fields(4) order_trans by blast
  next
    case False
    then show ?thesis using 1 by (fastforce simp: Let_def)
  qed
qed

lemma exact_refill:
  "pb_tokens (refill (\<lambda>x. x) now b) = min (pb_max_tokens b) (pb_tokens b + real_of_int (now - pb_last b) / 1000000000 * pb_rate b)"
  by (simp add: refill_def seconds_def Let_def)

text \<open>The tokens of an uncapped bucket grow with the clock, however often it is read.\<close>

lemma wait_returns:
  assumes "1 \<le> pb_max_tokens b" "1 \<le> pb_tokens b + real_of_int (clk (k + n) - pb_last b) / 1000000000 * pb_rate b"
  shows "\<exists>b' k'. wait_and_consume (\<lambda>x. x) clk k b = Some (b', k')"
  using assms
proof (induction n arbitrary: k b)
  case 0
  then have "1 \<le> pb_tokens (refill (\<lambda>x. x) (clk k) b)" by (simp add: exact_refill)
  then show ?case by (subst wait_and_consume.simps) (simp add: Let_def)
next
  case (Suc n)
  let ?b = "refill (\<lambda>x. x) (clk k) b"
  show ?case
  proof (cases "1 \<le> pb_tokens ?b")
    case True
    then show ?thesis by (subst wait_and_consume.simps) (simp add: Let_def)
  next
    case False
    then have t: "pb_tokens ?b = pb_tokens b + real_of_int (clk k - pb_last b) / 1000000000 * pb_rate b"
      using Suc.prems(1) by (auto simp: exact_refill min_def split: if_splits)
    have "1 \<le> pb_tokens ?b + real_of_int (clk (Suc k + n) - pb_last ?b) / 1000000000 * pb_rate ?b"
      using Suc.prems(2) by (simp add: t add_divide_distrib diff_divide_distrib algebra_simps)
    from Suc.IH [OF _ this] Suc.prems(1) False show ?thesis
      by (subst wait_and_consume.simps) (simp add: Let_def)
  qed
qed

text \<open>What is in flight: one entry for each identifier that was sent and not matched.\<close>

lemma update_new: "k \<notin> fst ` set al \<Longrightarrow> AList.update k v al = al @ [(k, v)]"
  by (induction al) auto

lemma delete_length: "distinct (map fst al) \<Longrightarrow> map_of al k = Some v \<Longrightarrow> length al = Suc (length (AList.delete k al))"
proof (induction al)
  case (Cons p al)
  then show ?case by (cases "fst p = k") (auto simp: delete_notin_dom dom_map_of_conv_image_fst split: if_splits)
qed simp

lemma note_receipt_account:
  assumes "note_receipt rnd r (fl, st) = (fl', st')" "distinct (map fst fl)"
  shows "distinct (map fst fl') \<and> fst ` set fl' \<subseteq> fst ` set fl \<and> st_sent st' = st_sent st \<and> st_dropped st' = st_dropped st \<and>
    length (st_latencies_ms st') + length fl' = length (st_latencies_ms st) + length fl"
proof (cases "\<exists>h t. rd_receipt r = Some h \<and> fh_msg_type h = MsgType_DELIVERED \<and> map_of fl (fh_msg_id h) = Some t")
  case True
  then obtain h t where h: "rd_receipt r = Some h" "fh_msg_type h = MsgType_DELIVERED" "map_of fl (fh_msg_id h) = Some t" by blast
  then have e: "fl' = AList.delete (fh_msg_id h) fl"
    "st' = st\<lparr>st_latencies_ms := st_latencies_ms st @ [rnd (real_of_int (rd_now r - t) / 1000000)]\<rparr>"
    using assms(1) by (simp_all add: note_receipt_def)
  have "fst ` set fl' \<subseteq> fst ` set fl" by (auto simp: e(1) AList.delete_eq)
  with e h delete_length [OF assms(2) h(3)] distinct_delete [OF assms(2)] show ?thesis by simp
next
  case False
  then have "fl' = fl" "st' = st" using assms(1) by (auto simp: note_receipt_def split: option.splits if_splits)
  with assms(2) show ?thesis by simp
qed

lemma subset_insert_disjoint: "A \<subseteq> insert x B \<Longrightarrow> x \<notin> C \<Longrightarrow> B \<inter> C = {} \<Longrightarrow> A \<inter> C = {}"
  by blast

definition attempted :: "round list \<Rightarrow> nat" where
  "attempted rounds = min (length rounds) (Suc (length (takeWhile rd_sent rounds)))"

lemma session_loop_account:
  assumes "session_loop rnd rs (fl, st) = (fl', st')" "distinct (map fst fl)" "distinct (map rd_msg_id rs)"
    and "fst ` set fl \<inter> rd_msg_id ` set rs = {}"
  shows "st_sent st' = st_sent st + of_nat (length (takeWhile rd_sent rs)) \<and>
    of_nat (length (st_latencies_ms st') + length fl') + st_dropped st' =
      of_nat (length (st_latencies_ms st) + length fl + attempted rs) + st_dropped st"
  using assms
proof (induction rs arbitrary: fl st)
  case Nil
  then show ?case by (simp add: attempted_def)
next
  case (Cons r rs)
  show ?case
  proof (cases "rd_sent r")
    case False
    then show ?thesis using Cons.prems(1) by (simp add: attempted_def) (auto simp: algebra_simps)
  next
    case True
    have new: "rd_msg_id r \<notin> fst ` set fl" using Cons.prems(4) by auto
    let ?fl = "fl @ [(rd_msg_id r, rd_t_send r)]" and ?st = "st\<lparr>st_sent := st_sent st + 1\<rparr>"
    obtain fl1 st1 where n: "note_receipt rnd r (?fl, ?st) = (fl1, st1)" by fastforce
    have "distinct (map fst ?fl)" using new Cons.prems(2) by simp
    note a = note_receipt_account [OF n this]
    have l: "session_loop rnd rs (fl1, st1) = (fl', st')"
      using Cons.prems(1) True n by (simp add: update_new [OF new])
    have "fst ` set fl1 \<subseteq> insert (rd_msg_id r) (fst ` set fl)" using a by simp
    moreover have "rd_msg_id r \<notin> rd_msg_id ` set rs" "fst ` set fl \<inter> rd_msg_id ` set rs = {}"
      using Cons.prems(3,4) by auto
    ultimately have "fst ` set fl1 \<inter> rd_msg_id ` set rs = {}" by (rule subset_insert_disjoint)
    note ih = Cons.IH [OF l _ _ this]
    have d: "distinct (map fst fl1)" "distinct (map rd_msg_id rs)" using a Cons.prems(3) by simp_all
    have "length (st_latencies_ms st1) + length fl1 + attempted rs = length (st_latencies_ms st) + length fl + attempted (r # rs)"
      using a True by (simp add: attempted_def)
    moreover have "st_sent st1 = st_sent st + 1" "st_dropped st1 = st_dropped st" using a by simp_all
    ultimately show ?thesis
      using ih [OF d] True by (simp only: takeWhile.simps if_True list.size of_nat_add of_nat_Suc of_nat_0 One_nat_def simp_thms) (simp add: ac_simps)
  qed
qed

text \<open>Receipts for other identifiers leave no sample.\<close>

lemma session_loop_blind:
  assumes "\<forall>r \<in> set rs. \<forall>h. rd_receipt r = Some h \<longrightarrow> fh_msg_id h \<notin> ids" "rd_msg_id ` set rs \<subseteq> ids" "fst ` set fl \<subseteq> ids"
  shows "st_latencies_ms (snd (session_loop rnd rs (fl, st))) = st_latencies_ms st"
  using assms
proof (induction rs arbitrary: fl st)
  case (Cons r rs)
  let ?fl = "AList.update (rd_msg_id r) (rd_t_send r) fl" and ?st = "st\<lparr>st_sent := st_sent st + 1\<rparr>"
  have fl: "fst ` set ?fl \<subseteq> ids" using Cons.prems(2,3) by (auto simp: dom_update)
  have "map_of ?fl (fh_msg_id h) = None" if "rd_receipt r = Some h" for h
    using that fl Cons.prems(1) by (auto simp: map_of_eq_None_iff)
  then have "note_receipt rnd r (?fl, ?st) = (?fl, ?st)" by (simp add: note_receipt_def split: option.splits)
  with Cons.IH [OF _ _ fl] Cons.prems(1,2) show ?case by simp
qed simp

section \<open>Properties\<close>

text \<open>The client paces itself only above one message in two seconds: with a clock that goes on, a bucket made for the rate
  \<open>r\<close> gives a token exactly if \<open>2 r \<ge> 1\<close>.  Below that rate the bucket, which holds \<open>2 r\<close> tokens, never has a whole one,
  whatever the clock and the rounding: the session waits for ever, past its deadline.\<close>

theorem load_client_pacing:
  assumes "0 < r" "\<And>k t. \<exists>n. t \<le> clk (k + n)" "pb_rate b = r" "pb_max_tokens b = r * 2" "0 \<le> pb_tokens b"
  shows "(wait_and_consume (\<lambda>x. x) clk k b \<noteq> None \<longleftrightarrow> 1 \<le> r * 2) \<and>
    (r * 2 < 1 \<longrightarrow> wait_and_consume rnd clk' j b = None)"
proof -
  obtain n where n: "pb_last b + \<lceil>1000000000 / r\<rceil> \<le> clk (k + n)" using assms(2) by blast
  have "1000000000 / r \<le> real_of_int \<lceil>1000000000 / r\<rceil>" by simp
  also have "\<dots> \<le> real_of_int (clk (k + n) - pb_last b)" using n by linarith
  finally have "1 \<le> real_of_int (clk (k + n) - pb_last b) / 1000000000 * r"
    using assms(1) by (simp add: field_simps)
  then have "1 \<le> r * 2 \<Longrightarrow> wait_and_consume (\<lambda>x. x) clk k b \<noteq> None"
    using wait_returns [of b clk k n] assms(3,4,5) by auto
  moreover have "1 \<le> r * 2" if "wait_and_consume rnd clk k b = Some x" for rnd clk k x
    using wait_never [OF that] assms(4) by simp
  ultimately show ?thesis by (cases "wait_and_consume rnd clk' j b") force+
qed

theorem load_client_pacing_witness:
  "wait_and_consume (\<lambda>x. x) (\<lambda>k. int k) 0 (PaceBucket_init (2 / 5) (2 / 5 * 2) 0) = None \<and>
   wait_and_consume (\<lambda>x. x) (\<lambda>k. int k) 0 (PaceBucket_init 10 (10 * 2) 0) \<noteq> None"
proof -
  have c: "\<exists>n. t \<le> int (k + n)" for k t by (intro exI [of _ "nat t"]) simp
  show ?thesis
    using load_client_pacing [of "2 / 5" int "PaceBucket_init (2 / 5) (2 / 5 * 2) 0", OF _ c]
      load_client_pacing [of 10 int "PaceBucket_init 10 (10 * 2) 0", OF _ c]
    by (simp add: PaceBucket_init_def)
qed

text \<open>Client and server agree about the login: for a token of at most 4096 bytes on an open connection the server writes
  exactly one frame, and the client takes it as success exactly if the server accepted the token, in which case the
  server goes on with what the client sends next.\<close>

theorem client_auth_agrees:
  assumes "w_sessions w s = Some ss" "ss_open ss" "length jwt \<le> 4096"
    and "tcp_auth E s (auth_frame jwt @ rest) w = (r, w')"
  shows "\<exists>ss' reply. w_sessions w' s = Some ss' \<and> ss_sent ss' = ss_sent ss @ [Frame reply] \<and>
    do_auth reply = Some (jwt_verify (e_jwt E) (e_secret E) (fst (w_now E w)) jwt \<noteq> None) \<and>
    r = (if jwt_verify (e_jwt E) (e_secret E) (fst (w_now E w)) jwt \<noteq> None then Inr rest else Inl RunReturn)"
proof -
  have b: "length (bytes_of_chars jwt) = length jwt" by (simp add: bytes_of_chars_def)
  have p: "read_frame_payload (of_nat (length jwt)) (bytes_of_chars jwt @ rest) = Some (bytes_of_chars jwt, rest)"
    using read_frame_payload_append [of "bytes_of_chars jwt" rest] assms(3) by (simp add: b)
  have h: "unat (of_nat (length jwt) :: u32) = length jwt"
    using assms(3) by (simp add: unat_of_nat take_bit_nat_eq_self)
  have reply: "do_auth (write_frame (msg_header ty) []) = Some (ty = MsgType_PONG)" for ty
    using read_frame_header_append [of "msg_header ty" "[]"] by (simp add: do_auth_def write_frame_def msg_header_def)
  show ?thesis
    using assms(1,2,3,4) p h
    by (auto simp: tcp_auth_def auth_frame_def send_frame_eq write_frame_def [of _ "bytes_of_chars jwt"] w_now_def Let_def split_beta tcp_write_def
        upd_session_def reply MsgType_PONG_def MsgType_ERROR_def session_online_def tcp_flush_offline_queue_def enter_def
        heartbeat_start_def w_steady_now_def split: option.splits)
qed

lemma stoll_seven: "stoll ''7'' = Some 7"
  by code_simp

theorem client_auth_agrees_witness:
  "\<exists>r w' ss' reply. tcp_auth demo_env 1 (auth_frame ''7'') demo_world = (r, w') \<and> w_sessions w' 1 = Some ss' \<and>
     ss_sent ss' = [Frame reply] \<and> do_auth reply = Some True"
proof -
  obtain r w' where t: "tcp_auth demo_env 1 (auth_frame ''7'' @ []) demo_world = (r, w')" by fastforce
  have s: "w_sessions demo_world 1 = Some ((session_init Tcp 0)\<lparr>ss_user_id := 7, ss_phase := Running\<rparr>)" by (simp add: demo_world_def)
  have "jwt_verify (e_jwt demo_env) (e_secret demo_env) (fst (w_now demo_env demo_world)) ''7'' \<noteq> None"
    by (simp add: jwt_verify_def demo_env_def demo_jwt_def stoll_seven)
  with client_auth_agrees [OF s _ _ t] t show ?thesis by (auto simp: session_init_def)
qed

text \<open>Every message is accounted for: if the identifiers drawn are different, the counter of sent messages is the number of
  rounds up to the first failed write, and every attempt is either measured once or counted as dropped.\<close>

theorem load_accounting:
  assumes "distinct (map rd_msg_id rounds)" "st = run_session rnd (Some True) rounds"
  shows "st_sent st = of_nat (length (takeWhile rd_sent rounds)) \<and>
    of_nat (length (st_latencies_ms st)) + st_dropped st = of_nat (attempted rounds)"
proof -
  obtain fl st' where l: "session_loop rnd rounds ([], Stats_init) = (fl, st')" by fastforce
  show ?thesis
    using session_loop_account [OF l] assms l by (simp add: run_session_def Stats_init_def algebra_simps)
qed

theorem load_accounting_witness:
  "st_sent (run_session (\<lambda>x. x) (Some True)
     [\<lparr>rd_msg_id = 5, rd_t_send = 0, rd_sent = True, rd_receipt = None, rd_now = 1\<rparr>]) = 1"
  using load_accounting [OF _ refl, of "[\<lparr>rd_msg_id = 5, rd_t_send = 0, rd_sent = True, rd_receipt = None, rd_now = 1\<rparr>]" "\<lambda>x. x"]
  by simp



text \<open>The report does not depend on the order in which the threads finish, and the exit status is 0 whatever was measured: 1 only
  means that no token was given.\<close>

theorem load_report_order:
  assumes "\<And>xs. mset (o1 xs) = mset xs" "\<And>xs. mset (o2 xs) = mset xs"
  shows "load_main rnd stod args run o1 t = load_main rnd stod args run o2 t \<and>
    (\<forall>c r. load_main rnd stod args run o1 t = Some (c, r) \<longrightarrow> c = (if r = None then 1 else 0))"
proof -
  have "mset (concat (o1 xss)) = mset (concat (o2 xss))" for xss
    by (simp add: mset_concat_sum assms)
  from report_mset [OF this] show ?thesis by (auto simp: load_main_def split: option.splits if_splits)
qed

theorem load_report_order_witness:
  "load_main (\<lambda>x. x) (\<lambda>_. None) [''--jwt'', ''t''] (\<lambda>_ _. Stats_init) rev 30 =
   load_main (\<lambda>x. x) (\<lambda>_. None) [''--jwt'', ''t''] (\<lambda>_ _. Stats_init) (\<lambda>xs. xs) 30"
  using load_report_order [of rev "\<lambda>xs. xs"] by simp

text \<open>A percentile is one of the samples, with at least its share of the samples at or below it, and it grows with \<open>p\<close>.\<close>

theorem percentile_rank:
  assumes "v \<noteq> []" "0 \<le> p" "p \<le> q" "q \<le> 100"
  shows "percentile (\<lambda>x. x) v p \<in> set v \<and> percentile (\<lambda>x. x) v p \<le> percentile (\<lambda>x. x) v q \<and>
    p * real (length v - 1) / 100 < real (length (filter (\<lambda>x. x \<le> percentile (\<lambda>x. x) v p) v))"
proof -
  let ?s = "sort v"
  define i where "i p = nat \<lfloor>p * real (length v - 1) / 100\<rfloor>" for p
  have i: "i p < length v" if "0 \<le> p" "p \<le> 100" for p
  proof -
    have "p * real (length v - 1) / 100 \<le> 100 * real (length v - 1) / 100" using that by (intro divide_right_mono mult_right_mono) auto
    then have "\<lfloor>p * real (length v - 1) / 100\<rfloor> \<le> int (length v - 1)" by linarith
    then show ?thesis using assms(1) by (cases v) (auto simp: i_def)
  qed
  have e: "percentile (\<lambda>x. x) v p = ?s ! i p" for p using assms(1) by (simp add: percentile_def i_def)
  have m: "i p \<le> i q" unfolding i_def using assms(3) by (intro nat_mono floor_mono divide_right_mono mult_right_mono) auto
  have "set (take (Suc (i p)) ?s) \<subseteq> {x. x \<le> ?s ! i p}"
    using i [of p] assms by (auto simp: in_set_conv_nth intro!: sorted_nth_mono)
  then have "filter (\<lambda>x. x \<le> ?s ! i p) (take (Suc (i p)) ?s) = take (Suc (i p)) ?s" by (auto simp: filter_id_conv)
  then have "Suc (i p) \<le> length (filter (\<lambda>x. x \<le> ?s ! i p) (take (Suc (i p)) ?s))" using i [of p] assms by simp
  also have "\<dots> \<le> length (filter (\<lambda>x. x \<le> ?s ! i p) (take (Suc (i p)) ?s @ drop (Suc (i p)) ?s))"
    by (simp only: filter_append length_append le_add1)
  also have "\<dots> = length (filter (\<lambda>x. x \<le> ?s ! i p) v)"
    by (simp only: append_take_drop_id) (metis mset_filter mset_sort size_mset)
  finally have "real (Suc (i p)) \<le> real (length (filter (\<lambda>x. x \<le> ?s ! i p) v))" by (simp only: of_nat_le_iff)
  moreover have "p * real (length v - 1) / 100 < real (Suc (i p))"
    using assms(2) unfolding i_def by linarith
  moreover have "?s ! i p \<in> set v" using nth_mem [of "i p" ?s] i [of p] assms by simp
  moreover have "?s ! i p \<le> ?s ! i q" using m i [of q] assms by (intro sorted_nth_mono) auto
  ultimately show ?thesis unfolding e by simp
qed

theorem percentile_rank_witness: "percentile (\<lambda>x. x) [3, 1, 2] 50 \<in> {1, 2, 3}"
  using percentile_rank [of "[3, 1, 2]" 50 50] by auto

end
