(* ===== verification/Coroutine.thy ===== *)
theory Coroutine
  imports Loomic_Prelude
begin

text \<open>
  The coroutines of the server, as the event loop sees them.  All of them run on one thread (\<open>Server::run\<close> gives work to the
  first \<open>io_context\<close> only), so a coroutine runs undisturbed from one suspension to the next.  What is left to do of a
  suspended coroutine is a value \<open>coro\<close>: \<open>Seg f\<close> runs, when it is resumed, the segment \<open>f\<close> on the state and gives what is then
  left; \<open>Ret a\<close> has returned \<open>a\<close>.  \<open>co_await net::post(pool_, net::use_awaitable)\<close>, which opens every operation on Redis
  and PostgreSQL, resumes the coroutine on its own executor, so that the operation and the code that follows it belong
  to the segment after the suspension.  \<open>None\<close>: the segment never ends.
\<close>

section \<open>Coroutines and their composition\<close>

datatype ('a, 'w) coro = Ret 'a | Seg "'w \<Rightarrow> (('a, 'w) coro \<times> 'w) option"

text \<open>A computation: run the code up to its first suspension or to its end.\<close>

type_synonym ('a, 'w) comp = "'w \<Rightarrow> (('a, 'w) coro \<times> 'w) option"

text \<open>\<open>co_await\<close> of a coroutine: a suspension of the callee suspends the caller, its return is none.\<close>

primrec and_then :: "('a, 'w) coro \<Rightarrow> ('a \<Rightarrow> ('b, 'w) comp) \<Rightarrow> ('b, 'w) comp" where
  "and_then (Ret a) k = k a"
| "and_then (Seg f) k = (\<lambda>w. Some (Seg (\<lambda>w.
     Option.bind (map_option (map_prod (\<lambda>c. and_then c k) id) (f w)) (\<lambda>(g, w). g w)), w))"

definition seq :: "('a, 'w) comp \<Rightarrow> ('a \<Rightarrow> ('b, 'w) comp) \<Rightarrow> ('b, 'w) comp" where
  "seq m k w = do { (c, w) \<leftarrow> m w; and_then c k w }"

definition ret :: "'a \<Rightarrow> ('a, 'w) comp" where
  "ret a w = Some (Ret a, w)"

text \<open>Code without suspension: it may not return, it returns, it only changes the state, it only reads it.\<close>

definition sync_opt :: "('w \<Rightarrow> ('a \<times> 'w) option) \<Rightarrow> ('a, 'w) comp" where
  "sync_opt f w = map_option (\<lambda>(a, w). (Ret a, w)) (f w)"

definition sync :: "('w \<Rightarrow> 'a \<times> 'w) \<Rightarrow> ('a, 'w) comp" where
  "sync f w = (let (a, w) = f w in Some (Ret a, w))"

definition tell :: "('w \<Rightarrow> 'w) \<Rightarrow> (unit, 'w) comp" where
  "tell f w = Some (Ret (), f w)"

definition ask :: "('w \<Rightarrow> 'a) \<Rightarrow> ('a, 'w) comp" where
  "ask f w = Some (Ret (f w), w)"

definition suspend :: "('a, 'w) comp \<Rightarrow> ('a, 'w) comp" where
  "suspend m w = Some (Seg m, w)"

lemma and_then_Seg: "and_then (Seg f) k w = Some (Seg (seq f k), w)"
proof -
  have "Option.bind (map_option (map_prod (\<lambda>c. and_then c k) id) (f v)) (\<lambda>(g, w). g w) = seq f k v" for v
    by (cases "f v") (auto simp: seq_def)
  then show ?thesis by (simp add: fun_eq_iff)
qed

declare and_then.simps(2) [simp del]

lemmas segment_simps = and_then_Seg and_then.simps(1)

lemma seq_eval:
  "seq (ret a) k = k a" "seq (tell f) g w = g () (f w)" "seq (ask h) k w = k (h w) w"
  "seq (suspend m) k w = Some (Seg (seq m k), w)"
  by (simp_all add: fun_eq_iff seq_def ret_def tell_def ask_def suspend_def segment_simps)

lemma seq_sync: "seq (sync f) k w = (let (a, w) = f w in k a w)"
  by (simp add: seq_def sync_def split_beta)

lemma seq_sync_opt: "seq (sync_opt f) k w = do { (a, w) \<leftarrow> f w; k a w }"
  by (cases "f w") (auto simp: seq_def sync_opt_def)

section \<open>Running without interference\<close>

text \<open>Induction on what a coroutine becomes by one segment.\<close>

lemma coro_induct [case_names Ret Seg]:
  assumes "\<And>a. P (Ret a)" "\<And>f. (\<And>w c v. f w = Some (c, v) \<Longrightarrow> P c) \<Longrightarrow> P (Seg f)"
  shows "P c"
proof (induction c)
  case (Seg f)
  have "P c" if "f w = Some (c, v)" for w c v
    by (rule Seg.IH [of "f w" "(c, v)" c], rule rangeI) (simp_all add: that fsts.intros)
  then show ?case by (rule assms(2))
qed (rule assms(1))

primrec run_coro :: "('a, 'w) coro \<Rightarrow> 'w \<Rightarrow> ('a \<times> 'w) option" where
  "run_coro (Ret a) = (\<lambda>w. Some (a, w))"
| "run_coro (Seg f) = (\<lambda>w. Option.bind (map_option (map_prod run_coro id) (f w)) (\<lambda>(g, w). g w))"

definition run_alone :: "('a, 'w) comp \<Rightarrow> 'w \<Rightarrow> ('a \<times> 'w) option" where
  "run_alone m w = do { (c, w) \<leftarrow> m w; run_coro c w }"

lemma run_coro_Seg: "run_coro (Seg f) = run_alone f"
proof
  fix w show "run_coro (Seg f) w = run_alone f w" by (cases "f w") (auto simp: run_alone_def)
qed

declare run_coro.simps(2) [simp del]

lemma run_alone_and_then: "run_alone (and_then c k) w = do { (a, w) \<leftarrow> run_coro c w; run_alone (k a) w }"
proof (induction c arbitrary: w rule: coro_induct)
  case (Seg f)
  have "run_alone (seq f k) w = do { (a, w) \<leftarrow> run_alone f w; run_alone (k a) w }"
  proof (cases "f w")
    case (Some p)
    then obtain c v where p: "f w = Some (c, v)" by (cases p) auto
    with Seg.IH [OF p, of v] show ?thesis by (simp add: seq_def run_alone_def)
  qed (simp add: run_alone_def seq_def)
  moreover have "run_alone (and_then (Seg f) k) w = run_alone (seq f k) w"
    unfolding run_alone_def [of "and_then (Seg f) k"] and_then_Seg by (simp add: run_coro_Seg)
  ultimately show ?case by (simp add: run_coro_Seg)
qed (simp add: run_alone_def)

lemma run_alone_seq: "run_alone (seq m k) w = do { (a, w) \<leftarrow> run_alone m w; run_alone (k a) w }"
proof (cases "m w")
  case (Some p)
  then obtain c v where p: "m w = Some (c, v)" by (cases p) auto
  have "run_alone (seq m k) w = run_alone (and_then c k) v" by (simp add: run_alone_def seq_def p)
  moreover have "run_alone m w = run_coro c v" by (simp add: run_alone_def p)
  ultimately show ?thesis by (simp add: run_alone_and_then)
qed (simp add: run_alone_def seq_def)

lemma run_alone_simps:
  "run_alone (ret a) w = Some (a, w)" "run_alone (sync f) w = Some (f w)" "run_alone (sync_opt g) w = g w"
  "run_alone (tell t) w = Some ((), t w)" "run_alone (ask h) w = Some (h w, w)" "run_alone (suspend m) w = run_alone m w"
  by (simp_all add: run_alone_def ret_def sync_def sync_opt_def tell_def ask_def suspend_def run_coro_Seg split_beta)
    (cases "g w"; auto)

lemmas alone_simps = run_alone_seq run_alone_simps

section \<open>The results a coroutine can have\<close>

definition results :: "('a, 'w) comp \<Rightarrow> 'a set" where
  "results m = {a. \<exists>w c v. m w = Some (c, v) \<and> a \<in> set_coro c}"

lemma resultsI: "m w = Some (c, v) \<Longrightarrow> a \<in> set_coro c \<Longrightarrow> a \<in> results m"
  by (auto simp: results_def)

lemma set_coro_Seg: "set_coro (Seg f) = results f"
proof
  show "set_coro (Seg f) \<subseteq> results f"
    by (force simp: results_def elim!: fsts.cases)
  show "results f \<subseteq> set_coro (Seg f)"
  proof
    fix a assume "a \<in> results f"
    then obtain w c v where "f w = Some (c, v)" "a \<in> set_coro c" by (auto simp: results_def)
    then show "a \<in> set_coro (Seg f)"
      by (auto intro!: exI [of _ w] bexI [of _ "(c, v)"] bexI [of _ c] intro: fsts.intros)
  qed
qed

declare coro.set(2) [simp del]

lemma and_then_cong: "(\<And>a. a \<in> set_coro c \<Longrightarrow> k a = k' a) \<Longrightarrow> and_then c k = and_then c k'"
proof (induction c rule: coro_induct)
  case (Seg f)
  have "seq f k w = seq f k' w" for w
  proof (cases "f w")
    case (Some p)
    then obtain c v where p: "f w = Some (c, v)" by (cases p) auto
    have "and_then c k = and_then c k'"
      by (rule Seg.IH [OF p], rule Seg.prems) (simp add: set_coro_Seg resultsI [of f w, OF p])
    then show ?thesis by (simp add: seq_def p)
  qed (simp add: seq_def)
  then have "seq f k = seq f k'" by (rule ext)
  then show ?case by (simp add: fun_eq_iff and_then_Seg)
qed simp

lemma seq_cong [fundef_cong]:
  assumes "m = m'" "\<And>a. a \<in> results m' \<Longrightarrow> k a = k' a"
  shows "seq m k = seq m' k'"
proof
  fix w show "seq m k w = seq m' k' w"
  proof (cases "m' w")
    case (Some p)
    then obtain c v where p: "m' w = Some (c, v)" by (cases p) auto
    have "and_then c k = and_then c k'"
      by (rule and_then_cong, rule assms(2)) (rule resultsI [of m' w, OF p])
    then show ?thesis by (simp add: seq_def assms(1) p)
  qed (simp add: seq_def assms(1))
qed

lemma set_and_then: "g = and_then c k \<Longrightarrow> results g \<subseteq> (\<Union>a \<in> set_coro c. results (k a))"
proof (induction c arbitrary: g rule: coro_induct)
  case (Seg f)
  have "set_coro d \<subseteq> (\<Union>a \<in> results f. results (k a))" if d: "seq f k w = Some (d, v)" for w d v
  proof -
    obtain c u where p: "f w = Some (c, u)" "and_then c k u = Some (d, v)"
      using d by (cases "f w") (auto simp: seq_def)
    have "set_coro d \<subseteq> results (and_then c k)" using resultsI [of "and_then c k" u d v] p(2) by blast
    also have "\<dots> \<subseteq> (\<Union>a \<in> set_coro c. results (k a))" by (rule Seg.IH [OF p(1) refl])
    also have "\<dots> \<subseteq> (\<Union>a \<in> results f. results (k a))" using resultsI [of f w, OF p(1)] by blast
    finally show ?thesis .
  qed
  then have "results (seq f k) \<subseteq> (\<Union>a \<in> results f. results (k a))"
    unfolding results_def [of "seq f k"] by blast
  moreover have "results (and_then (Seg f) k) = results (seq f k)"
    by (auto simp: results_def [of "and_then (Seg f) k"] and_then_Seg set_coro_Seg)
  ultimately show ?case by (simp add: Seg.prems set_coro_Seg)
qed simp

lemma results_seq: "results (seq m k) \<subseteq> (\<Union>a \<in> results m. results (k a))"
proof
  fix b assume "b \<in> results (seq m k)"
  then obtain w d v where d: "seq m k w = Some (d, v)" "b \<in> set_coro d" by (auto simp: results_def)
  then obtain c u where p: "m w = Some (c, u)" "and_then c k u = Some (d, v)"
    by (cases "m w") (auto simp: seq_def)
  have "b \<in> results (and_then c k)" using p(2) d(2) by (rule resultsI)
  with set_and_then [OF refl, of c k] obtain a where "a \<in> set_coro c" "b \<in> results (k a)" by blast
  with resultsI [of m w, OF p(1)] show "b \<in> (\<Union>a \<in> results m. results (k a))" by blast
qed

lemma results_seqE:
  assumes "b \<in> results (seq m k)" obtains a where "a \<in> results m" "b \<in> results (k a)"
  using assms results_seq [of m k] by blast

lemma results_simps [simp]:
  "results (ret a) = {a}" "results (suspend m) = results m" "results (ask h) = range h" "results (tell f) = {()}"
proof -
  show "results (suspend m) = results m" by (auto simp: results_def [of "suspend m"] suspend_def set_coro_Seg)
qed (auto simp: results_def ret_def ask_def tell_def)

section \<open>Resumption\<close>

text \<open>\<open>becomes c d\<close>: one resumption of \<open>c\<close>, in some state, leaves \<open>d\<close>.  No coroutine can be resumed for ever, whatever
  happens to the state in between.\<close>

definition becomes :: "('a, 'w) coro \<Rightarrow> ('a, 'w) coro \<Rightarrow> bool" where
  "becomes c d \<longleftrightarrow> (\<exists>f w v. c = Seg f \<and> f w = Some (d, v))"

lemma wf_becomes: "wfP (\<lambda>d c. becomes c d)"
proof (rule wfpUNIVI)
  fix P :: "('a, 'b) coro \<Rightarrow> bool" and c
  assume *: "\<forall>c. (\<forall>d. becomes c d \<longrightarrow> P d) \<longrightarrow> P c"
  show "P c"
  proof (induction c rule: coro_induct)
    case (Ret a)
    show ?case by (rule * [rule_format]) (simp add: becomes_def)
  next
    case (Seg f)
    show ?case by (rule * [rule_format]) (use Seg in \<open>auto simp: becomes_def\<close>)
  qed
qed

section \<open>Interference\<close>

text \<open>
  A coroutine under interference.  \<open>R\<close> is what the rest of the program may do to the state while the coroutine is
  suspended, \<open>G\<close> what each of its own segments may do; \<open>P\<close> holds when it is resumed, \<open>Q\<close> when it returns.
\<close>

definition stable :: "('w \<Rightarrow> 'w \<Rightarrow> bool) \<Rightarrow> ('w \<Rightarrow> bool) \<Rightarrow> bool" where
  "stable R P \<longleftrightarrow> (\<forall>w v. R w v \<longrightarrow> P w \<longrightarrow> P v)"

inductive rg :: "('w \<Rightarrow> 'w \<Rightarrow> bool) \<Rightarrow> ('w \<Rightarrow> 'w \<Rightarrow> bool) \<Rightarrow> ('a \<Rightarrow> 'w \<Rightarrow> bool) \<Rightarrow> ('w \<Rightarrow> bool) \<Rightarrow> ('a, 'w) coro \<Rightarrow> bool"
  for R G Q where
  rg_Ret: "(\<And>w. P w \<Longrightarrow> Q a w) \<Longrightarrow> rg R G Q P (Ret a)"
| rg_Seg: "stable R P \<Longrightarrow>
    (\<And>w. P w \<Longrightarrow> \<exists>P' c v. f w = Some (c, v) \<and> G w v \<and> P' v \<and> rg R G Q P' c) \<Longrightarrow> rg R G Q P (Seg f)"

inductive_cases rg_SegE: "rg R G Q P (Seg f)"
inductive_cases rg_RetE: "rg R G Q P (Ret a)"

text \<open>The same of a computation; its segments return.\<close>

definition triple ::
  "('w \<Rightarrow> 'w \<Rightarrow> bool) \<Rightarrow> ('w \<Rightarrow> 'w \<Rightarrow> bool) \<Rightarrow> ('w \<Rightarrow> bool) \<Rightarrow> ('a, 'w) comp \<Rightarrow> ('a \<Rightarrow> 'w \<Rightarrow> bool) \<Rightarrow> bool" where
  "triple R G P m Q \<longleftrightarrow> (\<forall>w. P w \<longrightarrow> (\<exists>P' c v. m w = Some (c, v) \<and> G w v \<and> P' v \<and> rg R G Q P' c))"

lemma tripleI: "(\<And>w. P w \<Longrightarrow> \<exists>P' c v. m w = Some (c, v) \<and> G w v \<and> P' v \<and> rg R G Q P' c) \<Longrightarrow> triple R G P m Q"
  by (simp add: triple_def)

lemma tripleD: "triple R G P m Q \<Longrightarrow> P w \<Longrightarrow> \<exists>P' c v. m w = Some (c, v) \<and> G w v \<and> P' v \<and> rg R G Q P' c"
  by (simp add: triple_def)

lemma rg_Seg_iff: "rg R G Q P (Seg f) \<longleftrightarrow> stable R P \<and> triple R G P f Q"
  by (auto simp: triple_def intro: rg_Seg elim: rg_SegE)

text \<open>The rules need that a guarantee covers several pieces of code in one segment.\<close>

locale guarantee =
  fixes G :: "'w \<Rightarrow> 'w \<Rightarrow> bool"
  assumes refl: "G w w" and trans: "G u v \<Longrightarrow> G v w \<Longrightarrow> G u w"
begin

lemma triple_ret: "(\<And>w. P w \<Longrightarrow> Q a w) \<Longrightarrow> triple R G P (ret a) Q"
  by (rule tripleI) (auto simp: ret_def intro!: exI [of _ P] refl rg_Ret)

lemma triple_sync_opt:
  assumes "\<And>w. P w \<Longrightarrow> \<exists>a v. f w = Some (a, v) \<and> G w v \<and> Q a v"
  shows "triple R G P (sync_opt f) Q"
proof (rule tripleI)
  fix w assume "P w"
  then obtain a v where v: "f w = Some (a, v)" "G w v" "Q a v" using assms by blast
  have "rg R G Q ((=) v) (Ret a)" by (rule rg_Ret) (use v(3) in simp)
  with v show "\<exists>P' c v. sync_opt f w = Some (c, v) \<and> G w v \<and> P' v \<and> rg R G Q P' c"
    by (intro exI [of _ "(=) v"]) (simp add: sync_opt_def)
qed

lemma triple_sync:
  assumes "\<And>w. P w \<Longrightarrow> G w (snd (f w)) \<and> Q (fst (f w)) (snd (f w))"
  shows "triple R G P (sync f) Q"
proof -
  have "sync f = sync_opt (\<lambda>w. Some (f w))" by (auto simp: sync_def sync_opt_def split_beta)
  then show ?thesis using assms by (simp only:) (rule triple_sync_opt, simp add: prod_eq_iff)
qed

lemma triple_tell:
  assumes "\<And>w. P w \<Longrightarrow> G w (f w) \<and> Q () (f w)"
  shows "triple R G P (tell f) Q"
proof -
  have "tell f = sync (\<lambda>w. ((), f w))" by (simp add: fun_eq_iff tell_def sync_def)
  then show ?thesis using assms by (simp only:) (rule triple_sync, simp)
qed

lemma triple_ask:
  assumes "\<And>w. P w \<Longrightarrow> Q (f w) w"
  shows "triple R G P (ask f) Q"
proof -
  have "ask f = sync (\<lambda>w. (f w, w))" by (simp add: fun_eq_iff ask_def sync_def)
  then show ?thesis using assms by (simp only:) (rule triple_sync, simp add: refl)
qed

lemma triple_suspend: "stable R P \<Longrightarrow> triple R G P m Q \<Longrightarrow> triple R G P (suspend m) Q"
  by (rule tripleI) (auto simp: suspend_def rg_Seg_iff intro!: exI [of _ P] refl)

lemma rg_and_then:
  assumes "rg R G Q P c" "\<And>a. triple R G (Q a) (k a) S"
  shows "triple R G P (and_then c k) S"
  using assms(1)
proof (induction P c rule: rg.induct)
  case (rg_Ret P a)
  then show ?case using assms(2) [of a] by (simp add: triple_def)
next
  case (rg_Seg P f)
  have "triple R G P (seq f k) S"
  proof (rule tripleI)
    fix w assume "P w"
    then obtain P' c v where s: "f w = Some (c, v)" "G w v" "P' v" "triple R G P' (and_then c k) S"
      using rg_Seg by blast
    obtain P'' d u where "and_then c k v = Some (d, u)" "G v u" "P'' u" "rg R G S P'' d"
      using tripleD [OF s(4,3)] by blast
    then show "\<exists>P' c v. seq f k w = Some (c, v) \<and> G w v \<and> P' v \<and> rg R G S P' c"
      using s(1) trans [OF s(2)] by (intro exI [of _ P'']) (simp add: seq_def)
  qed
  with rg_Seg(1) show ?case
    by (intro tripleI exI [of _ P]) (simp add: and_then_Seg rg_Seg_iff refl)
qed

lemma triple_seq:
  assumes "triple R G P m Q" "\<And>a. triple R G (Q a) (k a) S"
  shows "triple R G P (seq m k) S"
proof (rule tripleI)
  fix w assume "P w"
  then obtain P' c v where s: "m w = Some (c, v)" "G w v" "P' v" "rg R G Q P' c"
    using tripleD [OF assms(1)] by blast
  obtain P'' d u where "and_then c k v = Some (d, u)" "G v u" "P'' u" "rg R G S P'' d"
    using tripleD [OF rg_and_then [OF s(4) assms(2)] s(3)] by blast
  then show "\<exists>P' c v. seq m k w = Some (c, v) \<and> G w v \<and> P' v \<and> rg R G S P' c"
    using s(1) trans [OF s(2)] by (intro exI [of _ P'']) (simp add: seq_def)
qed

end

lemma triple_pre: "triple R G P m Q \<Longrightarrow> (\<And>w. P' w \<Longrightarrow> P w) \<Longrightarrow> triple R G P' m Q"
  by (simp add: triple_def)

lemma rg_post: "rg R G Q P c \<Longrightarrow> (\<And>a w. Q a w \<Longrightarrow> Q' a w) \<Longrightarrow> rg R G Q' P c"
proof (induction P c rule: rg.induct)
  case (rg_Seg P f)
  then show ?case by (intro rg.rg_Seg) blast+
qed (auto intro: rg.intros)

lemma triple_post: "triple R G P m Q \<Longrightarrow> (\<And>a w. Q a w \<Longrightarrow> Q' a w) \<Longrightarrow> triple R G P m Q'"
proof (rule tripleI)
  fix w assume m: "triple R G P m Q" and q: "\<And>a w. Q a w \<Longrightarrow> Q' a w" and "P w"
  then obtain P' c v where *: "m w = Some (c, v)" "G w v" "P' v" "rg R G Q P' c"
    using tripleD [OF m] by blast
  have "rg R G Q' P' c" using *(4) by (rule rg_post) (rule q)
  with * show "\<exists>P' c v. m w = Some (c, v) \<and> G w v \<and> P' v \<and> rg R G Q' P' c" by blast
qed

end
