(* ===== verification/Tcp_Coroutines.thy ===== *)
theory Tcp_Coroutines
  imports Coroutine Tcp_Session
begin

text \<open>
  \<open>src/server/src/tcp/Session.cpp\<close> once more, now with every \<open>co_await\<close> as a suspension: reading a header or a payload,
  writing a frame, each operation on Redis and PostgreSQL.  The input is what the client sends until it closes the
  connection; when the bytes arrive is up to the scheduler, which resumes the coroutine at any later time.
  \<open>session_coroutine_alone\<close> shows that the coroutine, when nothing else runs, does what \<open>tcp_run\<close> does; what it does when other
  coroutines run in between is the subject of \<open>Interleaving\<close>.
\<close>

type_synonym ('a, 'r, 'c) task = "('a, ('r, 'c) world) comp"

section \<open>Reading and writing\<close>

definition co_write :: "sid \<Rightarrow> FrameHeader \<Rightarrow> (bool, 'r, 'c) task" where
  "co_write s hdr = seq (sync (tcp_write s hdr)) (\<lambda>ok. suspend (ret ok))"

definition co_read_header :: "bytes \<Rightarrow> ((FrameHeader \<times> bytes) option, 'r, 'c) task" where
  "co_read_header input = suspend (ret (read_frame_header input))"

definition co_read_payload :: "u32 \<Rightarrow> bytes \<Rightarrow> ((bytes \<times> bytes) option, 'r, 'c) task" where
  "co_read_payload n input =
     (if n > 0 then suspend (ret (read_frame_payload n input)) else ret (read_frame_payload n input))"

section \<open>Routing\<close>

text \<open>\<open>co_await redis_->lpush\<close> and the counter of a member that is not online.\<close>

definition co_store_offline :: "('r, 'c) env \<Rightarrow> u64 \<Rightarrow> u64 \<Rightarrow> bytes \<Rightarrow> (unit, 'r, 'c) task" where
  "co_store_offline E member_id conv_id delivery =
     seq (suspend (tell (w_lpush E member_id delivery))) (\<lambda>_. tell (w_spawn (Job_hincrby member_id conv_id)))"

text \<open>Hand a message to the session of \<open>member\<close> with a receipt for the sender, or queue it.\<close>

definition co_deliver ::
  "('r, 'c) env \<Rightarrow> u64 \<Rightarrow> u64 \<Rightarrow> u64 \<Rightarrow> u8 \<Rightarrow> u64 \<Rightarrow> bytes \<Rightarrow> (unit, 'r, 'c) task" where
  "co_deliver E user_id member_id conv_id flags msg_id delivery =
     seq (ask (\<lambda>w. w_lookup w member_id)) (\<lambda>found.
       case found of
         Some session \<Rightarrow>
           seq (tell (w_post session delivery)) (\<lambda>_.
           seq (ask (\<lambda>w. w_lookup w user_id)) (\<lambda>sender_sess.
             case sender_sess of
               Some sender \<Rightarrow>
                 tell (w_post sender (serialize_delivery (receipt_for msg_id member_id user_id conv_id flags)))
             | None \<Rightarrow> ret ()))
       | None \<Rightarrow> co_store_offline E member_id conv_id delivery)"

definition co_resolve_members :: "('r, 'c) env \<Rightarrow> u64 \<Rightarrow> (u64 list, 'r, 'c) task" where
  "co_resolve_members E group_id =
     seq (suspend (sync (w_smembers E group_id))) (\<lambda>members.
       if members = [] then suspend (sync_opt (load_group_members_from_pg E group_id)) else ret members)"

fun co_fanout ::
  "('r, 'c) env \<Rightarrow> u64 \<Rightarrow> u64 \<Rightarrow> u64 \<Rightarrow> bytes \<Rightarrow> u64 list \<Rightarrow> (unit, 'r, 'c) task" where
  "co_fanout E user_id group_id msg_id delivery [] = ret ()"
| "co_fanout E user_id group_id msg_id delivery (member_id # members) =
     seq (if member_id = user_id then ret ()
          else co_deliver E user_id member_id group_id kFlagIsGroup msg_id delivery) (\<lambda>_.
       co_fanout E user_id group_id msg_id delivery members)"

definition group_message :: "u64 \<Rightarrow> u64 \<Rightarrow> u64 \<Rightarrow> i64 \<Rightarrow> bytes \<Rightarrow> OutboundMessage" where
  "group_message user_id group_id msg_id ts_ms payload = OutboundMessage_init
     \<lparr>om_conv_id := group_id, om_msg_id := msg_id, om_sender_id := user_id, om_recipient_id := group_id,
      om_timestamp_ms := ts_ms, om_msg_type := MsgType_CHAT, om_flags := kFlagIsGroup, om_content := payload\<rparr>"

definition co_route_group :: "('r, 'c) env \<Rightarrow> u64 \<Rightarrow> FrameHeader \<Rightarrow> bytes \<Rightarrow> (unit, 'r, 'c) task" where
  "co_route_group E user_id hdr payload =
     (let group_id = fh_recipient_id hdr in
      seq (sync_opt (w_snowflake E)) (\<lambda>msg_id.
      seq (sync (w_now E)) (\<lambda>ts_ms.
      seq (co_resolve_members E group_id) (\<lambda>members.
      seq (co_fanout E user_id group_id msg_id
             (serialize_delivery (group_message user_id group_id msg_id ts_ms payload)) members) (\<lambda>_.
      seq (tell (w_spawn (Job_store group_id msg_id user_id group_id payload ts_ms MsgType_CHAT))) (\<lambda>_.
      seq (tell (w_spawn (Job_activity group_id True (preview payload)))) (\<lambda>_.
        tell w_count_message)))))))"

definition co_route_dm :: "('r, 'c) env \<Rightarrow> u64 \<Rightarrow> FrameHeader \<Rightarrow> bytes \<Rightarrow> (unit, 'r, 'c) task" where
  "co_route_dm E user_id hdr payload =
     (let recipient_id = fh_recipient_id hdr;
          conv_id = min user_id recipient_id in
      seq (sync_opt (w_snowflake E)) (\<lambda>msg_id.
      seq (sync (w_now E)) (\<lambda>ts_ms.
      seq (co_deliver E user_id recipient_id conv_id 0 msg_id
             (serialize_delivery (dm_message user_id recipient_id msg_id ts_ms payload))) (\<lambda>_.
      seq (tell (w_spawn (Job_store conv_id msg_id user_id recipient_id payload ts_ms MsgType_CHAT))) (\<lambda>_.
      seq (tell (w_spawn (Job_upsert conv_id user_id recipient_id))) (\<lambda>_.
      seq (tell (w_spawn (Job_activity conv_id False (preview payload)))) (\<lambda>_.
        tell w_count_message)))))))"

definition co_route_message :: "('r, 'c) env \<Rightarrow> u64 \<Rightarrow> FrameHeader \<Rightarrow> bytes \<Rightarrow> (unit, 'r, 'c) task" where
  "co_route_message E user_id hdr payload =
     (if fh_flags hdr AND kFlagIsGroup \<noteq> 0 then co_route_group E user_id hdr payload
      else co_route_dm E user_id hdr payload)"

definition co_typing :: "('r, 'c) env \<Rightarrow> u64 \<Rightarrow> FrameHeader \<Rightarrow> (unit, 'r, 'c) task" where
  "co_typing E user_id hdr =
     (let target_id = fh_recipient_id hdr in
      if fh_flags hdr AND kFlagIsGroup = 0
      then tell (post_if_online target_id (serialize_delivery (typing_message user_id target_id 0)))
      else seq (co_resolve_members E target_id) (\<lambda>members.
        tell (relay_members user_id (serialize_delivery (typing_message user_id target_id kFlagIsGroup)) members)))"

section \<open>run\<close>

text \<open>\<open>user_id_ = \<dots>\<close>, the entry in the registry and the gauge, in one segment.\<close>

definition session_register :: "sid \<Rightarrow> u64 \<Rightarrow> ('r, 'c) world \<Rightarrow> ('r, 'c) world" where
  "session_register s user_id w =
     (let w = upd_session s (\<lambda>ss. ss\<lparr>ss_user_id := user_id\<rparr>) w
      in w\<lparr>w_registry := registry_insert (w_registry w) user_id s,
           w_active_sessions := w_active_sessions w + 1\<rparr>)"

definition co_flush_offline_queue :: "('r, 'c) env \<Rightarrow> sid \<Rightarrow> u64 \<Rightarrow> (unit, 'r, 'c) task" where
  "co_flush_offline_queue E s user_id = suspend (tell (tcp_flush_offline_queue E s user_id))"

definition co_login :: "('r, 'c) env \<Rightarrow> sid \<Rightarrow> u64 \<Rightarrow> bytes \<Rightarrow> (run_exit + bytes, 'r, 'c) task" where
  "co_login E s user_id input =
     seq (tell (\<lambda>w. enter Running s (session_register s user_id w))) (\<lambda>_.
     seq (suspend (tell (\<lambda>w. w\<lparr>w_redis := set_presence (e_rx E) (w_redis w) user_id (e_server_id E)\<rparr>))) (\<lambda>_.
     seq (co_write s (msg_header MsgType_PONG)) (\<lambda>ok.
       if \<not> ok then ret (Inl RunThrow)
       else
         seq (co_flush_offline_queue E s user_id) (\<lambda>_.
         seq (sync (w_steady_now E)) (\<lambda>t.
         seq (tell (upd_session s (heartbeat_start t))) (\<lambda>_. ret (Inr input)))))))"

definition co_auth :: "('r, 'c) env \<Rightarrow> sid \<Rightarrow> bytes \<Rightarrow> (run_exit + bytes, 'r, 'c) task" where
  "co_auth E s input =
     seq (co_read_header input) (\<lambda>x.
     case x of
       None \<Rightarrow> ret (Inl RunThrow)
     | Some (auth_hdr, input) \<Rightarrow>
         if fh_msg_type auth_hdr \<noteq> MsgType_AUTH then ret (Inl RunReturn)
         else if unat (fh_payload_len auth_hdr) > 4096 then ret (Inl RunReturn)
         else
           seq (co_read_payload (fh_payload_len auth_hdr) input) (\<lambda>x.
           case x of
             None \<Rightarrow> ret (Inl RunThrow)
           | Some (auth_payload, input) \<Rightarrow>
               seq (sync (w_now E)) (\<lambda>now.
               case jwt_verify (e_jwt E) (e_secret E) now (chars_of_bytes auth_payload) of
                 None \<Rightarrow>
                   seq (co_write s (msg_header MsgType_ERROR)) (\<lambda>ok.
                     ret (Inl (if ok then RunReturn else RunThrow)))
               | Some user_id \<Rightarrow> co_login E s user_id input)))"

definition co_chat ::
  "('r, 'c) env \<Rightarrow> sid \<Rightarrow> u64 \<Rightarrow> FrameHeader \<Rightarrow> bytes \<Rightarrow> bytes \<Rightarrow> (run_exit + bytes, 'r, 'c) task" where
  "co_chat E s user_id hdr payload input =
     seq (ask (\<lambda>w. w_sessions w s)) (\<lambda>x.
     case x of
       None \<Rightarrow> ret (Inl RunThrow)
     | Some ss \<Rightarrow>
         seq (sync (w_steady_now E)) (\<lambda>t.
         let (allowed, tb) = consume (e_rnd E) (ss_bucket ss) t in
         seq (tell (upd_session s (\<lambda>ss. ss\<lparr>ss_bucket := tb\<rparr>))) (\<lambda>_.
           if allowed
           then seq (co_route_message E user_id hdr payload) (\<lambda>_. ret (Inr input))
           else seq (co_write s (msg_header MsgType_ERROR)) (\<lambda>ok.
             ret (if ok then Inr input else Inl RunThrow)))))"

definition co_frame :: "('r, 'c) env \<Rightarrow> sid \<Rightarrow> u64 \<Rightarrow> bytes \<Rightarrow> (run_exit + bytes, 'r, 'c) task" where
  "co_frame E s user_id input =
     seq (co_read_header input) (\<lambda>x.
     case x of
       None \<Rightarrow> ret (Inl RunThrow)
     | Some (hdr, input) \<Rightarrow>
         if fh_msg_type hdr = MsgType_PING then
           seq (sync (w_steady_now E)) (\<lambda>t.
           seq (tell (upd_session s (reset_heartbeat t))) (\<lambda>_.
           seq (suspend (tell (\<lambda>w. w\<lparr>w_redis := refresh_presence (e_rx E) (w_redis w) user_id\<rparr>))) (\<lambda>_.
           seq (co_write s (msg_header MsgType_PONG)) (\<lambda>ok.
             ret (if ok then Inr input else Inl RunThrow)))))
         else if fh_msg_type hdr = MsgType_CHAT then
           if unat (fh_payload_len hdr) > 2 ^ 20 then ret (Inl RunReturn)
           else
             seq (co_read_payload (fh_payload_len hdr) input) (\<lambda>x.
             case x of
               None \<Rightarrow> ret (Inl RunThrow)
             | Some (payload, input) \<Rightarrow> co_chat E s user_id hdr payload input)
         else if fh_msg_type hdr = MsgType_TYPING then
           seq (co_typing E user_id hdr) (\<lambda>_. ret (Inr input))
         else if unat (fh_payload_len hdr) > 0 \<and> unat (fh_payload_len hdr) \<le> 2 ^ 20 then
           seq (co_read_payload (fh_payload_len hdr) input) (\<lambda>x.
             ret (case x of None \<Rightarrow> Inl RunThrow | Some (_, input) \<Rightarrow> Inr input))
         else ret (Inr input))"

text \<open>Every round reads a header, whatever happens at the suspensions: the input gets shorter.\<close>

lemma read_payload_shorter: "read_frame_payload n rest = Some (p, rest') \<Longrightarrow> length rest' \<le> length rest"
  by (auto simp: read_frame_payload_def split: if_splits)

lemma co_chat_results: "Inr input' \<in> results (co_chat E s u hdr p input) \<Longrightarrow> input' = input"
  by (auto simp: co_chat_def split: option.splits prod.splits if_splits elim!: results_seqE)

lemma co_frame_consumes:
  assumes "Inr input' \<in> results (co_frame E s u input)"
  shows "length input' < length input"
proof -
  have h: "length rest < length input" if "read_frame_header input = Some (hdr, rest)" for hdr rest
    using that by (auto simp: read_frame_header_def split: if_splits)
  have "\<exists>hdr rest. read_frame_header input = Some (hdr, rest) \<and> length input' \<le> length rest"
    using assms
    by (auto simp: co_frame_def co_read_header_def co_read_payload_def dest!: co_chat_results read_payload_shorter
        split: option.splits prod.splits if_splits elim!: results_seqE)
  with h show ?thesis by fastforce
qed

function co_loop :: "('r, 'c) env \<Rightarrow> sid \<Rightarrow> u64 \<Rightarrow> bytes \<Rightarrow> (run_exit, 'r, 'c) task" where
  "co_loop E s user_id input =
     seq (co_frame E s user_id input) (\<lambda>r.
       case r of Inl e \<Rightarrow> ret e | Inr input \<Rightarrow> co_loop E s user_id input)"
  by pat_completeness auto

termination
  by (relation "measure (\<lambda>(E, s, u, input). length input)") (auto dest: co_frame_consumes)

declare co_loop.simps [simp del]

text \<open>After the loop.  The entry of the registry and the gauges go in one segment; then come two operations on Redis.\<close>

definition session_deregister :: "sid \<Rightarrow> u64 \<Rightarrow> ('r, 'c) world \<Rightarrow> ('r, 'c) world" where
  "session_deregister s user_id w =
     w\<lparr>w_active_sessions := w_active_sessions w - 1,
       w_active_connections := w_active_connections w - 1,
       w_registry := registry_remove (w_alive w) (w_registry w) user_id (Some s)\<rparr>"

definition session_user :: "sid \<Rightarrow> ('r, 'c) world \<Rightarrow> u64" where
  "session_user s w = (case w_sessions w s of Some ss \<Rightarrow> ss_user_id ss | None \<Rightarrow> 0)"

definition co_cleanup :: "('r, 'c) env \<Rightarrow> sid \<Rightarrow> (unit, 'r, 'c) task" where
  "co_cleanup E s =
     seq (sync (w_steady_now E)) (\<lambda>t.
     seq (tell (upd_session s (reset_heartbeat t))) (\<lambda>_.
     seq (ask (session_user s)) (\<lambda>user_id.
       if user_id \<noteq> 0 then
         seq (tell (\<lambda>w. enter Ended s (session_deregister s user_id w))) (\<lambda>_.
         seq (suspend (tell (\<lambda>w. w\<lparr>w_redis := del_presence (e_rx E) (w_redis w) user_id\<rparr>))) (\<lambda>_.
         seq (sync (w_now E)) (\<lambda>ts_ms.
         seq (suspend (tell (\<lambda>w. w\<lparr>w_redis := set_last_seen (e_rx E) (w_redis w) user_id ts_ms\<rparr>))) (\<lambda>_.
           tell (w_spawn (Job_last_seen user_id ts_ms))))))
       else tell (enter Ended s))))"

definition co_leave :: "('r, 'c) env \<Rightarrow> sid \<Rightarrow> run_exit \<Rightarrow> (unit, 'r, 'c) task" where
  "co_leave E s e = (case e of RunReturn \<Rightarrow> tell (enter Ended s) | RunThrow \<Rightarrow> co_cleanup E s)"

definition co_tcp_run :: "('r, 'c) env \<Rightarrow> sid \<Rightarrow> bytes \<Rightarrow> (unit, 'r, 'c) task" where
  "co_tcp_run E s input =
     seq (co_auth E s input) (\<lambda>r.
     seq (case r of
            Inl e \<Rightarrow> ret e
          | Inr input \<Rightarrow> seq (ask (session_user s)) (\<lambda>user_id. co_loop E s user_id input)) (\<lambda>e.
       co_leave E s e))"

section \<open>Without interference the coroutine is the function\<close>

lemma alone_write: "run_alone (co_write s hdr) w = Some (tcp_write s hdr w)"
  by (simp add: co_write_def alone_simps)

lemma alone_read:
  "run_alone (co_read_header input) w = Some (read_frame_header input, w)"
  "run_alone (co_read_payload n input) w = Some (read_frame_payload n input, w)"
  by (simp_all add: co_read_header_def co_read_payload_def alone_simps)

lemma alone_deliver:
  "run_alone (co_deliver E u m c fl i b) w = Some ((), case w_lookup w m of
     Some t \<Rightarrow> (let w = w_post t b w in
       case w_lookup w u of Some v \<Rightarrow> w_post v (serialize_delivery (receipt_for i m u c fl)) w | None \<Rightarrow> w)
   | None \<Rightarrow> w_spawn (Job_hincrby m c) (w_lpush E m b w))"
  by (simp add: co_deliver_def co_store_offline_def alone_simps split: option.split)

lemma alone_dm_deliver: "run_alone (co_deliver E u r c 0 i b) w = Some ((), dm_deliver E u r c i b w)"
  by (simp add: alone_deliver dm_deliver_def Let_def split: option.split)

lemma alone_resolve_members: "run_alone (co_resolve_members E g) w = resolve_members E g w"
  by (simp add: co_resolve_members_def resolve_members_def alone_simps split_beta Let_def prod_eq_iff)

lemma alone_fanout: "run_alone (co_fanout E u g i b ms) w = Some ((), group_fanout E u g i b ms w)"
  by (induction ms arbitrary: w) (simp_all add: alone_simps alone_deliver Let_def split: option.split)

lemma alone_route_message:
  "run_alone (co_route_message E u hdr p) w = map_option (Pair ()) (tcp_route_message E u hdr p w)"
proof (cases "w_snowflake E w")
  case None
  then show ?thesis
    by (simp add: co_route_message_def co_route_group_def co_route_dm_def tcp_route_message_def route_group_def
        route_dm_def alone_simps Let_def)
next
  case (Some q)
  show ?thesis
  proof (cases "fh_flags hdr AND kFlagIsGroup = 0")
    case True
    with Some show ?thesis
      by (simp add: co_route_message_def co_route_dm_def tcp_route_message_def
          route_dm_def alone_simps alone_dm_deliver Let_def split_beta)
  next
    case False
    obtain i v where q: "q = (i, v)" by (cases q)
    show ?thesis
      using False Some q
      by (cases "resolve_members E (fh_recipient_id hdr) (snd (w_now E v))")
        (auto simp: co_route_message_def co_route_group_def tcp_route_message_def
          route_group_def alone_simps alone_resolve_members alone_fanout Let_def split_beta group_message_def)
  qed
qed

lemma alone_typing: "run_alone (co_typing E u hdr) w = map_option (Pair ()) (tcp_typing E u hdr w)"
  by (cases "resolve_members E (fh_recipient_id hdr) w")
    (auto simp: co_typing_def tcp_typing_def alone_simps alone_resolve_members Let_def)

lemma alone_chat:
  assumes "read_frame_header input0 = Some (hdr, rest)" "fh_msg_type hdr = MsgType_CHAT" "fh_msg_type hdr \<noteq> MsgType_PING"
    "\<not> unat (fh_payload_len hdr) > 2 ^ 20" "read_frame_payload (fh_payload_len hdr) rest = Some (p, input)"
  shows "run_alone (co_chat E s u hdr p input) w = tcp_frame E s u input0 w"
  using assms
  by (cases "w_sessions w s") (auto simp: tcp_frame_def co_chat_def alone_simps alone_write alone_route_message Let_def
      split_beta bind_map_option comp_def)

lemma alone_frame: "run_alone (co_frame E s u input) w = tcp_frame E s u input w"
proof (cases "read_frame_header input")
  case None
  then show ?thesis by (simp add: co_frame_def tcp_frame_def alone_simps alone_read)
next
  case (Some q)
  then obtain hdr rest where h: "read_frame_header input = Some (hdr, rest)" by (cases q) auto
  show ?thesis
  proof (cases "fh_msg_type hdr = MsgType_CHAT \<and> fh_msg_type hdr \<noteq> MsgType_PING \<and> \<not> unat (fh_payload_len hdr) > 2 ^ 20 \<and>
      read_frame_payload (fh_payload_len hdr) rest \<noteq> None")
    case True
    then obtain p input' where p: "read_frame_payload (fh_payload_len hdr) rest = Some (p, input')" by auto
    have "run_alone (co_frame E s u input) w = run_alone (co_chat E s u hdr p input') w"
      using True by (simp add: co_frame_def alone_simps alone_read h p MsgType_CHAT_def MsgType_PING_def)
    also have "\<dots> = tcp_frame E s u input w" by (rule alone_chat [OF h]) (use True p in auto)
    finally show ?thesis .
  next
    case False
    then show ?thesis
      by (auto simp: co_frame_def tcp_frame_def alone_simps alone_read alone_write alone_typing h Let_def split_beta
          bind_map_option comp_def split: option.splits)
  qed
qed

lemma alone_loop: "run_alone (co_loop E s u input) w = tcp_loop E s u input w"
proof (induction E s u input w rule: tcp_loop.induct)
  case (1 E s u input w)
  show ?case
  proof (cases "tcp_frame E s u input w")
    case (Some q)
    then obtain r v where r: "tcp_frame E s u input w = Some (r, v)" by (cases q) auto
    show ?thesis
      using "1.IH" [OF r refl]
      by (cases r) (simp_all add: co_loop.simps [of E s u input] tcp_loop.simps [of E s u input w] alone_simps alone_frame r)
  qed (simp add: co_loop.simps [of E s u input] tcp_loop.simps [of E s u input w] alone_simps alone_frame)
qed

text \<open>The phase of a session is not read by its coroutine: when it is set makes no difference to the rest.\<close>

lemma enter_upd:
  "(\<And>ss. f (ss\<lparr>ss_phase := p\<rparr>) = (f ss)\<lparr>ss_phase := p\<rparr>) \<Longrightarrow> enter p s (upd_session s f w) = upd_session s f (enter p s w)"
  by (cases w; cases "w_sessions w s") (simp_all add: enter_def upd_session_def fun_eq_iff)

lemma enter_enter: "enter p s (enter q s w) = enter p s w"
  by (cases w; cases "w_sessions w s") (simp_all add: enter_def upd_session_def fun_eq_iff)

lemma enter_fields:
  "enter p s (w\<lparr>w_redis := r\<rparr>) = (enter p s w)\<lparr>w_redis := r\<rparr>" "enter p s (w\<lparr>w_jobs := js\<rparr>) = (enter p s w)\<lparr>w_jobs := js\<rparr>"
  "enter p s (w\<lparr>w_clk := k\<rparr>) = (enter p s w)\<lparr>w_clk := k\<rparr>" "enter p s (w\<lparr>w_steady := k\<rparr>) = (enter p s w)\<lparr>w_steady := k\<rparr>"
  "enter p s (w\<lparr>w_registry := m\<rparr>) = (enter p s w)\<lparr>w_registry := m\<rparr>"
  "enter p s (w\<lparr>w_active_sessions := a\<rparr>) = (enter p s w)\<lparr>w_active_sessions := a\<rparr>"
  "enter p s (w\<lparr>w_active_connections := a\<rparr>) = (enter p s w)\<lparr>w_active_connections := a\<rparr>"
  by (simp_all add: enter_def upd_session_def)

lemma enter_reads [simp]: "w_clk (enter p s w) = w_clk w" "w_steady (enter p s w) = w_steady w"
  "session_user t (enter p s w) = session_user t w"
  by (simp_all add: enter_def session_user_def split: option.split)

lemma enter_write: "tcp_write s h (enter p s w) = (fst (tcp_write s h w), enter p s (snd (tcp_write s h w)))"
  by (cases "w_sessions w s") (simp_all add: tcp_write_def enter_upd)

lemma enqueue_phase: "tcp_enqueue E b (ss\<lparr>ss_phase := p\<rparr>) = (tcp_enqueue E b ss)\<lparr>ss_phase := p\<rparr>"
  by (simp add: tcp_enqueue_def Let_def split: option.split)

lemma foldl_enqueue_phase:
  "foldl (\<lambda>ss f. tcp_enqueue E f ss) (ss\<lparr>ss_phase := p\<rparr>) bs = (foldl (\<lambda>ss f. tcp_enqueue E f ss) ss bs)\<lparr>ss_phase := p\<rparr>"
  by (induction bs arbitrary: ss) (simp_all add: enqueue_phase)

lemma enter_flush: "tcp_flush_offline_queue E s u (enter p s w) = enter p s (tcp_flush_offline_queue E s u w)"
  by (simp add: tcp_flush_offline_queue_def split_beta Let_def enter_upd foldl_enqueue_phase enter_fields)

lemma enter_heartbeat:
  "upd_session s (heartbeat_start t) (enter p s w) = enter p s (upd_session s (heartbeat_start t) w)"
  "upd_session s (reset_heartbeat t) (enter p s w) = enter p s (upd_session s (reset_heartbeat t) w)"
  by (simp_all add: enter_upd heartbeat_start_def reset_heartbeat_def)

lemma session_online_split:
  "session_online E s u w =
     (session_register s u w)\<lparr>w_redis := set_presence (e_rx E) (w_redis (session_register s u w)) u (e_server_id E)\<rparr>"
  by (simp add: session_online_def session_register_def Let_def)

text \<open>The login: the coroutine marks the session as running when it enters it into the registry.\<close>

lemma alone_auth:
  assumes "tcp_auth E s input w = (r, v)"
  shows "\<exists>v'. run_alone (co_auth E s input) w = Some (r, v') \<and>
    (v' = v \<or> (\<exists>e. r = Inl e) \<and> v' = enter Running s v)"
proof -
  show ?thesis
    using assms
    by (auto simp: co_auth_def co_login_def tcp_auth_def alone_simps alone_read alone_write co_flush_offline_queue_def Let_def split_beta
        enter_write enter_flush enter_heartbeat session_online_split enter_fields [symmetric] w_steady_now_def
        split: option.splits if_splits)
qed

lemma heartbeat_user [simp]:
  "ss_user_id (reset_heartbeat t ss) = ss_user_id ss" "ss_phase (reset_heartbeat t ss) = ss_phase ss"
  "ss_kind (reset_heartbeat t ss) = ss_kind ss"
  by (simp_all add: reset_heartbeat_def heartbeat_start_def)

lemma session_user_heartbeat [simp]: "session_user s (upd_session t (reset_heartbeat n) w) = session_user s w"
  by (cases "w_sessions w s") (auto simp: session_user_def)

lemma session_user_field [simp]: "session_user s (w\<lparr>w_steady := k\<rparr>) = session_user s w"
  by (simp add: session_user_def)

lemma session_cleanup_alt:
  assumes "v = upd_session s (reset_heartbeat (e_steady E (w_steady w))) (w\<lparr>w_steady := Suc (w_steady w)\<rparr>)"
    and "u = session_user s w"
  shows "session_cleanup E s w = (if u \<noteq> 0
     then let w = session_deregister s u v;
              w = w\<lparr>w_redis := del_presence (e_rx E) (w_redis w) u\<rparr>;
              (ts_ms, w) = w_now E w;
              w = w\<lparr>w_redis := set_last_seen (e_rx E) (w_redis w) u ts_ms\<rparr>
          in w_spawn (Job_last_seen u ts_ms) w
     else v)"
proof -
  have "u = session_user s v" by (simp add: assms)
  then show ?thesis using assms(1)
    by (simp add: session_cleanup_def session_deregister_def session_user_def Let_def w_steady_now_def)
qed

lemma alone_leave: "run_alone (co_leave E s e) w = Some ((), leave E s e w)"
  by (cases e) (simp_all add: co_leave_def co_cleanup_def alone_simps session_cleanup_alt [OF refl refl] Let_def
      w_steady_now_def w_now_def session_deregister_def enter_fields w_spawn_def)

lemma leave_enter: "leave E s e (enter p s w) = leave E s e w"
proof -
  have "enter Ended s (session_cleanup E s (enter p s w)) = enter Ended s (session_cleanup E s w)"
    by (simp add: session_cleanup_alt [OF refl refl] Let_def w_now_def session_deregister_def w_spawn_def
        enter_fields [symmetric] enter_heartbeat) (simp add: enter_fields enter_enter)
  then show ?thesis by (cases e) (simp_all add: enter_enter)
qed


end
