(* ===== verification/Ws_Coroutines.thy ===== *)
theory Ws_Coroutines
  imports Tcp_Coroutines Ws_Session
begin

text \<open>
  \<open>src/server/src/ws/WebSocketSession.cpp\<close> with every \<open>co_await\<close> as a suspension, like \<open>Tcp_Coroutines\<close>: the handshake, each
  message from the client, a text that is written directly, each operation on Redis and PostgreSQL.
  \<open>ws_coroutine_alone\<close> shows that without interference the coroutine does what \<open>ws_run\<close> does.
\<close>

section \<open>Routing\<close>

definition co_ws_write :: "sid \<Rightarrow> string \<Rightarrow> (bool, 'r, 'c) task" where
  "co_ws_write s text = seq (sync (ws_write s text)) (\<lambda>ok. suspend (ret ok))"

definition co_ws_deliver ::
  "('r, 'c) env \<Rightarrow> sid \<Rightarrow> u64 \<Rightarrow> u64 \<Rightarrow> u64 \<Rightarrow> u64 \<Rightarrow> bytes \<Rightarrow> (bool, 'r, 'c) task" where
  "co_ws_deliver E s user_id recipient_id conv_id msg_id delivery =
     seq (ask (\<lambda>w. w_lookup w recipient_id)) (\<lambda>found.
       case found of
         Some recipient_session \<Rightarrow>
           seq (tell (w_post recipient_session delivery)) (\<lambda>_.
           case ws_receipt_text E (serialize_delivery (receipt_for msg_id recipient_id user_id conv_id 0)) of
             None \<Rightarrow> ret False
           | Some text \<Rightarrow> seq (tell (upd_session s (ws_push text))) (\<lambda>_. ret True))
       | None \<Rightarrow> seq (co_store_offline E recipient_id conv_id delivery) (\<lambda>_. ret True))"

definition co_ws_route_message :: "('r, 'c) env \<Rightarrow> sid \<Rightarrow> u64 \<Rightarrow> string \<Rightarrow> (bool, 'r, 'c) task" where
  "co_ws_route_message E s user_id text =
     (case jl_parse (e_json E) text of
        None \<Rightarrow> ret True
      | Some j \<Rightarrow>
     (case ws_chat_fields (e_json E) ''conv_id'' j of
        None \<Rightarrow> ret False
      | Some None \<Rightarrow> ret True
      | Some (Some (conv_id, content)) \<Rightarrow>
          seq (suspend (sync_opt (w_exec E (select_conv_peer conv_id user_id) ReadOnly))) (\<lambda>rows.
          case rows of
            Inl _ \<Rightarrow> ret True
          | Inr [] \<Rightarrow> ret True
          | Inr (recipient_id # _) \<Rightarrow>
              seq (sync_opt (w_snowflake E)) (\<lambda>msg_id.
              seq (sync (w_now E)) (\<lambda>ts_ms.
              let message = ws_message conv_id msg_id user_id recipient_id ts_ms 0 content in
              seq (tell (w_spawn (Job_store conv_id msg_id user_id recipient_id (om_content message) ts_ms MsgType_CHAT))) (\<lambda>_.
              seq (co_ws_deliver E s user_id recipient_id conv_id msg_id (serialize_delivery message)) (\<lambda>ok.
                if \<not> ok then ret False
                else
                  seq (tell (w_spawn (Job_activity conv_id False (preview (om_content message))))) (\<lambda>_.
                  seq (tell w_count_message) (\<lambda>_. ret True)))))))))"

fun co_ws_fanout :: "('r, 'c) env \<Rightarrow> u64 \<Rightarrow> u64 \<Rightarrow> bytes \<Rightarrow> u64 list \<Rightarrow> (unit, 'r, 'c) task" where
  "co_ws_fanout E user_id group_id delivery [] = ret ()"
| "co_ws_fanout E user_id group_id delivery (member_id # members) =
     seq (if member_id = user_id then ret ()
          else seq (ask (\<lambda>w. w_lookup w member_id)) (\<lambda>found.
            case found of
              Some session \<Rightarrow> tell (w_post session delivery)
            | None \<Rightarrow> co_store_offline E member_id group_id delivery)) (\<lambda>_.
       co_ws_fanout E user_id group_id delivery members)"

definition co_ws_route_group_message :: "('r, 'c) env \<Rightarrow> u64 \<Rightarrow> string \<Rightarrow> (bool, 'r, 'c) task" where
  "co_ws_route_group_message E user_id text =
     (case jl_parse (e_json E) text of
        None \<Rightarrow> ret True
      | Some j \<Rightarrow>
     (case ws_chat_fields (e_json E) ''group_id'' j of
        None \<Rightarrow> ret False
      | Some None \<Rightarrow> ret True
      | Some (Some (group_id, content)) \<Rightarrow>
          seq (sync_opt (w_snowflake E)) (\<lambda>msg_id.
          seq (sync (w_now E)) (\<lambda>ts_ms.
          let message = ws_message group_id msg_id user_id group_id ts_ms kFlagIsGroup content in
          seq (tell (w_spawn (Job_store group_id msg_id user_id group_id (om_content message) ts_ms MsgType_CHAT))) (\<lambda>_.
          seq (co_resolve_members E group_id) (\<lambda>members.
          seq (co_ws_fanout E user_id group_id (serialize_delivery message) members) (\<lambda>_.
          seq (tell (w_spawn (Job_activity group_id True (preview (om_content message))))) (\<lambda>_.
          seq (tell w_count_message) (\<lambda>_. ret True)))))))))"

definition co_ws_relay :: "('r, 'c) env \<Rightarrow> u64 \<Rightarrow> u64 \<Rightarrow> bool \<Rightarrow> bytes \<Rightarrow> (unit, 'r, 'c) task" where
  "co_ws_relay E user_id conv_id is_group b =
     (if \<not> is_group then
        seq (suspend (sync_opt (w_exec E (select_conv_peer conv_id user_id) ReadOnly))) (\<lambda>rows.
          tell (\<lambda>w. case rows of Inr (peer_id # _) \<Rightarrow> post_if_online peer_id b w | _ \<Rightarrow> w))
      else
        seq (co_resolve_members E conv_id) (\<lambda>members. tell (relay_members user_id b members)))"

definition co_ws_route_typing :: "('r, 'c) env \<Rightarrow> u64 \<Rightarrow> json \<Rightarrow> (bool, 'r, 'c) task" where
  "co_ws_route_typing E user_id j =
     (case ws_event_fields (e_json E) j of
        None \<Rightarrow> ret False
      | Some None \<Rightarrow> ret True
      | Some (Some (conv_id, is_group)) \<Rightarrow>
          seq (co_ws_relay E user_id conv_id is_group
                 (serialize_delivery (ws_event MsgType_TYPING conv_id user_id is_group))) (\<lambda>_. ret True))"

definition co_ws_route_read_receipt :: "('r, 'c) env \<Rightarrow> u64 \<Rightarrow> json \<Rightarrow> (bool, 'r, 'c) task" where
  "co_ws_route_read_receipt E user_id j =
     (case ws_event_fields (e_json E) j of
        None \<Rightarrow> ret False
      | Some None \<Rightarrow> ret True
      | Some (Some (conv_id, is_group)) \<Rightarrow>
          seq (suspend (tell (\<lambda>w. w\<lparr>w_redis := hdel_unread (e_rx E) (w_redis w) user_id conv_id\<rparr>))) (\<lambda>_.
          seq (tell (w_spawn (Job_mark_read conv_id user_id))) (\<lambda>_.
          seq (co_ws_relay E user_id conv_id is_group
                 (serialize_delivery (ws_event MsgType_READ conv_id user_id is_group))) (\<lambda>_. ret True))))"

section \<open>run\<close>

definition co_ws_login :: "('r, 'c) env \<Rightarrow> sid \<Rightarrow> u64 \<Rightarrow> (run_exit + unit, 'r, 'c) task" where
  "co_ws_login E s user_id =
     seq (tell (\<lambda>w. enter Running s ((session_register s user_id w)
       \<lparr>w_active_connections := w_active_connections w + 1\<rparr>))) (\<lambda>_.
     seq (suspend (tell (\<lambda>w. w\<lparr>w_redis := set_presence (e_rx E) (w_redis w) user_id (e_ws_server_id E)\<rparr>))) (\<lambda>_.
     seq (suspend (sync (ws_flush_offline_queue E s user_id))) (\<lambda>ok.
       if \<not> ok then ret (Inl RunThrow)
       else
         seq (sync (w_steady_now E)) (\<lambda>t.
         seq (tell (upd_session s (heartbeat_start t))) (\<lambda>_. ret (Inr ()))))))"

definition co_ws_auth :: "('r, 'c) env \<Rightarrow> sid \<Rightarrow> string \<Rightarrow> (run_exit + unit, 'r, 'c) task" where
  "co_ws_auth E s auth_text =
     (case jl_parse (e_json E) auth_text of
        None \<Rightarrow> ret (Inl RunReturn)
      | Some auth_j \<Rightarrow>
     (case jl_value_str (e_json E) auth_j ''type'' [] of
        None \<Rightarrow> ret (Inl RunThrow)
      | Some ty \<Rightarrow>
          if ty \<noteq> ''auth'' then ret (Inl RunReturn)
          else case jl_value_str (e_json E) auth_j ''token'' [] of
             None \<Rightarrow> ret (Inl RunThrow)
           | Some token \<Rightarrow>
               seq (sync (w_now E)) (\<lambda>now.
               case jwt_verify (e_jwt E) (e_secret E) now token of
                 None \<Rightarrow>
                   (case jl_dump (e_json E) (JObj [(''type'', JStr ''error''), (''msg'', JStr ''invalid token'')]) of
                      None \<Rightarrow> ret (Inl RunThrow)
                    | Some text \<Rightarrow>
                        seq (co_ws_write s text) (\<lambda>ok. ret (Inl (if ok then RunReturn else RunThrow))))
               | Some user_id \<Rightarrow>
                   co_ws_login E s user_id)))"

definition co_ws_frame :: "('r, 'c) env \<Rightarrow> sid \<Rightarrow> u64 \<Rightarrow> bool \<times> string \<Rightarrow> (bool, 'r, 'c) task" where
  "co_ws_frame E s user_id frame =
     (let (got_text, text) = frame
      in if \<not> got_text then ret True
         else case jl_parse (e_json E) text of
            None \<Rightarrow> ret True
          | Some j \<Rightarrow>
         (case jl_value_str (e_json E) j ''type'' [] of
            None \<Rightarrow> ret False
          | Some type \<Rightarrow>
              if type = ''ping'' then
                seq (sync (w_steady_now E)) (\<lambda>t.
                seq (tell (upd_session s (reset_heartbeat t))) (\<lambda>_.
                case jl_dump (e_json E) (JObj [(''type'', JStr ''pong'')]) of
                  None \<Rightarrow> ret False
                | Some pong \<Rightarrow> seq (tell (upd_session s (ws_push pong))) (\<lambda>_. ret True)))
              else if type = ''chat'' then co_ws_route_message E s user_id text
              else if type = ''group_chat'' then co_ws_route_group_message E user_id text
              else if type = ''typing'' then co_ws_route_typing E user_id j
              else if type = ''read'' then co_ws_route_read_receipt E user_id j
              else ret True))"

text \<open>\<open>co_await ws_.async_read\<close> opens every round; it throws after the last message.\<close>

fun co_read_loop :: "('r, 'c) env \<Rightarrow> sid \<Rightarrow> u64 \<Rightarrow> (bool \<times> string) list \<Rightarrow> (unit, 'r, 'c) task" where
  "co_read_loop E s user_id [] = suspend (ret ())"
| "co_read_loop E s user_id (frame # input) =
     seq (suspend (ret ())) (\<lambda>_.
     seq (co_ws_frame E s user_id frame) (\<lambda>ok.
       if ok then co_read_loop E s user_id input else ret ()))"

definition co_ws_serve :: "('r, 'c) env \<Rightarrow> sid \<Rightarrow> bool \<Rightarrow> (bool \<times> string) list \<Rightarrow> (run_exit, 'r, 'c) task" where
  "co_ws_serve E s accepted input =
     seq (suspend (ret ())) (\<lambda>_.
     if \<not> accepted then ret RunThrow
     else
       seq (suspend (ret ())) (\<lambda>_.
       case input of
         [] \<Rightarrow> ret RunThrow
       | frame # input \<Rightarrow>
           seq (co_ws_auth E s (snd frame)) (\<lambda>r.
           case r of
             Inl e \<Rightarrow> ret e
           | Inr _ \<Rightarrow>
               seq (ask (session_user s)) (\<lambda>user_id.
               seq (co_read_loop E s user_id input) (\<lambda>_. ret RunThrow)))))"

definition co_ws_run :: "('r, 'c) env \<Rightarrow> sid \<Rightarrow> bool \<Rightarrow> (bool \<times> string) list \<Rightarrow> (unit, 'r, 'c) task" where
  "co_ws_run E s accepted input = seq (co_ws_serve E s accepted input) (co_leave E s)"

section \<open>Without interference the coroutine is the function\<close>

lemma alone_ws_write: "run_alone (co_ws_write s text) w = Some (ws_write s text w)"
  by (simp add: co_ws_write_def alone_simps)

lemma alone_store_offline: "run_alone (co_store_offline E m c b) w = Some ((), w_spawn (Job_hincrby m c) (w_lpush E m b w))"
  by (simp add: co_store_offline_def alone_simps)

lemma alone_ws_deliver: "run_alone (co_ws_deliver E s u r c i b) w = Some (ws_deliver E s u r c i b w)"
  by (simp add: co_ws_deliver_def ws_deliver_def alone_simps alone_store_offline Let_def split: option.split)

lemma alone_ws_route_message: "run_alone (co_ws_route_message E s u text) w = ws_route_message E s u text w"
  by (auto simp: co_ws_route_message_def ws_route_message_def alone_simps alone_ws_deliver Let_def split_beta
      split: option.splits sum.splits list.splits intro!: Option.bind_cong)

lemma alone_ws_fanout: "run_alone (co_ws_fanout E u g b ms) w = Some ((), ws_group_fanout E u g b ms w)"
  by (induction ms arbitrary: w) (simp_all add: alone_simps alone_store_offline Let_def split: option.split)

lemma alone_ws_route_group_message:
  "run_alone (co_ws_route_group_message E u text) w = ws_route_group_message E u text w"
  by (simp add: co_ws_route_group_message_def ws_route_group_message_def alone_simps alone_ws_fanout
      alone_resolve_members Let_def split_beta split: option.splits)

lemma alone_ws_relay: "run_alone (co_ws_relay E u c g b) w = map_option (Pair ()) (ws_relay E u c g b w)"
  by (cases "w_exec E (select_conv_peer c u) ReadOnly w"; cases "resolve_members E c w")
    (auto simp: co_ws_relay_def ws_relay_def alone_simps alone_resolve_members)

lemma alone_ws_event:
  "run_alone (co_ws_route_typing E u j) w = ws_route_typing E u j w"
  "run_alone (co_ws_route_read_receipt E u j) w = ws_route_read_receipt E u j w"
  by (simp_all add: co_ws_route_typing_def ws_route_typing_def co_ws_route_read_receipt_def ws_route_read_receipt_def
      alone_simps alone_ws_relay Let_def bind_map_option comp_def split: option.split)

lemma alone_ws_frame: "run_alone (co_ws_frame E s u frame) w = ws_frame E s u frame w"
  by (simp add: co_ws_frame_def ws_frame_def alone_simps alone_ws_route_message alone_ws_route_group_message
      alone_ws_event Let_def split_beta split: option.split)

lemma alone_read_loop: "run_alone (co_read_loop E s u input) w = map_option (Pair ()) (read_loop E s u input w)"
proof (induction input arbitrary: w)
  case (Cons frame input)
  then show ?case
    by (cases "ws_frame E s u frame w") (auto simp: alone_simps alone_ws_frame)
qed (simp add: alone_simps)

lemma ws_enqueue_phase:
  "ws_enqueue E b (ss\<lparr>ss_phase := p\<rparr>) = map_option (\<lambda>ss. ss\<lparr>ss_phase := p\<rparr>) (ws_enqueue E b ss)"
  by (simp add: ws_enqueue_def ws_push_def Let_def split: option.split)

lemma ws_enqueue_all_phase:
  "ws_enqueue_all E bs (ss\<lparr>ss_phase := p\<rparr>) =
     (fst (ws_enqueue_all E bs ss), (snd (ws_enqueue_all E bs ss))\<lparr>ss_phase := p\<rparr>)"
  by (induction bs arbitrary: ss) (simp_all add: ws_enqueue_phase split: option.split)

lemma enter_ws_flush:
  "ws_flush_offline_queue E s u (enter p s w) =
     (fst (ws_flush_offline_queue E s u w), enter p s (snd (ws_flush_offline_queue E s u w)))"
proof (cases "w_sessions w s")
  case None
  then show ?thesis by (simp add: ws_flush_offline_queue_def Let_def split_beta enter_fields)
next
  case (Some ss)
  have "upd_session s (\<lambda>_. ss'\<lparr>ss_phase := p\<rparr>) (enter p s v) = enter p s (upd_session s (\<lambda>_. ss') v)" for ss' and v :: "('a, 'b) world"
    by (cases v; cases "w_sessions v s") (simp_all add: enter_def upd_session_def fun_eq_iff)
  with Some show ?thesis
    by (simp add: ws_flush_offline_queue_def Let_def split_beta ws_enqueue_all_phase enter_fields [symmetric])
qed

lemma ws_online_split:
  "(enter Running s ((session_register s u w)\<lparr>w_active_connections := w_active_connections w + 1\<rparr>))
     \<lparr>w_redis := set_presence (e_rx E) (w_redis (session_register s u w)) u (e_ws_server_id E)\<rparr> =
   enter Running s (ws_online E s u w)"
  by (simp add: ws_online_def session_online_split session_register_def Let_def enter_fields)

lemma alone_ws_login:
  assumes "ws_flush_offline_queue E s u (ws_online E s u w) = (ok, v)"
  shows "run_alone (co_ws_login E s u) w = Some (if ok
    then (Inr (), enter Running s (upd_session s (heartbeat_start (fst (w_steady_now E v))) (snd (w_steady_now E v))))
    else (Inl RunThrow, enter Running s v))"
proof -
  have "snd (w_steady_now E (enter Running s v)) = enter Running s (snd (w_steady_now E v))"
    "fst (w_steady_now E (enter Running s v)) = fst (w_steady_now E v)"
    by (simp_all add: w_steady_now_def enter_fields)
  then show ?thesis
    by (simp add: co_ws_login_def alone_simps ws_online_split enter_ws_flush assms split_beta enter_heartbeat)
qed

lemma alone_ws_auth:
  assumes "ws_auth E s text w = (r, v)"
  shows "\<exists>v'. run_alone (co_ws_auth E s text) w = Some (r, v') \<and>
    (v' = v \<or> (\<exists>e. r = Inl e) \<and> v' = enter Running s v)"
  using assms
  by (simp add: co_ws_auth_def ws_auth_def alone_simps alone_ws_write Let_def split_beta alone_ws_login [OF surjective_pairing]
      split: option.splits if_splits) auto

lemma alone_ws_serve:
  "run_alone (co_ws_run E s accepted input) w = map_option (Pair ()) (ws_run E s accepted input w)"
proof (cases "\<exists>frame rest. accepted \<and> input = frame # rest")
  case False
  then show ?thesis
    by (cases input) (auto simp: co_ws_run_def co_ws_serve_def ws_run_def alone_simps alone_leave)
next
  case True
  then obtain frame rest where i: "accepted" "input = frame # rest" by blast
  obtain r v where a: "ws_auth E s (snd frame) w = (r, v)" by fastforce
  obtain v' where v': "run_alone (co_ws_auth E s (snd frame)) w = Some (r, v')"
    "v' = v \<or> (\<exists>e. r = Inl e) \<and> v' = enter Running s v" using alone_ws_auth [OF a] by blast
  show ?thesis
  proof (cases r)
    case (Inl e)
    with v' i show ?thesis
      by (auto simp: co_ws_run_def co_ws_serve_def ws_run_def alone_simps a alone_leave leave_enter)
  next
    case (Inr x)
    with v' i show ?thesis
      by (simp add: co_ws_run_def co_ws_serve_def ws_run_def alone_simps a alone_leave alone_read_loop session_user_def)
        (cases "read_loop E s (case w_sessions v s of Some ss \<Rightarrow> ss_user_id ss | None \<Rightarrow> 0) rest v"; auto)
  qed
qed


end
