(* ===== verification/Interleaving.thy ===== *)
theory Interleaving
  imports System Ws_Coroutines
begin

text \<open>
  The server when its coroutines are interleaved at their suspensions.  Each session that has been accepted is a
  coroutine of \<open>Tcp_Coroutines\<close> or \<open>Ws_Coroutines\<close>; the event loop resumes any of them, or does any other action of
  \<open>System\<close> (a request, a delivery, a write, a detached coroutine, a timer) in between.  A session relies on the others to keep
  the invariant \<open>sys_inv\<close> and to leave its kind, user and phase alone, and guarantees the same to them: with that the
  invariant holds in every interleaving and no resumption ever hangs.
\<close>

section \<open>Rely and guarantee of a session\<close>

definition ident_of :: "('r, 'c) world \<Rightarrow> sid \<Rightarrow> ident" where
  "ident_of w s = map_option (\<lambda>ss. (ss_kind ss, ss_user_id ss, ss_phase ss)) (w_sessions w s)"

definition own :: "sid \<Rightarrow> ('r, 'c) world \<Rightarrow> ('r, 'c) world \<Rightarrow> bool" where
  "own s w v \<longleftrightarrow> (sys_inv w \<longrightarrow> sys_inv v) \<and> (\<forall>t. t \<noteq> s \<longrightarrow> ident_of v t = ident_of w t) \<and> w_crashed v = w_crashed w"

definition others :: "sid \<Rightarrow> ('r, 'c) world \<Rightarrow> ('r, 'c) world \<Rightarrow> bool" where
  "others s w v \<longleftrightarrow> (sys_inv w \<longrightarrow> sys_inv v) \<and> ident_of v s = ident_of w s"

definition at_ident :: "sid \<Rightarrow> ident \<Rightarrow> ('r, 'c) world \<Rightarrow> bool" where
  "at_ident s i w \<longleftrightarrow> sys_inv w \<and> ident_of w s = i"

lemma own_others: "own s w v \<Longrightarrow> t \<noteq> s \<Longrightarrow> others t w v"
  by (simp add: own_def others_def)

lemma stable_at [simp]: "stable (others s) (at_ident s i)"
  by (auto simp: stable_def others_def at_ident_def)

lemma ident_core: "ident_of w s = snd (snd (snd (core w))) s"
  by (simp add: ident_of_def core_def)

lemma at_inv: "at_ident s i w \<Longrightarrow> sys_inv w"
  by (simp add: at_ident_def)

lemma at_core:
  assumes "at_ident s i w"
  shows "core_ok (w_registry w, w_active_sessions w, w_active_connections w, ident_of w)" "ident_of w s = i"
proof -
  have "core w = (w_registry w, w_active_sessions w, w_active_connections w, ident_of w)"
    by (simp add: core_def ident_of_def fun_eq_iff)
  then show "core_ok (w_registry w, w_active_sessions w, w_active_connections w, ident_of w)" "ident_of w s = i"
    using assms unfolding at_ident_def sys_inv_def by metis+
qed

lemma core_ident_of: "core v = core w \<Longrightarrow> ident_of v = ident_of w"
  by (rule ext) (simp add: ident_core)

interpretation own: guarantee "own s" for s
  by unfold_locales (auto simp: own_def)

text \<open>A computation that changes the world only by the effects that handlers have, and returns.\<close>

definition mild :: "sid \<Rightarrow> ('a, 'r, 'c) task \<Rightarrow> bool" where
  "mild s m \<longleftrightarrow> (\<forall>i. triple (others s) (own s) (at_ident s i) m (\<lambda>_. at_ident s i))"

lemma mild_at: "mild s m \<Longrightarrow> triple (others s) (own s) (at_ident s i) m (\<lambda>_. at_ident s i)"
  by (simp add: mild_def)

lemma effects_crashed: "effects E w v \<Longrightarrow> w_crashed v = w_crashed w"
  by (induction rule: effects.induct) (auto simp: w_snowflake_def bind_eq_Some_conv)

lemma effects_at: "effects E w v \<Longrightarrow> own s w v \<and> (at_ident s i w \<longrightarrow> at_ident s i v)"
  using sys_inv_effects [of E w v] core_ident_of [OF effects_core, of E w v] effects_crashed [of E w v]
  by (auto simp: own_def at_ident_def)

lemma at_live: "at_ident s i w \<Longrightarrow> live w"
  by (simp add: at_ident_def sys_inv_def)

lemma mild_ret [intro!]: "mild s (ret a)"
  unfolding mild_def by (intro allI own.triple_ret) simp

lemma mild_ask [intro!]: "mild s (ask f)"
  unfolding mild_def by (intro allI own.triple_ask) simp

lemma mild_tell: "(\<And>w. effects E w (f w)) \<Longrightarrow> mild s (tell f)"
  unfolding mild_def by (intro allI own.triple_tell) (use effects_at in blast)

lemma mild_sync: "(\<And>w. effects E w (snd (f w))) \<Longrightarrow> mild s (sync f)"
  unfolding mild_def by (intro allI own.triple_sync) (use effects_at in blast)

lemma mild_sync_opt:
  fixes f :: "('r, 'c) world \<Rightarrow> ('a \<times> ('r, 'c) world) option"
  assumes "\<And>w. live w \<Longrightarrow> \<exists>a v. f w = Some (a, v) \<and> effects E w v"
  shows "mild s (sync_opt f)"
  unfolding mild_def
proof (intro allI own.triple_sync_opt)
  fix i and w :: "('r, 'c) world"
  assume a: "at_ident s i w"
  then obtain x v where "f w = Some (x, v)" "effects E w v" using assms [OF at_live] by blast
  with a effects_at [of E w v s i] show "\<exists>a v. f w = Some (a, v) \<and> own s w v \<and> at_ident s i v" by blast
qed

lemma mild_suspend [intro!]: "mild s m \<Longrightarrow> mild s (suspend m)"
  unfolding mild_def by (auto intro: own.triple_suspend)

lemma mild_seq [intro!]: "mild s m \<Longrightarrow> (\<And>a. mild s (k a)) \<Longrightarrow> mild s (seq m k)"
  unfolding mild_def by (blast intro: own.triple_seq)

lemma mild_steady [intro!]: "mild s (sync (w_steady_now E))" "mild s (sync (w_now E))"
  by (rule mild_sync [of E]; intro eff_primitive eff_refl)+

lemma mild_snowflake: "clock_moves (e_clk E) \<Longrightarrow> mild s (sync_opt (w_snowflake E))"
  by (rule mild_sync_opt [of _ E]) (metis live_snowflake eff_snowflake eff_refl)

lemma mild_exec: "keeps db_ok f \<Longrightarrow> mild s (sync_opt (w_exec E f rc))"
  by (rule mild_sync_opt [of _ E]) (metis live_exec eff_exec eff_refl)

lemma mild_redis [intro!]: "mild s (tell (\<lambda>w. w\<lparr>w_redis := f w\<rparr>))"
  by (rule mild_tell) (rule eff_redis [OF eff_refl])

lemma mild_spawn [intro!]: "mild s (tell (w_spawn j))" "mild s (tell (w_post t b))" "mild s (tell w_count_message)"
  by (rule mild_tell [of undefined]; intro eff_primitive eff_refl)+

lemma mild_lpush [intro!]: "mild s (tell (w_lpush E u b))"
  by (rule mild_tell [of E]) (intro eff_primitive eff_refl)

lemma mild_session:
  "(\<And>ss. ss_kind (f ss) = ss_kind ss \<and> ss_user_id (f ss) = ss_user_id ss \<and> ss_phase (f ss) = ss_phase ss) \<Longrightarrow>
   mild s (tell (upd_session t f))"
  by (rule mild_tell) (rule eff_session [OF eff_refl])

lemma mild_heartbeat [intro!]: "mild s (tell (upd_session t (reset_heartbeat n)))" "mild s (tell (upd_session t (heartbeat_start n)))"
  "mild s (tell (upd_session t (\<lambda>ss. ss\<lparr>ss_bucket := tb\<rparr>)))"
  by (rule mild_session; simp add: heartbeat_start_def)+

section \<open>TCP sessions\<close>

lemma mild_write [intro!]: "mild s (co_write t h)"
  unfolding co_write_def by (intro mild_seq mild_suspend mild_ret, rule mild_sync [of undefined]) (rule eff_tcp_write [OF eff_refl])

lemma mild_read [intro!]: "mild s (co_read_header input)" "mild s (co_read_payload n input)"
  by (auto simp: co_read_header_def co_read_payload_def)

lemma mild_store_offline [intro!]: "mild s (co_store_offline E m c b)"
  unfolding co_store_offline_def by (intro mild_seq mild_suspend mild_spawn mild_lpush)

lemma mild_deliver [intro!]: "mild s (co_deliver E u m c fl i b)"
  by (auto simp: co_deliver_def split: option.split)

lemma mild_resolve_members [intro!]: "mild s (co_resolve_members E g)"
proof -
  have "mild s (sync (w_smembers E g))" by (rule mild_sync [of E]) (intro eff_primitive eff_refl)
  moreover have "mild s (sync_opt (load_group_members_from_pg E g))"
  proof (rule mild_sync_opt [of _ E])
    fix w :: "('a, 'b) world" assume l: "live w"
    obtain r v where "w_exec E (select_group_members g) ReadOnly w = Some (r, v)"
      using live_exec [OF l] by blast
    moreover have "effects E w v" by (rule eff_exec [OF eff_refl calculation]) (simp add: select_group_members_def keeps_statements)
    ultimately show "\<exists>a v. load_group_members_from_pg E g w = Some (a, v) \<and> effects E w v"
      by (simp add: load_group_members_from_pg_def)
  qed
  ultimately show ?thesis unfolding co_resolve_members_def by auto
qed

lemma mild_fanout [intro!]: "mild s (co_fanout E u g i b ms)"
  by (induction ms) auto

lemma mild_route:
  assumes "clock_moves (e_clk E)"
  shows "mild s (co_route_message E u hdr p)"
  using mild_snowflake [OF assms]
  by (auto simp: co_route_message_def co_route_group_def co_route_dm_def Let_def)

lemma mild_typing: "mild s (co_typing E u hdr)"
  by (auto simp: co_typing_def Let_def intro!: mild_tell [of E] eff_post_if_online eff_relay_members eff_refl)

lemma mild_chat: "clock_moves (e_clk E) \<Longrightarrow> mild s (co_chat E s u hdr p input)"
  by (auto simp: co_chat_def split_beta intro!: mild_route split: option.split)

lemma mild_frame: "clock_moves (e_clk E) \<Longrightarrow> mild s (co_frame E s u input)"
  by (auto simp: co_frame_def intro!: mild_chat mild_typing split: option.split)

lemma mild_seq_results:
  assumes "mild s m" "\<And>a. a \<in> results m \<Longrightarrow> mild s (k a)"
  shows "mild s (seq m k)"
proof -
  have "seq m k = seq m (\<lambda>a. if a \<in> results m then k a else ret undefined)" by (rule seq_cong) simp_all
  moreover have "mild s (seq m (\<lambda>a. if a \<in> results m then k a else ret undefined))"
    using assms by (intro mild_seq) auto
  ultimately show ?thesis by simp
qed

lemma mild_loop: "clock_moves (e_clk E) \<Longrightarrow> mild s (co_loop E s u input)"
proof (induction E s u input rule: co_loop.induct)
  case (1 E s u input)
  show ?case unfolding co_loop.simps [of E s u input]
  proof (rule mild_seq_results)
    show "mild s (co_frame E s u input)" using "1.prems" by (rule mild_frame)
    fix r assume "r \<in> results (co_frame E s u input)"
    with "1.IH" [OF this] "1.prems" show "mild s (case r of Inl e \<Rightarrow> ret e | Inr input \<Rightarrow> co_loop E s u input)"
      by (cases r) auto
  qed
qed

section \<open>Login and end\<close>

text \<open>Where a session stands that has not ended; \<open>open_ident\<close> is what its coroutine knows before the clean-up.\<close>

definition open_ident :: "kind \<Rightarrow> ident \<Rightarrow> bool" where
  "open_ident k i \<longleftrightarrow> (\<exists>u p. i = Some (k, u, p) \<and> p \<noteq> Ended)"

definition opened :: "sid \<Rightarrow> kind \<Rightarrow> ('r, 'c) world \<Rightarrow> bool" where
  "opened s k w \<longleftrightarrow> (\<exists>i. at_ident s i w \<and> open_ident k i)"

definition ended :: "sid \<Rightarrow> ('r, 'c) world \<Rightarrow> bool" where
  "ended s w \<longleftrightarrow> (\<exists>k u. at_ident s (Some (k, u, Ended)) w)"

lemma opened_at: "at_ident s (Some (k, u, p)) w \<Longrightarrow> p \<noteq> Ended \<Longrightarrow> opened s k w"
  by (auto simp: opened_def open_ident_def)

lemma ended_at: "at_ident s (Some (k, u, Ended)) w \<Longrightarrow> ended s w"
  by (auto simp: ended_def)

lemma triple_ex: "(\<And>x. triple R G (P x) m Q) \<Longrightarrow> triple R G (\<lambda>w. \<exists>x. P x w) m Q"
  by (auto simp: triple_def)

lemma mild_opened: "mild s m \<Longrightarrow> triple (others s) (own s) (opened s k) m (\<lambda>_. opened s k)"
proof -
  assume m: "mild s m"
  have "triple (others s) (own s) (\<lambda>w. at_ident s i w \<and> open_ident k i) m (\<lambda>_. opened s k)" for i
  proof (cases "open_ident k i")
    case True
    have "triple (others s) (own s) (at_ident s i) m (\<lambda>_. at_ident s i)" using m by (simp add: mild_def)
    then show ?thesis by (rule triple_pre [OF triple_post]) (auto simp: opened_def True)
  qed (simp add: triple_def)
  then show ?thesis unfolding opened_def [of s k, abs_def] by (rule triple_ex)
qed

lemma ident_session: "ident_of w s = Some (k, u, p) \<Longrightarrow> \<exists>ss. w_sessions w s = Some ss \<and> ss_kind ss = k \<and> ss_user_id ss = u \<and> ss_phase ss = p"
  by (auto simp: ident_of_def)

text \<open>The segment that registers the session; a WebSocket session counts its connection here.\<close>

definition register_any :: "kind \<Rightarrow> sid \<Rightarrow> u64 \<Rightarrow> ('r, 'c) world \<Rightarrow> ('r, 'c) world" where
  "register_any k s u w = enter Running s (case k of
     Tcp \<Rightarrow> session_register s u w
   | Ws \<Rightarrow> (session_register s u w)\<lparr>w_active_connections := w_active_connections w + 1\<rparr>)"

lemma register_segment:
  assumes "at_ident s (Some (k, 0, Handshake)) w"
  shows "own s w (register_any k s u w)" "at_ident s (Some (k, u, Running)) (register_any k s u w)"
proof -
  let ?v = "register_any k s u w"
  obtain ss where ss: "w_sessions w s = Some ss" "ss_kind ss = k" "ss_phase ss = Handshake"
    using assms ident_session by (fastforce simp: at_ident_def)
  have o: "core (session_register s u w) = core (session_online E s u w)"
    "core ((session_register s u w)\<lparr>w_active_connections := w_active_connections w + 1\<rparr>) = core (ws_online E s u w)"
    for E :: "('a, 'b) env"
    by (simp_all add: ws_online_def session_online_split session_register_def Let_def) (simp_all add: core_def)
  have v: "core ?v = core (enter Running s (if ss_kind ss = Tcp then session_online E s u w else ws_online E s u w))"
    for E :: "('a, 'b) env"
    by (cases k) (simp_all add: register_any_def core_enter_cong [OF o(1)] core_enter_cong [OF o(2)] ss(2))
  have "core_ok (core w)" using at_inv [OF assms] by (simp only: sys_inv_def)
  then have "core_ok (core ?v)" using ss(1,3) v by (rule core_ok_running)
  moreover have "w_pg ?v = w_pg w" "w_sf ?v = w_sf w"
    by (simp_all add: register_any_def session_register_def Let_def split: kind.split)
  ultimately have inv: "sys_inv w \<Longrightarrow> sys_inv ?v" using sys_inv_cong by blast
  have id: "ident_of ?v t = (if t = s then Some (k, u, Running) else ident_of w t)" for t
    using ss by (simp add: ident_of_def register_any_def session_register_def Let_def split: kind.split)
  have "w_crashed ?v = w_crashed w"
    by (simp add: register_any_def session_register_def Let_def split: kind.split)
  then show "own s w ?v" "at_ident s (Some (k, u, Running)) ?v"
    using assms inv id by (simp_all add: own_def at_ident_def)
qed

text \<open>The segment that ends the session, with or without the removal from the registry.\<close>

lemma ident_enter: "ident_of (enter p s w) t = (if t = s then map_option (\<lambda>(k, u, _). (k, u, p)) (ident_of w s) else ident_of w t)"
  by (cases "w_sessions w s") (simp_all add: ident_of_def)

lemma end_segment:
  assumes "at_ident s (Some (k, u, p)) w"
  shows "own s w (enter Ended s w)" "at_ident s (Some (k, u, Ended)) (enter Ended s w)"
proof -
  obtain ss where ss: "w_sessions w s = Some ss" "ss_kind ss = k" "ss_user_id ss = u"
    using assms ident_session by (fastforce simp: at_ident_def)
  note c = at_core(1) [OF assms]
  have "core (enter Ended s w) = (w_registry w, w_active_sessions w, w_active_connections w, (ident_of w)(s \<mapsto> (k, u, Ended)))"
    using assms by (auto simp: core_enter at_ident_def ident_core fun_eq_iff)
  then have "core_ok (core (enter Ended s w))"
    using core_ok_end [OF c, of s k u p] assms by (simp add: at_ident_def del: core_ok.simps)
  then have "sys_inv (enter Ended s w)"
    by (intro sys_inv_cong [OF _ _ _ at_inv [OF assms]]) simp_all
  then show "own s w (enter Ended s w)" "at_ident s (Some (k, u, Ended)) (enter Ended s w)"
    using assms by (simp_all add: own_def at_ident_def ident_enter)
qed

lemma deregister_segment:
  assumes "at_ident s (Some (k, u, p)) w" "p \<noteq> Ended" "u \<noteq> 0"
  shows "own s w (enter Ended s (session_deregister s u w))"
    "at_ident s (Some (k, u, Ended)) (enter Ended s (session_deregister s u w))"
proof -
  let ?v = "enter Ended s (session_deregister s u w)"
  note c = at_core(1) [OF assms(1)]
  have "p = Running"
    using assms c by (cases p) (auto simp: at_ident_def)
  then have "core_ok (registry_remove (w_alive w) (w_registry w) u (Some s), w_active_sessions w - 1,
      w_active_connections w - 1, (ident_of w)(s \<mapsto> (k, u, Ended)))"
    using core_ok_cleanup [OF c] assms(1) by (simp add: at_ident_def del: core_ok.simps)
  moreover have i: "ident_of (session_deregister s u w) = ident_of w"
    by (simp add: ident_of_def session_deregister_def fun_eq_iff)
  then have "core ?v = (registry_remove (w_alive w) (w_registry w) u (Some s), w_active_sessions w - 1,
      w_active_connections w - 1, (ident_of w)(s \<mapsto> (k, u, Ended)))"
    using assms(1) ident_core [of "session_deregister s u w"]
    by (auto simp: core_enter at_ident_def fun_eq_iff) (simp_all add: session_deregister_def)
  ultimately have "core_ok (core ?v)" by (simp only:)
  moreover have "w_pg ?v = w_pg w" "w_sf ?v = w_sf w" by (simp_all add: session_deregister_def)
  ultimately have "sys_inv ?v" using sys_inv_cong at_inv [OF assms(1)] by blast
  then show "own s w ?v" "at_ident s (Some (k, u, Ended)) ?v"
    using assms(1) by (simp_all add: own_def at_ident_def ident_enter i) (simp add: session_deregister_def)
qed

lemma opened_cases:
  assumes "\<And>u p. p \<noteq> Ended \<Longrightarrow> triple R G (at_ident s (Some (k, u, p))) m Q"
  shows "triple R G (opened s k) m Q"
proof -
  have "triple R G (\<lambda>w. \<exists>u p. p \<noteq> Ended \<and> at_ident s (Some (k, u, p)) w) m Q"
    using assms by (auto simp: triple_def)
  then show ?thesis by (rule triple_pre) (auto simp: opened_def open_ident_def)
qed

text \<open>A login: everything before the registration leaves the session in its handshake, everything after it is mild.\<close>

definition logs_in :: "sid \<Rightarrow> kind \<Rightarrow> ('a, 'r, 'c) task \<Rightarrow> bool" where
  "logs_in s k m \<longleftrightarrow> triple (others s) (own s) (at_ident s (Some (k, 0, Handshake))) m (\<lambda>_. opened s k)"

lemma logs_in_mild: "mild s m \<Longrightarrow> logs_in s k m"
  unfolding logs_in_def mild_def
  by (rule triple_post [where Q = "\<lambda>_. at_ident s (Some (k, 0, Handshake))"]) (auto intro: opened_at)

lemma logs_in_ret [intro!]: "logs_in s k (ret a)"
  by (rule logs_in_mild) (rule mild_ret)

lemma logs_in_seq: "mild s m \<Longrightarrow> (\<And>a. logs_in s k (f a)) \<Longrightarrow> logs_in s k (seq m f)"
  unfolding logs_in_def mild_def by (rule own.triple_seq) auto

lemma logs_in_register:
  assumes "\<And>a. mild s (f a)"
  shows "logs_in s k (seq (tell (register_any k s u)) f)"
  unfolding logs_in_def
proof (rule own.triple_seq)
  show "triple (others s) (own s) (at_ident s (Some (k, 0, Handshake))) (tell (register_any k s u)) (\<lambda>_. opened s k)"
    by (rule own.triple_tell) (intro conjI register_segment(1) opened_at [OF register_segment(2)]; simp)
qed (rule mild_opened [OF assms])

lemma mild_flush: "mild s (co_flush_offline_queue E s u)"
proof -
  have "effects E w (tcp_flush_offline_queue E s u w)" for w
    unfolding tcp_flush_offline_queue_def split_beta Let_def
    by (rule eff_session [OF eff_redis [OF eff_refl]]) simp
  then show ?thesis unfolding co_flush_offline_queue_def by (intro mild_suspend mild_tell)
qed

lemma register_any_Tcp: "(\<lambda>w. enter Running s (session_register s u w)) = register_any Tcp s u"
  by (simp add: register_any_def fun_eq_iff)

lemma logs_in_login: "logs_in s Tcp (co_login E s u input)"
  unfolding co_login_def register_any_Tcp by (rule logs_in_register) (auto intro!: mild_flush)

lemma logs_in_auth: "logs_in s Tcp (co_auth E s input)"
  unfolding co_auth_def
  by (auto intro!: logs_in_seq logs_in_login split: option.split)

lemma mild_user [intro!]: "mild s (ask (session_user t))"
  by (rule mild_ask)

text \<open>The clean-up.\<close>

lemma triple_ended: "mild s m \<Longrightarrow> triple (others s) (own s) (ended s) m (\<lambda>_. ended s)"
proof -
  assume m: "mild s m"
  have "triple (others s) (own s) (at_ident s (Some (k, u, Ended))) m (\<lambda>_. ended s)" for k u
  proof (rule triple_post)
    show "triple (others s) (own s) (at_ident s (Some (k, u, Ended))) m (\<lambda>_. at_ident s (Some (k, u, Ended)))"
      using m by (simp add: mild_def)
  qed (auto simp: ended_def)
  then show ?thesis by (auto simp: triple_def ended_def)
qed

lemma triple_leave: "triple (others s) (own s) (opened s k) (co_leave E s e) (\<lambda>_. ended s)"
proof (rule opened_cases)
  fix u p assume p: "p \<noteq> Ended"
  let ?P = "at_ident s (Some (k, u, p))"
  have e: "triple (others s) (own s) ?P (tell (enter Ended s)) (\<lambda>_. ended s)"
    by (rule own.triple_tell) (intro conjI end_segment(1) ended_at [OF end_segment(2)])
  have d: "triple (others s) (own s) ?P (tell (\<lambda>w. enter Ended s (session_deregister s u w))) (\<lambda>_. ended s)" if "u \<noteq> 0"
    by (rule own.triple_tell) (intro conjI deregister_segment(1) [OF _ p that] ended_at [OF deregister_segment(2) [OF _ p that]])
  have a: "triple (others s) (own s) ?P (ask (session_user s)) (\<lambda>v w. v = u \<and> ?P w)"
    by (rule own.triple_ask) (auto simp: session_user_def at_ident_def dest!: ident_session)
  show "triple (others s) (own s) ?P (co_leave E s e) (\<lambda>_. ended s)"
  proof (cases e)
    case RunReturn
    with e show ?thesis by (simp add: co_leave_def)
  next
    case RunThrow
    show ?thesis unfolding RunThrow co_leave_def run_exit.case co_cleanup_def
    proof (rule own.triple_seq [OF mild_at], blast, rule own.triple_seq [OF mild_at], blast, rule own.triple_seq [OF a])
      fix v
      show "triple (others s) (own s) (\<lambda>w. v = u \<and> ?P w) (if v \<noteq> 0
        then seq (tell (\<lambda>w. enter Ended s (session_deregister s v w))) (\<lambda>_.
             seq (suspend (tell (\<lambda>w. w\<lparr>w_redis := del_presence (e_rx E) (w_redis w) v\<rparr>))) (\<lambda>_.
             seq (sync (w_now E)) (\<lambda>ts_ms.
             seq (suspend (tell (\<lambda>w. w\<lparr>w_redis := set_last_seen (e_rx E) (w_redis w) v ts_ms\<rparr>))) (\<lambda>_.
               tell (w_spawn (Job_last_seen v ts_ms))))))
        else tell (enter Ended s)) (\<lambda>_. ended s)"
      proof (cases "v = u")
        case True
        have t: "triple (others s) (own s) (ended s) (seq (suspend (tell (\<lambda>w. w\<lparr>w_redis := del_presence (e_rx E) (w_redis w) v\<rparr>))) (\<lambda>_.
             seq (sync (w_now E)) (\<lambda>ts_ms.
             seq (suspend (tell (\<lambda>w. w\<lparr>w_redis := set_last_seen (e_rx E) (w_redis w) v ts_ms\<rparr>))) (\<lambda>_.
               tell (w_spawn (Job_last_seen v ts_ms)))))) (\<lambda>_. ended s)"
          by (rule triple_ended) auto
        show ?thesis
          using e own.triple_seq [OF d t] True by auto
      qed (simp add: triple_def)
    qed
  qed
qed

lemma triple_tcp_run:
  assumes "clock_moves (e_clk E)"
  shows "triple (others s) (own s) (at_ident s (Some (Tcp, 0, Handshake))) (co_tcp_run E s input) (\<lambda>_. ended s)"
  unfolding co_tcp_run_def
proof (rule own.triple_seq [OF logs_in_auth [unfolded logs_in_def]])
  fix r
  have "mild s (case r of Inl e \<Rightarrow> ret e | Inr input \<Rightarrow> seq (ask (session_user s)) (\<lambda>u. co_loop E s u input))"
    using mild_loop [OF assms] by (cases r) auto
  from own.triple_seq [OF mild_opened [OF this] triple_leave]
  show "triple (others s) (own s) (opened s Tcp) (seq (case r of Inl e \<Rightarrow> ret e
      | Inr input \<Rightarrow> seq (ask (session_user s)) (\<lambda>u. co_loop E s u input)) (co_leave E s)) (\<lambda>_. ended s)" .
qed

section \<open>WebSocket sessions\<close>

lemma ws_push_ident [simp]: "ss_kind (ws_push t ss) = ss_kind ss" "ss_user_id (ws_push t ss) = ss_user_id ss"
  "ss_phase (ws_push t ss) = ss_phase ss"
  by (simp_all add: ws_push_eq)

lemma mild_push [intro!]: "mild s (tell (upd_session t (ws_push text)))"
  by (rule mild_session) simp

lemma mild_ws_write [intro!]: "mild s (co_ws_write t text)"
proof -
  have "effects undefined w (snd (ws_write t text w))" for w :: "('a, 'b) world"
    by (auto simp: ws_write_def intro!: eff_session eff_refl split: option.split)
  then show ?thesis unfolding co_ws_write_def by (intro mild_seq mild_suspend mild_ret mild_sync)
qed

lemma mild_ws_deliver [intro!]: "mild s (co_ws_deliver E t u r c i b)"
  by (auto simp: co_ws_deliver_def split: option.split)

lemma mild_peer [intro!]: "mild s (sync_opt (w_exec E (select_conv_peer c u) ReadOnly))"
  by (rule mild_exec) (simp add: select_conv_peer_def keeps_statements)

lemma mild_ws_route:
  assumes "clock_moves (e_clk E)"
  shows "mild s (co_ws_route_message E t u text)"
  using mild_snowflake [OF assms]
  by (auto simp: co_ws_route_message_def Let_def split: option.split sum.split list.split)

lemma mild_ws_fanout [intro!]: "mild s (co_ws_fanout E u g b ms)"
  by (induction ms) (auto split: option.split)

lemma mild_ws_route_group:
  assumes "clock_moves (e_clk E)"
  shows "mild s (co_ws_route_group_message E u text)"
  using mild_snowflake [OF assms]
  by (auto simp: co_ws_route_group_message_def Let_def split: option.split)

lemma mild_ws_relay [intro!]: "mild s (co_ws_relay E u c g b)"
proof -
  have "mild s (tell (\<lambda>w. case rows of Inr (peer_id # _) \<Rightarrow> post_if_online peer_id b w | _ \<Rightarrow> w))" for rows :: "pg_exn + u64 list"
    by (rule mild_tell [of undefined]) (auto intro!: eff_post_if_online eff_refl split: sum.split list.split)
  moreover have "mild s (tell (relay_members u b ms))" for ms
    by (rule mild_tell [of undefined]) (rule eff_relay_members [OF eff_refl])
  ultimately show ?thesis by (auto simp: co_ws_relay_def)
qed

lemma mild_ws_events [intro!]: "mild s (co_ws_route_typing E u j)" "mild s (co_ws_route_read_receipt E u j)"
  by (auto simp: co_ws_route_typing_def co_ws_route_read_receipt_def split: option.split)

lemma mild_ws_frame: "clock_moves (e_clk E) \<Longrightarrow> mild s (co_ws_frame E t u frame)"
  by (auto simp: co_ws_frame_def intro!: mild_ws_route mild_ws_route_group split: option.split prod.split)

lemma mild_read_loop: "clock_moves (e_clk E) \<Longrightarrow> mild s (co_read_loop E t u input)"
  by (induction input) (auto intro!: mild_ws_frame)

lemma register_any_Ws:
  "(\<lambda>w. enter Running s ((session_register s u w)\<lparr>w_active_connections := w_active_connections w + 1\<rparr>)) = register_any Ws s u"
  by (simp add: register_any_def fun_eq_iff)

lemma eff_ws_flush: "effects E w (snd (ws_flush_offline_queue E t u w))"
proof (cases "w_sessions w t")
  case None
  then show ?thesis by (simp add: ws_flush_offline_queue_def Let_def split_beta eff_redis [OF eff_refl])
next
  case (Some ss)
  let ?q = "lrange_and_del (e_rx E) (w_redis w) (offline_key u)"
  obtain ok ss' where e: "ws_enqueue_all E (fst ?q) ss = (ok, ss')" by fastforce
  let ?f = "\<lambda>x. if x = ss then ss' else x"
  have "effects E w (upd_session t ?f (w\<lparr>w_redis := snd ?q\<rparr>))"
    using ws_enqueue_all_fields [OF e] by (intro eff_session eff_redis eff_refl) simp
  moreover have "upd_session t (\<lambda>_. ss') (w\<lparr>w_redis := snd ?q\<rparr>) = upd_session t ?f (w\<lparr>w_redis := snd ?q\<rparr>)"
    using Some by (simp add: upd_session_def)
  ultimately show ?thesis using Some e by (simp add: ws_flush_offline_queue_def Let_def split_beta)
qed

lemma mild_ws_flush [intro!]: "mild s (sync (ws_flush_offline_queue E t u))"
  by (rule mild_sync [of E]) (rule eff_ws_flush)

lemma logs_in_ws: "logs_in s Ws (co_ws_auth E s text)"
proof -
  have "logs_in s Ws (co_ws_login E s u)" for u
    unfolding co_ws_login_def register_any_Ws by (rule logs_in_register) auto
  moreover have "logs_in s Ws (co_ws_write s t)" for t by (intro logs_in_mild mild_ws_write)
  ultimately show ?thesis unfolding co_ws_auth_def by (auto intro!: logs_in_seq split: option.split)
qed

lemma triple_ws_run:
  assumes "clock_moves (e_clk E)"
  shows "triple (others s) (own s) (at_ident s (Some (Ws, 0, Handshake))) (co_ws_run E s accepted input) (\<lambda>_. ended s)"
proof -
  have l: "mild s (case r of Inl e \<Rightarrow> ret e | Inr _ \<Rightarrow> seq (ask (session_user s)) (\<lambda>u.
      seq (co_read_loop E s u input) (\<lambda>_. ret RunThrow)))" for r :: "run_exit + unit" and input
    using mild_read_loop [OF assms] by (cases r) auto
  have "logs_in s Ws (seq (co_ws_auth E s tx) (\<lambda>r. case r of Inl e \<Rightarrow> ret e | Inr _ \<Rightarrow> seq (ask (session_user s)) (\<lambda>u.
      seq (co_read_loop E s u input) (\<lambda>_. ret RunThrow))))" for tx input
    unfolding logs_in_def by (rule own.triple_seq [OF logs_in_ws [unfolded logs_in_def] mild_opened [OF l]])
  then have "logs_in s Ws (case input of [] \<Rightarrow> ret RunThrow | frame # input \<Rightarrow>
      seq (co_ws_auth E s (snd frame)) (\<lambda>r. case r of Inl e \<Rightarrow> ret e | Inr _ \<Rightarrow> seq (ask (session_user s)) (\<lambda>u.
      seq (co_read_loop E s u input) (\<lambda>_. ret RunThrow))))"
    by (cases input) auto
  then have "logs_in s Ws (co_ws_serve E s accepted input)"
    unfolding co_ws_serve_def by (auto intro!: logs_in_seq)
  then show ?thesis
    unfolding co_ws_run_def logs_in_def by (rule own.triple_seq [OF _ triple_leave])
qed

section \<open>The interleaved server\<close>

text \<open>What goes on beside the sessions: the actions of \<open>System\<close> that belong to no coroutine of a session.\<close>

inductive background :: "('r, 'c) env \<Rightarrow> string \<Rightarrow> string \<Rightarrow> ('r, 'c) world \<Rightarrow> ('r, 'c) world \<Rightarrow> bool" for E spec html w where
  bg_request: "handle_connection E (routes spec html) req w = Some (res, w') \<Longrightarrow> res \<noteq> Upgraded \<Longrightarrow> background E spec html w w'"
| bg_deliver: "background E spec html w (deliver E s w)"
| bg_write: "w_sessions w s = Some ss \<Longrightarrow> ss_writing ss \<Longrightarrow> background E spec html w (upd_session s do_write_step w)"
| bg_job: "w_jobs w = js @ j # js' \<Longrightarrow> run_job E j (w\<lparr>w_jobs := js @ js'\<rparr>) = Some w' \<Longrightarrow> background E spec html w w'"
| bg_heartbeat: "w_steady_now E w = (t, w') \<Longrightarrow> background E spec html w (upd_session s (heartbeat_expire t) w')"
| bg_peer: "background E spec html w (upd_session s (\<lambda>ss. ss\<lparr>ss_open := False\<rparr>) w)"
| bg_redis: "background E spec html w (w\<lparr>w_redis := r\<rparr>)"
| bg_cassandra: "background E spec html w (w\<lparr>w_cass := c\<rparr>)"
| bg_time: "background E spec html w (w\<lparr>w_pg := (w_pg w)\<lparr>pg_db := (pg_db (w_pg w))\<lparr>db_now := t\<rparr>\<rparr>\<rparr>)"

text \<open>A configuration: the world and the coroutines that wait to be resumed.  \<open>co_spawn\<close> makes a coroutine wait for its first
  resumption; a session object goes when its coroutine has returned and nothing else owns it.\<close>

type_synonym ('r, 'c) config = "('r, 'c) world \<times> (sid \<rightharpoonup> (unit, ('r, 'c) world) coro)"

definition settle :: "('a, 'w) coro \<Rightarrow> ('a, 'w) coro option" where
  "settle c = (case c of Ret _ \<Rightarrow> None | Seg f \<Rightarrow> Some (Seg f))"

inductive cstep :: "('r, 'c) env \<Rightarrow> string \<Rightarrow> string \<Rightarrow> ('r, 'c) config \<Rightarrow> ('r, 'c) config \<Rightarrow> bool" for E spec html where
  cs_accept: "\<not> w_crashed w \<Longrightarrow> fresh_sid w s \<Longrightarrow> T s = None \<Longrightarrow>
    cstep E spec html (w, T) (accept_tcp E True s w, T(s \<mapsto> Seg (co_tcp_run E s input)))"
| cs_upgrade: "\<not> w_crashed w \<Longrightarrow> handle_connection E (routes spec html) req w = Some (Upgraded, w') \<Longrightarrow> fresh_sid w' s \<Longrightarrow>
    T s = None \<Longrightarrow> cstep E spec html (w, T) (new_session E Ws s w', T(s \<mapsto> Seg (co_ws_run E s accepted messages)))"
| cs_resume: "\<not> w_crashed w \<Longrightarrow> T s = Some (Seg f) \<Longrightarrow> f w = Some (c, w') \<Longrightarrow>
    cstep E spec html (w, T) (w', T(s := settle c))"
| cs_background: "\<not> w_crashed w \<Longrightarrow> background E spec html w w' \<Longrightarrow> cstep E spec html (w, T) (w', T)"
| cs_release: "\<not> w_crashed w \<Longrightarrow> T s = None \<Longrightarrow> w_sessions w s = Some ss \<Longrightarrow> ss_phase ss = Ended \<Longrightarrow> ss_mailbox ss = [] \<Longrightarrow>
    \<not> ss_writing ss \<Longrightarrow> ss_heartbeat ss = None \<Longrightarrow>
    cstep E spec html (w, T) (w\<lparr>w_sessions := (w_sessions w)(s := None)\<rparr>, T)"

definition creachable :: "('r, 'c) env \<Rightarrow> string \<Rightarrow> string \<Rightarrow> ('r, 'c) config \<Rightarrow> ('r, 'c) config \<Rightarrow> bool" where
  "creachable E spec html = rtranclp (cstep E spec html)"

lemma background_action: "background E spec html w w' \<Longrightarrow> action E spec html w w'"
  by (induction rule: background.induct) (blast intro: action.intros)+

lemma background_ident: "background E spec html w w' \<Longrightarrow> ident_of w' = ident_of w"
proof (induction rule: background.induct)
  case (bg_request req res w')
  then show ?case using core_ident_of effects_core eff_handle_connection by blast
next
  case (bg_deliver s)
  show ?case by (rule core_ident_of [OF core_deliver])
next
  case (bg_write s ss)
  show ?case by (rule core_ident_of, rule core_upd_session) (simp add: do_write_step_def split: list.split)
next
  case (bg_job js j js' w')
  then show ?case using core_ident_of effects_core eff_run_job [OF _ eff_jobs [OF eff_refl]] by blast
next
  case (bg_heartbeat t w' s)
  have "core (upd_session s (heartbeat_expire t) w') = core w'"
    by (rule core_upd_session) (simp add: heartbeat_expire_def split: option.split)
  moreover have "core w' = core w" using bg_heartbeat core_primitive(5) [of E w] by simp
  ultimately show ?case by (intro core_ident_of) simp
next
  case (bg_peer s)
  show ?case by (rule core_ident_of, rule core_upd_session) simp
qed (simp_all add: ident_of_def fun_eq_iff)

text \<open>Every waiting coroutine is where it may be resumed.\<close>

definition waiting_ok :: "('r, 'c) world \<Rightarrow> sid \<Rightarrow> (unit, ('r, 'c) world) coro \<Rightarrow> bool" where
  "waiting_ok w s c \<longleftrightarrow> (\<exists>P f. c = Seg f \<and> P w \<and> rg (others s) (own s) (\<lambda>_. ended s) P c)"

definition attended :: "('r, 'c) world \<Rightarrow> (sid \<rightharpoonup> 'd) \<Rightarrow> bool" where
  "attended w T \<longleftrightarrow> (\<forall>s. T s = None \<longrightarrow> ident_of w s = None \<or> (\<exists>k u. ident_of w s = Some (k, u, Ended)))"

definition config_inv :: "('r, 'c) config \<Rightarrow> bool" where
  "config_inv c \<longleftrightarrow> sys_inv (fst c) \<and> (\<forall>s d. snd c s = Some d \<longrightarrow> waiting_ok (fst c) s d) \<and> attended (fst c) (snd c)"

lemma waiting_okE:
  assumes "waiting_ok w s c"
  obtains P f where "c = Seg f" "P w" "stable (others s) P" "triple (others s) (own s) P f (\<lambda>_. ended s)"
  using assms unfolding waiting_ok_def using rg_Seg_iff by blast

lemma waiting_okI: "P w \<Longrightarrow> stable (others s) P \<Longrightarrow> triple (others s) (own s) P f (\<lambda>_. ended s) \<Longrightarrow> waiting_ok w s (Seg f)"
  unfolding waiting_ok_def rg_Seg_iff by blast

lemma waiting_others: "waiting_ok w s c \<Longrightarrow> others s w v \<Longrightarrow> waiting_ok v s c"
proof (erule waiting_okE)
  fix P f assume f: "c = Seg f" "P w" "stable (others s) P" "triple (others s) (own s) P f (\<lambda>_. ended s)" "others s w v"
  then have "P v" unfolding stable_def by blast
  with f show "waiting_ok v s c" using waiting_okI by blast
qed

lemma waiting_rest: "(\<And>t d. T t = Some d \<Longrightarrow> waiting_ok w t d) \<Longrightarrow> (\<And>t. others t w v) \<Longrightarrow> T t = Some d \<Longrightarrow> waiting_ok v t d"
  using waiting_others by blast

lemma waiting_new:
  assumes "triple (others s) (own s) (at_ident s i) m (\<lambda>_. ended s)" "at_ident s i w"
  shows "waiting_ok w s (Seg m)"
  using assms(2) stable_at assms(1) by (rule waiting_okI)

lemma ident_new: "ident_of (new_session E k s w) = (ident_of w)(s \<mapsto> (k, 0, Handshake))"
  by (auto simp: ident_of_def new_session_def w_steady_now_def session_init_def fun_eq_iff)

lemma config_inv_spawn:
  assumes "config_inv (w, T)" "sys_inv v" "ident_of v = (ident_of w)(s \<mapsto> (k, 0, Handshake))"
    "triple (others s) (own s) (at_ident s (Some (k, 0, Handshake))) m (\<lambda>_. ended s)"
  shows "config_inv (v, T(s \<mapsto> Seg m))"
proof -
  have o: "others t w v" if "t \<noteq> s" for t using assms(2,3) that by (simp add: others_def)
  have "at_ident s (Some (k, 0, Handshake)) v" using assms(2,3) by (simp add: at_ident_def)
  then have n: "waiting_ok v s (Seg m)" using assms(4) waiting_new by blast
  have "waiting_ok v t d" if "(T(s \<mapsto> Seg m)) t = Some d" for t d
    using that n assms(1) o waiting_others [of w t d v] by (cases "t = s") (simp_all add: config_inv_def)
  moreover have "attended v (T(s \<mapsto> Seg m))"
    using assms(1,3) by (auto simp: config_inv_def attended_def)
  ultimately show ?thesis using assms(2) by (simp add: config_inv_def)
qed

lemma config_inv_cstep:
  fixes E :: "('r, 'c) env"
  assumes "cstep E spec html c c'" "clock_moves (e_clk E)" "config_inv c"
  shows "config_inv c'"
  using assms
proof (induction rule: cstep.induct)
  case (cs_accept w s T input)
  then have v: "sys_inv (accept_tcp E True s w)" using sys_inv_new_session(2) by (auto simp: config_inv_def)
  have "ident_of (accept_tcp E True s w) = (ident_of w)(s \<mapsto> (Tcp, 0, Handshake))"
    by (simp add: accept_tcp_def ident_new) (simp add: ident_of_def fun_eq_iff)
  then show ?case using cs_accept.prems v by (blast intro: config_inv_spawn triple_tcp_run)
next
  case (cs_upgrade w req w' s T accepted input)
  have e: "effects E w w'" using cs_upgrade.hyps eff_handle_connection by blast
  then have i: "sys_inv w'" using cs_upgrade.prems sys_inv_effects by (auto simp: config_inv_def)
  then have v: "sys_inv (new_session E Ws s w')" using sys_inv_new_session(1) cs_upgrade.hyps by blast
  have "ident_of (new_session E Ws s w') = (ident_of w)(s \<mapsto> (Ws, 0, Handshake))"
    by (simp add: ident_new core_ident_of [OF effects_core [OF e]])
  then show ?case using cs_upgrade.prems v by (blast intro: config_inv_spawn triple_ws_run)
next
  case (cs_resume w T s f c w')
  have "waiting_ok w s (Seg f)" using cs_resume by (simp add: config_inv_def)
  then obtain P where P: "P w" "triple (others s) (own s) P f (\<lambda>_. ended s)" by (rule waiting_okE) simp
  then obtain P' where n: "own s w w'" "P' w'" "rg (others s) (own s) (\<lambda>_. ended s) P' c"
    using tripleD [OF P(2,1)] cs_resume(3) by auto
  have "waiting_ok w' t d" if "(T(s := settle c)) t = Some d" for t d
  proof (cases "t = s")
    case True
    with that n show ?thesis by (cases c) (auto simp: settle_def waiting_ok_def)
  next
    case False
    then have "others t w w'" by (rule own_others [OF n(1)])
    with False that cs_resume.prems waiting_others [of w t d w'] show ?thesis by (simp add: config_inv_def)
  qed
  moreover have "sys_inv w'" using n(1) cs_resume.prems by (simp add: own_def config_inv_def)
  moreover have "attended w' (T(s := settle c))"
    unfolding attended_def
  proof (intro allI impI)
    fix t assume t: "(T(s := settle c)) t = None"
    show "ident_of w' t = None \<or> (\<exists>k u. ident_of w' t = Some (k, u, Ended))"
    proof (cases "t = s")
      case True
      with t obtain a where "c = Ret a" by (cases c) (auto simp: settle_def)
      with n(2,3) have "ended s w'" by (auto elim: rg_RetE)
      with True show ?thesis by (auto simp: ended_def at_ident_def)
    next
      case False
      with t n(1) cs_resume.prems show ?thesis by (simp add: own_def config_inv_def attended_def)
    qed
  qed
  ultimately show ?case by (simp add: config_inv_def)
next
  case (cs_background w w' T)
  then have "sys_inv w'" using sys_inv_action [OF background_action] by (auto simp: config_inv_def)
  moreover have "others s w w'" for s
    using background_ident [OF cs_background(2)] \<open>sys_inv w'\<close> by (simp add: others_def)
  moreover have "attended w' T"
    using cs_background.prems background_ident [OF cs_background(2)] by (simp add: config_inv_def attended_def)
  ultimately show ?case using cs_background.prems waiting_others unfolding config_inv_def fst_conv snd_conv by blast
next
  case (cs_release w T s ss)
  let ?v = "w\<lparr>w_sessions := (w_sessions w)(s := None)\<rparr>"
  have v: "sys_inv ?v" using cs_release by (intro sys_inv_release [of w s ss]) (auto simp: config_inv_def)
  have "waiting_ok ?v t d" if "T t = Some d" for t d
  proof -
    have "t \<noteq> s" using that cs_release(2) by auto
    then have "others t w ?v" using v by (simp add: others_def ident_of_def)
    with that cs_release.prems waiting_others [of w t d ?v] show ?thesis by (simp add: config_inv_def)
  qed
  moreover have "attended ?v T"
    using cs_release.prems by (simp add: config_inv_def attended_def ident_of_def)
  ultimately show ?case using v by (simp add: config_inv_def)
qed

lemma config_inv_creachable:
  assumes "creachable E spec html c c'" "clock_moves (e_clk E)" "config_inv c"
  shows "config_inv c'"
  using assms unfolding creachable_def by (induction rule: rtranclp_induct) (auto intro: config_inv_cstep)

lemma config_inv_starts: "starts w \<Longrightarrow> config_inv (w, Map.empty)"
  using sys_inv_starts [of w] by (simp add: config_inv_def attended_def starts_def ident_of_def)

text \<open>A coroutine that is resumed again and again, with nothing in between, gets to its end.\<close>

lemma resume_to_end:
  fixes E :: "('r, 'c) env"
  assumes "waiting_ok w s c" "T s = Some c" "\<not> w_crashed w"
  shows "\<exists>v. creachable E spec html (w, T) (v, T(s := None)) \<and> ended s v"
  using assms
proof (induction c arbitrary: w T rule: coro_induct)
  case (Seg f)
  obtain P where "P w" "triple (others s) (own s) P f (\<lambda>_. ended s)"
    using Seg.prems(1) by (rule waiting_okE) simp
  then obtain P' c v where n: "f w = Some (c, v)" "own s w v" "P' v" "rg (others s) (own s) (\<lambda>_. ended s) P' c"
    using tripleD [of _ _ P f _ w] by blast
  have v: "\<not> w_crashed v" using n(2) Seg.prems(3) by (simp add: own_def)
  have st: "cstep E spec html (w, T) (v, T(s := settle c))" using Seg.prems n(1) by (intro cs_resume)
  show ?case
  proof (cases c)
    case (Ret a)
    then have "ended s v" using n(3,4) by (auto elim: rg_RetE)
    have "cstep E spec html (w, T) (v, T(s := None))" using st Ret by (simp only: settle_def coro.case)
    then have "creachable E spec html (w, T) (v, T(s := None))" unfolding creachable_def by (rule r_into_rtranclp)
    with \<open>ended s v\<close> show ?thesis by blast
  next
    case (Seg g)
    then have "waiting_ok v s c" using n(3,4) by (auto simp: waiting_ok_def)
    moreover have "(T(s := settle c)) s = Some c" using Seg by (simp add: settle_def)
    ultimately obtain u where "creachable E spec html (v, T(s := settle c)) (u, T(s := None))" "ended s u"
      using Seg.IH [OF n(1), of v "T(s := settle c)"] v unfolding fun_upd_upd by blast
    moreover have "creachable E spec html (w, T) (u, T(s := None))"
      using st calculation(1) unfolding creachable_def by (rule converse_rtranclp_into_rtranclp)
    ultimately show ?thesis by blast
  qed
qed (auto simp: waiting_ok_def)

text \<open>C3. However the coroutines of the sessions are interleaved at their suspensions, with each other, with requests, deliveries, writes,
  timers and detached coroutines: a session that the registry returns for a user was authenticated as that user, the
  gauges are never below the sessions and connections that are open, and the tables keep the constraints of the schema; and
  every coroutine that waits runs, when it is resumed, to its next suspension or its end.\<close>

theorem interleaved_invariant:
  assumes "starts w0" "clock_moves (e_clk E)" "creachable E spec html (w0, Map.empty) (w, T)"
  shows "((\<forall>u s. w_lookup w u = Some s \<longrightarrow>
      (\<exists>ss. w_sessions w s = Some ss \<and> ss_user_id ss = u \<and> ss_phase ss \<noteq> Handshake)) \<and>
    (\<forall>s ss. w_sessions w s = Some ss \<longrightarrow> ss_phase ss = Handshake \<longrightarrow> ss_user_id ss = 0) \<and>
    int (card {s. \<exists>ss. w_sessions w s = Some ss \<and> ss_phase ss = Running}) \<le> w_active_sessions w \<and>
    int (card {s. \<exists>ss. w_sessions w s = Some ss \<and>
      (ss_phase ss = Running \<or> ss_kind ss = Tcp \<and> ss_phase ss = Handshake)}) \<le> w_active_connections w) \<and>
    db_ok (pg_db (w_pg w)) \<and>
    (\<forall>s c. T s = Some c \<longrightarrow> (\<exists>f d v. c = Seg f \<and> f w = Some (d, v))) \<and>
    (\<forall>s ss. w_sessions w s = Some ss \<longrightarrow> ss_phase ss \<noteq> Ended \<longrightarrow> T s \<noteq> None)"
proof -
  have i: "config_inv (w, T)" by (rule config_inv_creachable [OF assms(3,2) config_inv_starts [OF assms(1)]])
  then have v: "sys_inv w" by (simp add: config_inv_def)
  have "\<exists>f d v. c = Seg f \<and> f w = Some (d, v)" if "T s = Some c" for s c
  proof -
    have "waiting_ok w s c" using i that by (simp add: config_inv_def)
    then obtain P f where "c = Seg f" "P w" "triple (others s) (own s) P f (\<lambda>_. ended s)" by (rule waiting_okE)
    then show ?thesis using tripleD [of _ _ P f _ w] by blast
  qed
  moreover have "T s \<noteq> None" if "w_sessions w s = Some ss" "ss_phase ss \<noteq> Ended" for s ss
    using i that by (force simp: config_inv_def attended_def ident_of_def)
  ultimately show ?thesis using sys_inv_sessions [OF v] v by (simp add: sys_inv_def world_db_ok_def)
qed

lemma accepted_creachable:
  "creachable E spec html (start_world, Map.empty) (accept_tcp E True 1 start_world, [1 \<mapsto> Seg (co_tcp_run E 1 input)])"
  unfolding creachable_def
  by (rule r_into_rtranclp, rule cs_accept) (simp_all add: start_world_def demo_world_def fresh_sid_def)

theorem interleaved_invariant_witness:
  "\<exists>w T. creachable demo_env [] [] (start_world, Map.empty) (w, T) \<and> (\<exists>c f d v. T 1 = Some c \<and> c = Seg f \<and> f w = Some (d, v))"
proof -
  let ?w = "accept_tcp demo_env True 1 start_world" and ?T = "[(1 :: sid) \<mapsto> Seg (co_tcp_run demo_env 1 [])]"
  have r: "creachable demo_env [] [] (start_world, Map.empty) (?w, ?T)" by (rule accepted_creachable)
  have "\<forall>s c. ?T s = Some c \<longrightarrow> (\<exists>f d v. c = Seg f \<and> f ?w = Some (d, v))"
    using interleaved_invariant [OF start_world_starts demo_live(2) r] by (elim conjE)
  from this [THEN spec, THEN spec, THEN mp, OF fun_upd_same]
  have "\<exists>f d v. Seg (co_tcp_run demo_env 1 []) = Seg f \<and> f ?w = Some (d, v)" .
  with r show ?thesis by (intro exI [of _ ?w] exI [of _ ?T]) simp
qed

text \<open>C4. A session always gets to its end: in every state that the interleaved server can reach, a coroutine of a session
  that waits can be resumed until it returns, whatever it has still to read and wherever it was suspended; then the session
  is over.\<close>

theorem session_coroutine_ends:
  assumes "starts w0" "clock_moves (e_clk E)" "creachable E spec html (w0, Map.empty) (w, T)" "\<not> w_crashed w" "T s = Some c"
  shows "\<exists>v ss. creachable E spec html (w0, Map.empty) (v, T(s := None)) \<and> w_sessions v s = Some ss \<and> ss_phase ss = Ended"
proof -
  have "config_inv (w, T)" by (rule config_inv_creachable [OF assms(3,2) config_inv_starts [OF assms(1)]])
  then have "waiting_ok w s c" using assms(5) by (simp add: config_inv_def)
  then obtain v where v: "creachable E spec html (w, T) (v, T(s := None))" "ended s v"
    using resume_to_end [where T = T, OF _ assms(5,4)] by blast
  moreover obtain ss where "w_sessions v s = Some ss" "ss_phase ss = Ended"
    using v(2) ident_session by (fastforce simp: ended_def at_ident_def)
  ultimately show ?thesis using assms(3) unfolding creachable_def by (meson rtranclp_trans)
qed

theorem session_coroutine_ends_witness:
  "\<exists>v ss. creachable demo_env [] [] (start_world, Map.empty) (v, Map.empty) \<and> w_sessions v 1 = Some ss \<and> ss_phase ss = Ended"
proof -
  let ?w = "accept_tcp demo_env True 1 start_world"
  have c: "\<not> w_crashed ?w" by (simp add: accept_tcp_def new_session_def w_steady_now_def start_world_def demo_world_def)
  show ?thesis
    using session_coroutine_ends [OF start_world_starts demo_live(2) accepted_creachable [of demo_env "[]" "[]" "[]"] c, of 1]
    by simp
qed

section \<open>A direct message under interference\<close>

text \<open>The segment that resumes the delivery to a user who was not online.\<close>

lemma deliver_suspended:
  assumes "w_lookup w r = None"
  shows "co_deliver E u r c fl i b w = Some (Seg (seq (tell (w_lpush E r b)) (\<lambda>_. tell (w_spawn (Job_hincrby r c)))), w)"
  using assms by (simp add: co_deliver_def co_store_offline_def seq_eval)

lemma tcp_auth_redis:
  assumes "tcp_auth E s input w = (Inr rest, w1)" "w_alive w s" "u = ss_user_id (the (w_sessions w1 s))"
  shows "w_redis w1 = snd (lrange_and_del (e_rx E) (set_presence (e_rx E) (w_redis w) u (e_server_id E)) (offline_key u))"
proof -
  obtain ss where "w_sessions w s = Some ss" using assms(2) by (auto simp: w_alive_def)
  then show ?thesis
    using assms(1,3)
    by (auto simp: tcp_auth_def session_online_def tcp_flush_offline_queue_def tcp_write_def w_now_def w_steady_now_def
        heartbeat_start_def Let_def split_beta split: option.splits if_splits)
qed

text \<open>C5. A direct message goes to one place in every interleaving.  When the recipient is online, routing is a single segment, which
  does what \<open>tcp_dm_delivery\<close> says; otherwise the coroutine is suspended once, having changed nothing but the
  identifier generator and the clock, and when it is resumed, in whatever state, it pushes one copy to the offline queue, hands nothing
  to any session and schedules the counter, the history and the conversation.\<close>

theorem dm_interleaved:
  assumes "fh_flags hdr AND kFlagIsGroup = 0" "w_snowflake E w = Some (i, w1)"
    and "r = fh_recipient_id hdr" "c = min u r" "ts = e_clk E (w_clk w1)" "b = serialize_delivery (dm_message u r i ts p)"
  shows "case w_lookup w r of
      Some t \<Rightarrow> \<exists>w'. co_route_message E u hdr p w = Some (Ret (), w') \<and> tcp_route_message E u hdr p w = Some w'
    | None \<Rightarrow> \<exists>f. co_route_message E u hdr p w = Some (Seg f, snd (w_now E w1)) \<and>
        (\<forall>v. \<exists>v'. f v = Some (Ret (), v') \<and> w_sessions v' = w_sessions v \<and> w_registry v' = w_registry v \<and>
          w_redis v' = lpush (e_rx E) (w_redis v) (offline_key r) b \<and>
          w_jobs v' = w_jobs v @ [Job_hincrby r c, Job_store c i u r p ts MsgType_CHAT, Job_upsert c u r,
            Job_activity c False (preview p)])"
proof -
  define k where "k = (\<lambda>_ :: unit. seq (tell (w_spawn (Job_store c i u r p ts MsgType_CHAT))) (\<lambda>_.
      seq (tell (w_spawn (Job_upsert c u r))) (\<lambda>_.
      seq (tell (w_spawn (Job_activity c False (preview p)))) (\<lambda>_. tell (w_count_message :: ('a, 'b) world \<Rightarrow> _)))))"
  have e: "co_route_message E u hdr p w = seq (co_deliver E u r c 0 i b) k (snd (w_now E w1))"
    using assms(1,3-6)
    by (simp add: co_route_message_def co_route_dm_def Let_def seq_sync_opt seq_sync assms(2) split_beta k_def) (simp add: w_now_def)
  have k: "k x v = Some (Ret (), w_count_message (w_spawn (Job_activity c False (preview p)) (w_spawn (Job_upsert c u r)
      (w_spawn (Job_store c i u r p ts MsgType_CHAT) v))))" for x v
    by (simp add: k_def seq_eval) (simp add: tell_def)
  have l: "w_lookup w1 r = w_lookup w r" using snowflake_lookup [OF assms(2)] by simp
  show ?thesis
  proof (cases "w_lookup w r")
    case None
    let ?f = "seq (seq (tell (w_lpush E r b)) (\<lambda>_. tell (w_spawn (Job_hincrby r c)))) k"
    have "co_route_message E u hdr p w = Some (Seg ?f, snd (w_now E w1))"
      unfolding e seq_def [of "co_deliver E u r c 0 i b"]
      by (subst deliver_suspended) (use None l in \<open>simp_all add: and_then_Seg\<close>)
    moreover have "?f v = k () (w_spawn (Job_hincrby r c) (w_lpush E r b v))" for v
      by (simp add: seq_def tell_def)
    ultimately show ?thesis using None by (simp add: k) (simp add: w_count_message_def w_spawn_def w_lpush_def)
  next
    case (Some t)
    have "\<exists>v. co_deliver E u r c 0 i b (snd (w_now E w1)) = Some (Ret (), v)"
      by (simp add: co_deliver_def seq_eval l Some split: option.split) (simp add: tell_def ret_def)
    then obtain v where "co_deliver E u r c 0 i b (snd (w_now E w1)) = Some (Ret (), v)" by blast
    then have "\<exists>w'. co_route_message E u hdr p w = Some (Ret (), w')" unfolding e by (simp add: seq_def k)
    then obtain w' where w': "co_route_message E u hdr p w = Some (Ret (), w')" by blast
    then have "run_alone (co_route_message E u hdr p) w = Some ((), w')" by (simp add: run_alone_def)
    then have "tcp_route_message E u hdr p w = Some w'" by (auto simp: alone_route_message)
    with w' Some show ?thesis by simp
  qed
qed

theorem dm_interleaved_witness:
  "\<exists>f. co_route_message demo_env 7 (FrameHeader_zero\<lparr>fh_recipient_id := 9\<rparr>) [104, 105] demo_world =
     Some (Seg f, demo_world\<lparr>w_sf := \<lparr>sf_machine_id = 1, sf_last_ms = 1000, sf_sequence = 0\<rparr>, w_clk := 2\<rparr>)"
  using dm_interleaved [OF _ demo_snowflake refl refl refl refl, of "FrameHeader_zero\<lparr>fh_recipient_id := 9\<rparr>" 7 "[104, 105]"]
  by (auto simp: FrameHeader_zero_def w_now_def)

text \<open>C30. A message can be left behind.  The delivery to a user who is not online is decided before the coroutine is
  suspended for the push to the offline queue.  When the user logs in at that suspension, the new session empties the
  queue first and the message arrives there afterwards: the user is online, the session has not been handed the message, and
  it stays in the queue until the user logs in again.\<close>

theorem login_race_strands_message:
  assumes "redis_server (e_rx E) up content ttl pass" "up (w_redis w)"
    and "list_at (content (w_redis w)) (offline_key r) = Some xs"
    and "w_lookup w r = None" "w_alive w t"
    and "tcp_auth E t input w = (Inr rest, w1)" "ss_user_id (the (w_sessions w1 t)) = r"
  shows "\<exists>f w2. co_deliver E u r c fl i b w = Some (Seg f, w) \<and> f w1 = Some (Ret (), w2) \<and> w_lookup w2 r = Some t \<and>
    w_sessions w2 = w_sessions w1 \<and> content (w_redis w2) (offline_key r) = Some (RList [chars_of_bytes b])"
proof -
  let ?f = "seq (tell (w_lpush E r b)) (\<lambda>_. tell (w_spawn (Job_hincrby r c)))"
  let ?w2 = "w_spawn (Job_hincrby r c) (w_lpush E r b w1)"
  have f: "?f w1 = Some (Ret (), ?w2)" by (simp add: seq_eval) (simp add: tell_def)
  obtain a: "w_registry w1 = registry_insert (w_registry w) r t" "w_alive w1 = w_alive w"
    using tcp_auth_Inr [OF assms(6,5)] assms(7) by metis
  have l: "w_lookup ?w2 r = Some t"
    using a assms(5) by (simp add: w_lookup_def registry_lookup_def registry_insert_def)
  have "w_redis w1 = snd (lrange_and_del (e_rx E) (set_presence (e_rx E) (w_redis w) r (e_server_id E)) (offline_key r))"
    using tcp_auth_redis [OF assms(6,5)] assms(7) by simp
  moreover have "list_at (content (set_presence (e_rx E) (w_redis w) r (e_server_id E))) (offline_key r) = Some xs"
    using assms(2,3) by (simp add: redis_server.content_presence [OF assms(1)] list_at_def)
  ultimately have q: "up (w_redis w1)" "list_at (content (w_redis w1)) (offline_key r) = Some []"
    using assms(2) redis_server.content_lrange_and_del [OF assms(1)]
    by (simp_all add: redis_server.up_simple [OF assms(1)] redis_server.up_lrange_and_del [OF assms(1)])
      (cases "xs = []"; simp add: list_at_def)
  from redis_server.content_lpush [OF assms(1) q, of b]
  have "content (w_redis ?w2) (offline_key r) = Some (RList [chars_of_bytes b])" by simp
  with f l show ?thesis using deliver_suspended [OF assms(4)] by fastforce
qed

theorem login_race_strands_message_witness:
  "\<exists>w1 (w2 :: (rstore, cass_ref) world). tcp_auth demo_env 3 demo_login (demo_accepted\<lparr>w_registry := Map.empty\<rparr>) = (Inr [], w1) \<and> w_lookup w2 7 = Some 3 \<and>
     ref_content (w_redis w2) (offline_key 7) = Some (RList [''hi''])"
proof -
  let ?w = "demo_accepted\<lparr>w_registry := Map.empty\<rparr>"
  have s: "w_sessions ?w 3 = Some (session_init Tcp 0)" by (simp add: demo_accepted_def)
  obtain w1 where a: "tcp_auth demo_env 3 (demo_login @ []) ?w = (Inr [], w1)" "map_option ss_user_id (w_sessions w1 3) = Some 7"
    using demo_auth_at [OF s] by blast
  have u: "ss_user_id (the (w_sessions w1 3)) = 7" using a(2) by auto
  have r: "redis_server (e_rx demo_env) rs_up ref_content ref_ttl ref_pass" "rs_up (w_redis ?w)"
    "list_at (ref_content (w_redis ?w)) (offline_key 7) = Some []"
    using ref_redis.redis_server_axioms
    by (simp_all add: demo_accepted_def rstore_empty_def ref_content_def ref_live_def list_at_def)
  have l: "w_lookup ?w 7 = None" "w_alive ?w 3" using s by (simp_all add: w_lookup_def registry_lookup_def w_alive_def)
  have h: "chars_of_bytes [104, 105] = ''hi''" by code_simp
  obtain w2 :: "(rstore, cass_ref) world" where "w_lookup w2 7 = Some 3" "ref_content (w_redis w2) (offline_key 7) = Some (RList [chars_of_bytes [104, 105]])"
    using login_race_strands_message [OF r l a(1) u, of 12 7 0 1 "[104, 105]"] by auto
  with a(1) h show ?thesis by auto
qed

end
