(* ===== verification/Spec2Isabelle.thy ===== *)
theory Spec2Isabelle
  imports Loomic_Prelude Snowflake Frames Protobuf RateLimit Registry Redis_Client Pg_Pool Database
    Cassandra Json Auth_Services World Tcp_Session Ws_Session Http_Routes
    System Config Metrics Boot Load_Client
    Coroutine Tcp_Coroutines Ws_Coroutines Interleaving
begin

text \<open>
  A verification of Loomic, a chat server in C++ (\<open>src/server\<close>): TCP and WebSocket clients exchange messages, an
  HTTP interface manages users, groups and conversations; PostgreSQL keeps the tables, Redis the presence, the offline
  queues, the unread counters and the members of groups, Cassandra the history.

  Theories, from the bottom to the top, and the code they model.

    \<^item> \<open>Loomic_Prelude\<close>: machine integers, bytes and characters, \<open>std::from_chars\<close>, \<open>std::to_string\<close>, \<open>std::stoi\<close>; the shared
      simplification rules.
    \<^item> \<open>Snowflake\<close> (\<open>auth/SnowflakeGen.cpp\<close>): identifiers; the spin loop is a partial function, with the exact condition
      under which it returns.
    \<^item> \<open>Frames\<close>, \<open>Protobuf\<close> (\<open>tcp/frame.cpp\<close>): headers, deliveries in three formats, chat frames; round trips.
    \<^item> \<open>RateLimit\<close> (\<open>middleware/RateLimiter.cpp\<close>, \<open>TokenBucket\<close> of \<open>tcp/Session.cpp\<close>): token buckets over reals with a
      rounding parameter; bounds on bursts.
    \<^item> \<open>Registry\<close> (\<open>tcp/SessionRegistry.cpp\<close>): the map from users to sessions; a weak pointer is a session identifier.
    \<^item> \<open>Redis_Client\<close> (\<open>db/RedisClient.cpp\<close>): every method over a server that is a parameter; the locale \<open>redis_server\<close> has the
      documented laws of the commands, and a reference server is its interpretation.
    \<^item> \<open>Pg_Pool\<close> (\<open>db/PgPool.cpp\<close>): the pool and its retries, over a sequence of what the network does.
    \<^item> \<open>Database\<close>: the SQL statements of all handlers as functions on tables, with the constraints of the migrations.
    \<^item> \<open>Cassandra\<close> (\<open>db/CassandraClient.cpp\<close>): store with retries and dead letters, history, deletion.
    \<^item> \<open>Json\<close>, \<open>Auth_Services\<close>: JSON values and what the code uses of the library; password hashes, tokens, the Bearer check.
    \<^item> \<open>World\<close>: the state of the whole server as one record and its primitive effects; \<open>env\<close> holds the parameters.
    \<^item> \<open>Tcp_Session\<close> (\<open>tcp/Session.cpp\<close>), \<open>Ws_Session\<close> (\<open>ws/WebSocketSession.cpp\<close>): login, message loop, routing to one user or a
      group, typing, receipts, writing, heartbeat, clean-up; each handler as one function on the state.
    \<^item> \<open>Coroutine\<close>: C++ coroutines in general: a coroutine returns or runs a segment up to its next suspension; sequencing,
      running it alone, and triples with a rely and a guarantee in the locale \<open>guarantee\<close>.
    \<^item> \<open>Tcp_Coroutines\<close>, \<open>Ws_Coroutines\<close>: \<open>run\<close> of both sessions again as coroutines, with a suspension at every \<open>co_await\<close>, and
      the proofs that a coroutine which nothing disturbs computes the function of \<open>Tcp_Session\<close> or \<open>Ws_Session\<close>.
    \<^item> \<open>Http_Server\<close>, \<open>Http_Auth\<close>, \<open>Http_Groups\<close>, \<open>Http_Conversations\<close>, \<open>Http_Messages\<close>, \<open>Http_Users\<close>, \<open>Http_Routes\<close> (\<open>http\<close>,
      \<open>push\<close>, \<open>util/Uuid.cpp\<close>): the matching of paths, every handler with its guards and error answers in the order of the
      code, and the table of routes.
    \<^item> \<open>System\<close> (\<open>tcp/TcpServer.cpp\<close> and the event loop): one step relation over all sessions, requests, posted deliveries, timers
      and detached coroutines, with the reachable states.
    \<^item> \<open>Interleaving\<close>: the same system with the sessions as coroutines, which are resumed in any order: a configuration is the
      state and the coroutines that wait.
    \<^item> \<open>Config\<close> (\<open>util/Config.cpp\<close>), \<open>Metrics\<close> (\<open>metrics/MetricsRegistry.cpp\<close>), \<open>Boot\<close> (\<open>main.cpp\<close>, \<open>core/Server.cpp\<close>,
      \<open>util/Logger.cpp\<close>, the constructors of the clients): settings and their precedence, the registry of counters, and the
      start of the server, its event loops and their shutdown.
    \<^item> \<open>Load_Client\<close> (\<open>tools/load_client.cpp\<close>): the load test, as a client of the same protocol, from its arguments to its report.

  How state and operations correspond.  A member variable is a field of the record of its class, a method a function
  that returns the new state; what a method throws is \<open>Inl\<close>, \<open>None\<close> or a constructor of its result, named in each theory.  In
  \<open>World\<close> the outer \<open>None\<close> of an operation means that it does not return (the generator spins, the pool has no
  connection to lend).  A handler gives \<open>Some (None, w)\<close> when an exception leaves it (the connection is dropped) and
  \<open>Some (Some response, w)\<close> otherwise.  Posting to the executor of a session appends to its mailbox; \<open>deliver\<close> is the later run
  of the posted function.  A detached coroutine is a job in \<open>w_jobs\<close>, run by a step of its own.  Clocks and random generators
  are sequences with the number of readings so far in the state.

  What the lemmas show.  Each theory proves the behaviour of its operations on every branch and, where it offers an
  interface, states it as a locale (\<open>session_directory\<close>, \<open>redis_server\<close>, \<open>cass_cluster\<close>, \<open>chat_codec\<close>, \<open>json_library\<close>,
  \<open>jwt_library\<close>, \<open>config_library\<close>, \<open>prometheus\<close>, \<open>rounding\<close> and others) with an interpretation.  \<open>World\<close> has two
  closure properties that every handler is shown to have: \<open>effects\<close> (a handler changes the state only by primitive
  effects, so that it keeps the schema) and \<open>live\<close> (it leaves the generator and the pool usable).  From them \<open>System\<close> gets the
  invariants of the reachable states: registered sessions belong to their user, the gauges bound the
  sessions, the tables satisfy their constraints, and every request, frame and coroutine is handled to its end.  The
  segments of the session coroutines have the same property, so \<open>Interleaving\<close> gets the invariants in every interleaving,
  by a rely-guarantee argument in which the guarantee of a session is that it leaves the standing of the others alone; there a
  session always gets to its end, a direct message goes to one place, and the race that leaves a message behind is
  exhibited.  The end-to-end theorems follow a message from the socket of the sender to the socket of the recipient.  \<open>boot_starts\<close> shows that
  a server that starts is in such a state.  The numbered theorems are the main properties; those about defects
  state precisely what happens.

  Bounds.  Nothing is bounded by fuel.  Loops that consume input have a measure, loops that may not end are partial
  functions (the generator, the pacing of the load client) with theorems on when they return.  Machine integers have
  their width; contents are assumed shorter than \<open>2 ^ 32\<close> or \<open>2 ^ 20\<close> bytes where the code checks it or the format needs it.

  Not modelled.  The libraries (Asio, Beast, OpenSSL, libpqxx, hiredis, the Cassandra driver, Protobuf, jwt-cpp, the JSON and
  Prometheus libraries) are parameters.  Segments between suspensions are atomic because all of them
  run on one thread (\<open>server_single_thread\<close>).  Sessions are suspended at every \<open>co_await\<close>; a request and a detached
  coroutine run to their end in one step.  Which lines are logged, latency
  histograms, the options of the TLS context, signals, and the text that the load test prints are left out, because the
  program keeps no state for them that it reads again; tests are not part of the model.
\<close>

end
